(* ===== verification/Prelude.thy ===== *)
theory Prelude
  imports Complex_Main "HOL-Library.Word"
begin

text \<open>
  What every component of the development shares: bytes and Python strings, the
  statements of the Python code (state transformers that may raise), little-endian
  16-bit values, and the insertion-ordered dictionary of Python with its interface
  \<open>ordered_dict\<close> and the lemmas that interface carries.
\<close>

unbundle bit_operations_syntax

section \<open>Collections of rewrite rules\<close>

named_theorems stmt_simps \<open>unfolding of the statement combinators\<close>
named_theorems dict_simps \<open>facts about insertion-ordered dictionaries\<close>

section \<open>Bytes, strings\<close>

text \<open>
  A byte of a \<^verbatim>\<open>bytes\<close> value is an 8-bit word. A Python \<^verbatim>\<open>str\<close> is the list of its
  code points; \<open>str_of\<close> reads an ASCII literal.
\<close>

type_synonym byte = "8 word"
type_synonym pystr = "nat list"

definition str_of :: "string \<Rightarrow> pystr" where
  "str_of s = map of_char s"

lemma byte_of_nat [simp]: "n \<le> 255 \<Longrightarrow> unat (word_of_nat n :: byte) = n"
  by (simp add: unat_of_nat)

lemma unat_byte_less [simp]: "unat (b :: byte) < 256"
  using unsigned_less [of b, where 'a = nat] by simp

lemma unat_byte_le: "unat (b :: byte) \<le> 255"
  using unat_byte_less [of b] by linarith

section \<open>Exceptions and statements\<close>

text \<open>
  A statement takes the state and returns the new state with the exception it raised,
  if any; the effects before a raise stay, as in Python.
\<close>

type_synonym ('s, 'e) stmt = "'s \<Rightarrow> 's \<times> 'e option"

definition skip :: "('s, 'e) stmt" where
  "skip s = (s, None)"

definition update :: "('s \<Rightarrow> 's) \<Rightarrow> ('s, 'e) stmt" where
  "update f s = (f s, None)"

definition raise :: "'e \<Rightarrow> ('s, 'e) stmt" where
  "raise e s = (s, Some e)"

definition seq :: "('s, 'e) stmt \<Rightarrow> ('s, 'e) stmt \<Rightarrow> ('s, 'e) stmt" where
  "seq a b s = (case a s of (s', None) \<Rightarrow> b s' | (s', Some e) \<Rightarrow> (s', Some e))"

fun for_each :: "('a \<Rightarrow> ('s, 'e) stmt) \<Rightarrow> 'a list \<Rightarrow> ('s, 'e) stmt" where
  "for_each f [] = skip"
| "for_each f (x # xs) = seq (f x) (for_each f xs)"

text \<open>An expression that may raise, evaluated for a statement or for another expression.\<close>

definition bind_val :: "'e + 'a \<Rightarrow> ('a \<Rightarrow> ('s, 'e) stmt) \<Rightarrow> ('s, 'e) stmt" where
  "bind_val r f s = (case r of Inl e \<Rightarrow> (s, Some e) | Inr a \<Rightarrow> f a s)"

fun map_val :: "('a \<Rightarrow> 'e + 'b) \<Rightarrow> 'a list \<Rightarrow> 'e + 'b list" where
  "map_val f [] = Inr []"
| "map_val f (x # xs) =
     (case f x of Inl e \<Rightarrow> Inl e
      | Inr y \<Rightarrow> (case map_val f xs of Inl e \<Rightarrow> Inl e | Inr ys \<Rightarrow> Inr (y # ys)))"

lemma map_val_Inr: "(\<And>x. x \<in> set xs \<Longrightarrow> f x = Inr (g x)) \<Longrightarrow> map_val f xs = Inr (map g xs)"
  by (induction xs) auto

lemma bind_val_Inr [simp]: "bind_val (Inr a) f = f a"
  by (rule ext) (simp add: bind_val_def)

lemma bind_val_Inl [simp]: "bind_val (Inl e) f = raise e"
  by (rule ext) (simp add: bind_val_def raise_def)

text \<open>The position of an element, as \<^verbatim>\<open>list.index\<close> finds it.\<close>

fun index_of :: "'a list \<Rightarrow> 'a \<Rightarrow> nat option" where
  "index_of [] x = None"
| "index_of (y # ys) x = (if y = x then Some 0 else map_option Suc (index_of ys x))"

lemma index_of_None: "index_of xs x = None \<longleftrightarrow> x \<notin> set xs"
  by (induction xs) auto

lemma index_of_Some: "index_of xs x = Some i \<Longrightarrow> i < length xs \<and> xs ! i = x"
  by (induction xs arbitrary: i) (auto split: if_splits)

declare skip_def [stmt_simps] update_def [stmt_simps] raise_def [stmt_simps]

lemma seq_None [stmt_simps]: "a s = (s', None) \<Longrightarrow> seq a b s = b s'"
  by (simp add: seq_def)

lemma seq_Some [stmt_simps]: "a s = (s', Some e) \<Longrightarrow> seq a b s = (s', Some e)"
  by (simp add: seq_def)

lemma seq_skip [simp]: "seq skip b = b"
  by (rule ext) (simp add: seq_def skip_def)

lemma seq_assoc: "seq (seq a b) c = seq a (seq b c)"
  by (rule ext) (simp add: seq_def split: prod.split option.split)

text \<open>
  \<open>safe P f Q\<close>: from a state with \<open>P\<close> the statement raises nothing and ends in
  a state with \<open>Q\<close>.
\<close>

definition safe :: "('s \<Rightarrow> bool) \<Rightarrow> ('s, 'e) stmt \<Rightarrow> ('s \<Rightarrow> bool) \<Rightarrow> bool" where
  "safe P f Q \<longleftrightarrow> (\<forall>s. P s \<longrightarrow> snd (f s) = None \<and> Q (fst (f s)))"

lemma safeI: "(\<And>s. P s \<Longrightarrow> snd (f s) = None \<and> Q (fst (f s))) \<Longrightarrow> safe P f Q"
  by (simp add: safe_def)

lemma safeD: "safe P f Q \<Longrightarrow> P s \<Longrightarrow> \<exists>s'. f s = (s', None) \<and> Q s'"
  by (metis prod.collapse safe_def)

lemma safe_seq [intro]: "safe P f Q \<Longrightarrow> safe Q g R \<Longrightarrow> safe P (seq f g) R"
  unfolding safe_def seq_def
  by (metis (no_types, lifting) case_prod_unfold option.simps(4))

lemma safe_skip: "safe P skip P"
  by (simp add: safe_def skip_def)

lemma safe_update: "(\<And>s. P s \<Longrightarrow> Q (f s)) \<Longrightarrow> safe P (update f) Q"
  by (simp add: safe_def update_def)

lemma safe_pre: "safe P f Q \<Longrightarrow> (\<And>s. P' s \<Longrightarrow> P s) \<Longrightarrow> safe P' f Q"
  by (simp add: safe_def)

lemma safe_for_each: "(\<And>x. x \<in> set xs \<Longrightarrow> safe P (f x) P) \<Longrightarrow> safe P (for_each f xs) P"
  by (induction xs) (auto simp: safe_skip)

section \<open>Little-endian 16-bit values\<close>

text \<open>\<^verbatim>\<open>lo | (hi << 8)\<close> of two bytes, and \<^verbatim>\<open>v & 0xFF\<close>, \<^verbatim>\<open>v >> 8\<close> of an integer.\<close>

definition le16 :: "byte \<Rightarrow> byte \<Rightarrow> nat" where
  "le16 lo hi = unat lo OR push_bit 8 (unat hi)"

definition lo8 :: "nat \<Rightarrow> nat" where
  "lo8 v = v AND 0xFF"

definition hi8 :: "nat \<Rightarrow> nat" where
  "hi8 v = drop_bit 8 v"

lemma or_push_bit_add: "(a::nat) < 2 ^ n \<Longrightarrow> a OR push_bit n b = a + 2 ^ n * b"
proof -
  assume a: "a < 2 ^ n"
  then have "a AND push_bit n b = 0"
    by (metis (no_types, opaque_lifting) bit_and_iff bit_push_bit_iff bit_take_bit_iff
        bit_eqI bit_0_eq bot_apply bot_bool_def not_less take_bit_nat_eq_self)
  then have "a OR push_bit n b = a + push_bit n b"
    by (simp add: disjunctive_add_eq_or)
  then show ?thesis by (simp add: push_bit_eq_mult mult.commute)
qed

lemma le16_eq: "le16 lo hi = unat lo + 256 * unat hi"
  using or_push_bit_add [of "unat lo" 8 "unat hi"] by (simp add: le16_def)

lemma le16_less: "le16 lo hi < 65536"
  using unat_byte_le [of lo] unat_byte_le [of hi] by (simp add: le16_eq)

lemma lo8_eq: "lo8 v = v mod 256"
  using take_bit_eq_mask [of 8 v] by (simp add: lo8_def mask_eq_exp_minus_1 take_bit_eq_mod)

lemma hi8_eq: "hi8 v = v div 256"
  by (simp add: hi8_def drop_bit_eq_div)

lemma le16_lo8_hi8:
  "v < 65536 \<Longrightarrow> le16 (word_of_nat (lo8 v)) (word_of_nat (hi8 v)) = v"
  by (simp add: le16_eq lo8_eq hi8_eq unat_of_nat)

section \<open>Insertion-ordered dictionaries\<close>

text \<open>
  A Python dict keeps the order in which its keys were first inserted: storing under a
  key that is present keeps its position, storing under a new key appends it, and
  \<^verbatim>\<open>del\<close> removes the entry.
\<close>

type_synonym ('k, 'v) dict = "('k \<times> 'v) list"

definition dict_get :: "('k, 'v) dict \<Rightarrow> 'k \<Rightarrow> 'v option" where
  "dict_get d k = map_of d k"

fun dict_set :: "('k, 'v) dict \<Rightarrow> 'k \<Rightarrow> 'v \<Rightarrow> ('k, 'v) dict" where
  "dict_set [] k v = [(k, v)]"
| "dict_set ((k', v') # d) k v =
     (if k' = k then (k, v) # d else (k', v') # dict_set d k v)"

definition dict_del :: "('k, 'v) dict \<Rightarrow> 'k \<Rightarrow> ('k, 'v) dict" where
  "dict_del d k = filter (\<lambda>e. fst e \<noteq> k) d"

definition dict_keys :: "('k, 'v) dict \<Rightarrow> 'k list" where
  "dict_keys d = map fst d"

definition dict_values :: "('k, 'v) dict \<Rightarrow> 'v list" where
  "dict_values d = map snd d"

text \<open>
  What the clients of a dictionary rely on: lookup after a store and after a removal, and
  that keys stay distinct; \<open>ordered_dict\<close> adds the position laws.
\<close>

locale dict =
  fixes get :: "'d \<Rightarrow> 'k \<Rightarrow> 'v option"
    and put :: "'d \<Rightarrow> 'k \<Rightarrow> 'v \<Rightarrow> 'd"
    and del :: "'d \<Rightarrow> 'k \<Rightarrow> 'd"
    and keys :: "'d \<Rightarrow> 'k list"
  assumes get_put: "get (put d k v) j = (if j = k then Some v else get d j)"
    and get_del: "get (del d k) j = (if j = k then None else get d j)"
    and get_keys: "get d k \<noteq> None \<longleftrightarrow> k \<in> set (keys d)"
    and distinct_put: "distinct (keys d) \<Longrightarrow> distinct (keys (put d k v))"
    and distinct_del: "distinct (keys d) \<Longrightarrow> distinct (keys (del d k))"
begin

lemma keys_put: "set (keys (put d k v)) = insert k (set (keys d))"
proof (rule set_eqI)
  fix j
  show "j \<in> set (keys (put d k v)) \<longleftrightarrow> j \<in> insert k (set (keys d))"
    using get_keys [of "put d k v" j] get_keys [of d j] by (auto simp: get_put split: if_splits)
qed

lemma keys_del: "set (keys (del d k)) = set (keys d) - {k}"
proof (rule set_eqI)
  fix j
  show "j \<in> set (keys (del d k)) \<longleftrightarrow> j \<in> set (keys d) - {k}"
    using get_keys [of "del d k" j] get_keys [of d j] by (auto simp: get_del split: if_splits)
qed

lemma size_put:
  assumes "distinct (keys d)"
  shows "length (keys (put d k v)) =
    (if get d k = None then Suc (length (keys d)) else length (keys d))"
proof -
  have "length (keys (put d k v)) = card (insert k (set (keys d)))"
    using distinct_card [OF distinct_put [OF assms, of k v]] by (simp add: keys_put)
  then show ?thesis
    using distinct_card [OF assms] get_keys [of d k] by (simp add: card_insert_if)
qed

lemma get_rename:
  "get (put (del d k) k' v) j = (if j = k' then Some v else if j = k then None else get d j)"
  by (simp add: get_put get_del)

end

locale ordered_dict = dict +
  assumes keys_put_old: "get d k \<noteq> None \<Longrightarrow> keys (put d k v) = keys d"
    and keys_put_new: "get d k = None \<Longrightarrow> keys (put d k v) = keys d @ [k]"
    and keys_del_order: "keys (del d k) = filter (\<lambda>j. j \<noteq> k) (keys d)"
begin

lemma keys_rename:
  "get d k' = None \<Longrightarrow> keys (put (del d k) k' v) = filter (\<lambda>j. j \<noteq> k) (keys d) @ [k']"
  by (simp add: keys_put_new keys_del_order get_del)

lemma last_rename: "get d k' = None \<Longrightarrow> last (keys (put (del d k) k' v)) = k'"
  by (simp add: keys_rename)

end

lemma dict_get_set: "dict_get (dict_set d k v) j = (if j = k then Some v else dict_get d j)"
  by (induction d k v rule: dict_set.induct) (auto simp: dict_get_def)

lemma dict_get_del: "dict_get (dict_del d k) j = (if j = k then None else dict_get d j)"
  by (induction d) (auto simp: dict_get_def dict_del_def)

lemma dict_get_keys: "dict_get d k \<noteq> None \<longleftrightarrow> k \<in> set (dict_keys d)"
  by (simp add: dict_get_def dict_keys_def map_of_eq_None_iff)

lemma dict_keys_set:
  "dict_keys (dict_set d k v) =
    (if k \<in> set (dict_keys d) then dict_keys d else dict_keys d @ [k])"
  by (induction d k v rule: dict_set.induct) (auto simp: dict_keys_def)

lemma dict_keys_del: "dict_keys (dict_del d k) = filter (\<lambda>j. j \<noteq> k) (dict_keys d)"
  by (induction d) (auto simp: dict_keys_def dict_del_def)

interpretation pydict: ordered_dict dict_get dict_set dict_del dict_keys
proof unfold_locales
  fix d :: "('a, 'b) dict" and k v
  show "distinct (dict_keys d) \<Longrightarrow> distinct (dict_keys (dict_set d k v))"
    by (simp add: dict_keys_set)
  show "distinct (dict_keys d) \<Longrightarrow> distinct (dict_keys (dict_del d k))"
    by (simp add: dict_keys_del)
  show "dict_get d k = None \<Longrightarrow> dict_keys (dict_set d k v) = dict_keys d @ [k]"
    using dict_get_keys [of d k] by (simp add: dict_keys_set)
  show "dict_get d k \<noteq> None \<Longrightarrow> dict_keys (dict_set d k v) = dict_keys d"
    using dict_get_keys [of d k] by (simp add: dict_keys_set)
qed (simp_all only: dict_get_set dict_get_del dict_get_keys dict_keys_del)

declare dict_get_set [dict_simps] dict_get_del [dict_simps] dict_keys_del [dict_simps]

lemma dict_get_in: "distinct (dict_keys d) \<Longrightarrow> dict_get d k = Some v \<longleftrightarrow> (k, v) \<in> set d"
  by (simp add: dict_get_def dict_keys_def)

lemma in_dict_set:
  assumes "distinct (dict_keys d)"
  shows "e \<in> set (dict_set d k v) \<longleftrightarrow> e = (k, v) \<or> e \<in> set d \<and> fst e \<noteq> k"
proof -
  have "distinct (dict_keys (dict_set d k v))"
    by (rule pydict.distinct_put [OF assms])
  then show ?thesis
    using dict_get_in [of "dict_set d k v" "fst e" "snd e"] dict_get_in [OF assms, of "fst e" "snd e"]
    by (cases e) (auto simp: dict_simps split: if_splits)
qed

lemma in_dict_del: "e \<in> set (dict_del d k) \<longleftrightarrow> e \<in> set d \<and> fst e \<noteq> k"
  by (auto simp: dict_del_def)

text \<open>Storing under the newest key.\<close>

lemma dict_set_new: "dict_get d k = None \<Longrightarrow> dict_set d k v = d @ [(k, v)]"
  by (induction d k v rule: dict_set.induct) (auto simp: dict_get_def split: if_splits)

lemma dict_set_last: "dict_get d k = None \<Longrightarrow> dict_set (d @ [(k, v)]) k w = d @ [(k, w)]"
  by (induction d) (auto simp: dict_get_def split: if_splits)

lemma dict_del_last: "dict_get d k = None \<Longrightarrow> dict_del (d @ [(k, v)]) k = d"
  by (induction d) (auto simp: dict_get_def dict_del_def split: if_splits)

lemma dict_get_last: "dict_get d k = None \<Longrightarrow> dict_get (d @ [(k, v)]) k = Some v"
  by (induction d) (auto simp: dict_get_def split: if_splits)

lemma length_dict_keys [simp]: "length (dict_keys d) = length d"
  by (simp add: dict_keys_def)

end
