(* ===== verification/Rom.thy ===== *)
theory Rom
  imports Prelude
begin

text \<open>
  The ROM tools: \<^verbatim>\<open>tools/recon.py\<close> (a linear scan of a cartridge image),
  \<^verbatim>\<open>tools/patches.py\<close> (the patch map), \<^verbatim>\<open>tools/dump_rom.py\<close> (assembler source from
  an image and a patch map) and \<^verbatim>\<open>tools/check_patch.py\<close> (an image differs from the
  original at declared sites only). The assembler as1600 is not part of the repository:
  what it makes of an operand expression is a parameter.
\<close>

section \<open>Images\<close>

datatype rom_error = RomIndexError | RomKeyError | RomAssertion

text \<open>Big-endian byte pairs; an odd last byte is ignored.\<close>

fun words :: "byte list \<Rightarrow> nat list" where
  "words (hi # lo # d) = (push_bit 8 (unat hi) OR unat lo) # words d"
| "words _ = []"

definition unwords :: "nat list \<Rightarrow> byte list" where
  "unwords ws = concat (map (\<lambda>w. [word_of_nat (hi8 w), word_of_nat (lo8 w)]) ws)"

lemma word_pair: "push_bit 8 (unat (hi :: byte)) OR unat (lo :: byte) = 256 * unat hi + unat lo"
  using or_push_bit_add [of "unat lo" 8 "unat hi"] by (simp add: or.commute)

lemma be16: "push_bit 8 (v div 256) OR v mod 256 = (v :: nat)"
  using or_push_bit_add [of "v mod 256" 8 "v div 256"] by (simp add: or.commute)

lemma words_unwords: "list_all (\<lambda>w. w < 65536) ws \<Longrightarrow> words (unwords ws) = ws"
proof (induction ws)
  case (Cons w ws)
  then have "w div 256 < 256" by (simp add: less_mult_imp_div_less)
  with Cons show ?case by (simp add: unwords_def hi8_eq lo8_eq unat_of_nat be16)
qed (simp add: unwords_def)

lemma words_less: "w \<in> set (words d) \<Longrightarrow> w < 65536"
proof (induction d rule: words.induct)
  case (1 hi lo d)
  have "256 * unat hi + unat lo < 65536" using unat_byte_le [of hi] unat_byte_le [of lo] by linarith
  with 1 show ?case by (auto simp: word_pair)
qed simp_all

lemma length_words: "length (words d) = length d div 2"
  by (induction d rule: words.induct) simp_all

section \<open>recon.py: class Rom\<close>

record rom =
  rom_base :: nat
  rom_w :: "nat list"

definition rom_init :: "byte list \<Rightarrow> nat \<Rightarrow> rom" where
  "rom_init d b = \<lparr>rom_base = b, rom_w = words d\<rparr>"

definition rom_end :: "rom \<Rightarrow> nat" where
  "rom_end r = rom_base r + length (rom_w r)"

definition rom_has :: "rom \<Rightarrow> nat \<Rightarrow> bool" where
  "rom_has r addr \<longleftrightarrow> rom_base r \<le> addr \<and> addr < rom_end r"

text \<open>\<^verbatim>\<open>self.w[addr - self.base]\<close>: a negative index counts from the end.\<close>

definition rom_at :: "rom \<Rightarrow> nat \<Rightarrow> rom_error + nat" where
  "rom_at r addr =
     (let i = int addr - int (rom_base r); n = int (length (rom_w r))
      in if 0 \<le> i \<and> i < n then Inr (rom_w r ! nat i)
         else if - n \<le> i \<and> i < 0 then Inr (rom_w r ! nat (n + i))
         else Inl RomIndexError)"

definition bind_sum :: "'e + 'a \<Rightarrow> ('a \<Rightarrow> 'e + 'b) \<Rightarrow> 'e + 'b" where
  "bind_sum r f = (case r of Inl e \<Rightarrow> Inl e | Inr a \<Rightarrow> f a)"

lemma bind_sum_simps [simp]: "bind_sum (Inr a) f = f a" "bind_sum (Inl e) f = Inl e"
  by (simp_all add: bind_sum_def)

definition rom_ptr :: "rom \<Rightarrow> nat \<Rightarrow> rom_error + nat" where
  "rom_ptr r addr =
     bind_sum (rom_at r addr) (\<lambda>lo. bind_sum (rom_at r (addr + 1)) (\<lambda>hi. Inr (lo OR push_bit 8 hi)))"

text \<open>\<^verbatim>\<open>jsrs\<close>: one candidate site.\<close>

definition jsr_at :: "rom \<Rightarrow> nat \<Rightarrow> (nat \<times> nat \<times> nat) option" where
  "jsr_at r i =
     (let w1 = rom_w r ! (i + 1); w2 = rom_w r ! (i + 2)
      in if rom_w r ! i \<noteq> 0x0004 then None
         else if w1 AND 0xFC00 \<noteq> 0 \<or> w2 AND 0xFC00 \<noteq> 0 then None
         else Some (rom_base r + i, 4 + (drop_bit 8 w1 AND 3),
                    push_bit 10 (drop_bit 2 (w1 AND 0xFF)) OR (w2 AND 0x3FF)))"

definition jsrs :: "rom \<Rightarrow> (nat \<times> nat \<times> nat) list" where
  "jsrs r = List.map_filter (jsr_at r) [0..<length (rom_w r) - 2]"

datatype mnemonic = MVO | MVI | ADD | SUB | CMP | AND_op | XOR_op

text \<open>The dictionary \<^verbatim>\<open>OPS\<close>; the flag says whether the operand is immediate.\<close>

definition OPS :: "(nat, mnemonic) dict" where
  "OPS = [(1, MVO), (2, MVI), (3, ADD), (4, SUB), (5, CMP), (6, AND_op), (7, XOR_op)]"

type_synonym ref = "nat \<times> (mnemonic \<times> bool) \<times> nat \<times> nat"

definition ref_at :: "rom \<Rightarrow> nat \<Rightarrow> rom_error + ref option" where
  "ref_at r i =
     (let v = rom_w r ! i
      in if \<not> (0x0240 \<le> v \<and> v \<le> 0x03FF) then Inr None
         else (case dict_get OPS (drop_bit 6 v AND 7) of
                 None \<Rightarrow> Inl RomKeyError
               | Some op \<Rightarrow>
                   (let mode = drop_bit 3 v AND 7; reg = v AND 7
                    in if mode = 0 then Inr (Some (rom_base r + i + 1, (op, False), reg, rom_w r ! (i + 1)))
                       else if mode = 7
                       then Inr (Some (rom_base r + i + 1, (op, True), reg, rom_w r ! (i + 1)))
                       else Inr None)))"

definition refs :: "rom \<Rightarrow> rom_error + ref list" where
  "refs r = bind_sum (map_val (ref_at r) [0..<length (rom_w r) - 1]) (\<lambda>xs. Inr (List.map_filter id xs))"

section \<open>recon.py: report\<close>

definition RNG_CALLS :: "nat list" where "RNG_CALLS = [0x167D, 0x169E]"
definition TIMER_CALLS :: "nat list" where "TIMER_CALLS = [0x181E, 0x1831, 0x1838, 0x1844]"

definition CELLS :: "nat list" where
  "CELLS = [0x011F, 0x0120, 0x0121, 0x0122, 0x0123, 0x0124, 0x035D, 0x035E, 0x035F]"

definition DISP :: "nat list" where "DISP = [0x0D, 0x0E, 0x0F, 0x10, 0x11, 0x12, 0x13]"

text \<open>A row of the timer table: its number, routine, interval, whether it is stopped, and
  the interval without the flag.\<close>

type_synonym timer_row = "nat \<times> nat \<times> nat \<times> bool \<times> nat"

text \<open>The walk over the timer table, four words a step; \<open>a\<close> moves towards the end of the
  image.\<close>

function timer_walk :: "rom \<Rightarrow> nat \<Rightarrow> nat \<Rightarrow> rom_error + timer_row list" where
  "timer_walk r a n =
     (if \<not> rom_has r (a + 3) then Inr []
      else bind_sum (rom_ptr r a) (\<lambda>addr.
           bind_sum (rom_ptr r (a + 2)) (\<lambda>interval.
             if addr = 0 then Inr []
             else bind_sum (timer_walk r (a + 4) (n + 1)) (\<lambda>rows.
               Inr ((n, addr, interval, interval AND 0x8000 \<noteq> 0, interval AND 0x7FFF) # rows)))))"
  by pat_completeness auto
termination
  by (relation "measure (\<lambda>(r, a, n). rom_end r - a)") (auto simp: rom_has_def)

declare timer_walk.simps [simp del]

text \<open>\<^verbatim>\<open>exec_calls\<close>: call targets below the image, with their sites in order.\<close>

definition add_call :: "rom \<Rightarrow> nat \<times> nat \<times> nat \<Rightarrow> (nat, nat list) dict \<Rightarrow> (nat, nat list) dict" where
  "add_call r j d =
     (case j of (site, reg, tgt) \<Rightarrow>
        if tgt < rom_base r
        then dict_set d tgt ((case dict_get d tgt of None \<Rightarrow> [] | Some ss \<Rightarrow> ss) @ [site])
        else d)"

definition exec_calls :: "rom \<Rightarrow> (nat, nat list) dict" where
  "exec_calls r = fold (add_call r) (jsrs r) []"

record report =
  rp_timer_table :: nat
  rp_start :: nat
  rp_gram :: nat
  rp_display :: "(nat \<times> nat) list"
  rp_timers :: "timer_row list option"
  rp_rng :: "(nat \<times> nat list) list"
  rp_timer_calls :: "(nat \<times> nat) list"
  rp_cells :: "(nat \<times> (nat \<times> (mnemonic \<times> bool) \<times> nat) list) list"
  rp_stic :: "ref list"
  rp_gram_writes :: nat
  rp_top :: "(nat \<times> nat list) list"

definition cell_refs :: "ref list \<Rightarrow> (nat \<times> (nat \<times> (mnemonic \<times> bool) \<times> nat) list) list" where
  "cell_refs rs =
     filter (\<lambda>e. snd e \<noteq> [])
       (map (\<lambda>cell. (cell, map (\<lambda>(s, op, reg, v). (s, op, reg))
          (filter (\<lambda>(s, op, reg, v). v = cell) rs))) CELLS)"

definition mvo_refs :: "nat \<Rightarrow> nat \<Rightarrow> ref list \<Rightarrow> ref list" where
  "mvo_refs lo hi rs = filter (\<lambda>(s, op, reg, v). op = (MVO, False) \<and> lo \<le> v \<and> v \<le> hi) rs"

text \<open>The whole report; what it prints is the record's fields in order.\<close>

definition recon_report :: "byte list \<Rightarrow> nat \<Rightarrow> rom_error + report" where
  "recon_report d base =
     (let r = rom_init d base; calls = exec_calls r
      in bind_sum (rom_ptr r (base + 2)) (\<lambda>tbl.
         bind_sum (rom_ptr r (base + 4)) (\<lambda>start.
         bind_sum (rom_ptr r (base + 8)) (\<lambda>gram.
         bind_sum (map_val (\<lambda>off. bind_sum (rom_at r (base + off)) (\<lambda>v. Inr (base + off, v))) DISP) (\<lambda>disp.
         bind_sum (if rom_has r tbl then bind_sum (timer_walk r tbl 0) (\<lambda>rows. Inr (Some rows)) else Inr None) (\<lambda>timers.
         bind_sum (refs r) (\<lambda>rs.
           Inr \<lparr>rp_timer_table = tbl, rp_start = start, rp_gram = gram, rp_display = disp,
             rp_timers = timers,
             rp_rng = sort_key fst (filter (\<lambda>e. fst e \<in> set RNG_CALLS) calls),
             rp_timer_calls = concat (map (\<lambda>t. map (\<lambda>s. (s, t))
                (case dict_get calls t of None \<Rightarrow> [] | Some ss \<Rightarrow> ss)) TIMER_CALLS),
             rp_cells = cell_refs rs,
             rp_stic = mvo_refs 0 0x003F rs,
             rp_gram_writes = length (mvo_refs 0x3800 0x39FF rs),
             rp_top = take 8 (sort_key (\<lambda>e. - int (length (snd e))) calls)\<rparr>)))))))"

section \<open>patches.py\<close>

text \<open>The map from word addresses to assembler expressions, as it is written.\<close>

definition patches :: "(nat, string) dict" where
  "patches =
    [(0x5002, ''NEW_TIMER_TBL AND $FF''),
     (0x5003, ''NEW_TIMER_TBL SHR 8''),
     (0x5004, ''NET_START AND $FF''),
     (0x5005, ''NET_START SHR 8''),
     (0x57C0, ''((SB_START_SHIM SHR 10) SHL 2) OR $0100''),
     (0x57C1, ''SB_START_SHIM AND $3FF''),
     (0x5A80, ''$0129''),
     (0x5A92, ''$0129''),
     (0x5A95, ''$012A''),
     (0x5836, ''SHADOW_CTRL''),
     (0x58D6, ''SHADOW_CTRL''),
     (0x583E, ''SHADOW_KP''),
     (0x58D0, ''SHADOW_KP''),
     (0x5921, ''SHADOW_KP'')]"

section \<open>dump_rom.py\<close>

text \<open>
  A line of the output: the ORG directive, a DECLE of up to eight words with the address in
  its comment, or a DECLE of a patch expression with its address and the original word.
\<close>

datatype dump_line = Org nat | Row "nat list" nat | Patch string nat nat

fun dump_from :: "(nat, string) dict \<Rightarrow> nat \<Rightarrow> nat list \<Rightarrow> nat list \<Rightarrow> dump_line list" where
  "dump_from ps addr row [] = (if row \<noteq> [] then [Row row (addr - length row)] else [])"
| "dump_from ps addr row (w # ws) =
     (case dict_get ps addr of
        Some e \<Rightarrow>
          (if row \<noteq> [] then [Row row (addr - length row)] else []) @
          Patch e addr w # dump_from ps (addr + 1) [] ws
      | None \<Rightarrow>
          if length (row @ [w]) = 8
          then Row (row @ [w]) (addr - 7) # dump_from ps (addr + 1) [] ws
          else dump_from ps (addr + 1) (row @ [w]) ws)"

definition dump_rom :: "byte list \<Rightarrow> nat \<Rightarrow> (nat, string) dict \<Rightarrow> rom_error + dump_line list" where
  "dump_rom data base ps =
     (if length data mod 2 \<noteq> 0 then Inl RomAssertion
      else if \<not> list_all (\<lambda>a. base \<le> a \<and> a < base + length (words data)) (dict_keys ps)
      then Inl RomAssertion
      else Inr (Org base # dump_from ps base [] (words data)))"

section \<open>check_patch.py\<close>

definition BASE :: nat where "BASE = 0x5000"

text \<open>\<^verbatim>\<open>words(path, count)\<close>: a file that is too short raises.\<close>

definition words_count :: "byte list \<Rightarrow> nat option \<Rightarrow> rom_error + nat list" where
  "words_count data count =
     (case count of
        None \<Rightarrow> Inr (words data)
      | Some n \<Rightarrow> if length data < 2 * n then Inl RomIndexError else Inr (take n (words data)))"

record patch_report =
  cp_bad :: "(nat \<times> nat \<times> nat) list"
  cp_unpatched :: "nat list"
  cp_declared :: nat
  cp_changed :: int

definition compare_words :: "(nat, string) dict \<Rightarrow> nat list \<Rightarrow> nat list \<Rightarrow> patch_report" where
  "compare_words ps orig hooked =
     (let sites = map (\<lambda>(i, a, b). (BASE + i, a, b)) (enumerate 0 (zip orig hooked));
          bad = filter (\<lambda>(addr, a, b). dict_get ps addr = None \<and> a \<noteq> b) sites;
          unpatched = map fst (filter (\<lambda>(addr, a, b). dict_get ps addr \<noteq> None \<and> a = b) sites)
      in \<lparr>cp_bad = bad, cp_unpatched = unpatched, cp_declared = length ps,
          cp_changed = int (length ps) - int (length unpatched)\<rparr>)"

text \<open>\<^verbatim>\<open>main\<close>; the exit status is 1 when there are undeclared differences.\<close>

definition check_patch :: "byte list \<Rightarrow> byte list \<Rightarrow> (nat, string) dict \<Rightarrow> rom_error + patch_report" where
  "check_patch orig_data hook_data ps =
     bind_sum (words_count orig_data None) (\<lambda>orig.
     bind_sum (words_count hook_data (Some (length orig))) (\<lambda>hooked.
       Inr (compare_words ps orig hooked)))"

definition exit_ok :: "patch_report \<Rightarrow> bool" where
  "exit_ok p \<longleftrightarrow> cp_bad p = []"

end
