(* ===== verification/RomProps.thy ===== *)
theory RomProps
  imports Rom
begin

text \<open>
  Properties of the ROM tools and of the patch map: what the dump says is what the image
  holds, the build check accepts exactly the declared differences, and the patched words
  mean to the scanner what the patch map says they mean.
\<close>

section \<open>The dump\<close>

text \<open>The words a dump assembles to; \<open>eval\<close> is the assembler's value of an expression.\<close>

fun line_words :: "(string \<Rightarrow> nat) \<Rightarrow> dump_line \<Rightarrow> nat list" where
  "line_words eval (Org a) = []"
| "line_words eval (Row ws a) = ws"
| "line_words eval (Patch e a w) = [eval e]"

definition assembled :: "(string \<Rightarrow> nat) \<Rightarrow> dump_line list \<Rightarrow> nat list" where
  "assembled eval ls = concat (map (line_words eval) ls)"

text \<open>The addresses in the comments are where the assembler puts the words.\<close>

fun labelled :: "nat \<Rightarrow> dump_line list \<Rightarrow> bool" where
  "labelled a [] \<longleftrightarrow> True"
| "labelled a (Org b # ls) \<longleftrightarrow> labelled b ls"
| "labelled a (Row ws b # ls) \<longleftrightarrow> b = a \<and> ws \<noteq> [] \<and> length ws \<le> 8 \<and> labelled (a + length ws) ls"
| "labelled a (Patch e b w # ls) \<longleftrightarrow> b = a \<and> labelled (a + 1) ls"

text \<open>The patched image: the word at each address, or the value of its expression.\<close>

definition patched :: "(string \<Rightarrow> nat) \<Rightarrow> (nat, string) dict \<Rightarrow> nat \<Rightarrow> nat list \<Rightarrow> nat list" where
  "patched eval ps base ws =
     map (\<lambda>(i, w). case dict_get ps (base + i) of None \<Rightarrow> w | Some e \<Rightarrow> eval e) (enumerate 0 ws)"

lemma length_patched [simp]: "length (patched eval ps base ws) = length ws"
  by (simp add: patched_def)

lemma patched_nth:
  "i < length ws \<Longrightarrow> patched eval ps base ws ! i =
     (case dict_get ps (base + i) of None \<Rightarrow> ws ! i | Some e \<Rightarrow> eval e)"
  by (simp add: patched_def nth_enumerate_eq)

lemma patched_Cons:
  "patched eval ps base (w # ws) =
     (case dict_get ps base of None \<Rightarrow> w | Some e \<Rightarrow> eval e) # patched eval ps (base + 1) ws"
proof (rule nth_equalityI)
  fix i assume "i < length (patched eval ps base (w # ws))"
  then show "patched eval ps base (w # ws) ! i =
      ((case dict_get ps base of None \<Rightarrow> w | Some e \<Rightarrow> eval e) # patched eval ps (base + 1) ws) ! i"
    by (cases i) (simp_all add: patched_nth split: option.split)
qed simp

lemma dump_from_words:
  "length row \<le> 7 \<Longrightarrow> length row \<le> addr \<Longrightarrow>
   assembled eval (dump_from ps addr row ws) = row @ patched eval ps addr ws \<and>
   labelled (addr - length row) (dump_from ps addr row ws)"
proof (induction ws arbitrary: addr row)
  case Nil
  then show ?case by (simp add: assembled_def patched_def)
next
  case (Cons w ws)
  show ?case
  proof (cases "dict_get ps addr")
    case (Some e)
    then show ?thesis
      using Cons.IH [of "[]" "addr + 1"] Cons.prems
      by (auto simp: assembled_def patched_Cons)
  next
    case None
    show ?thesis
    proof (cases "length row = 7")
      case True
      then show ?thesis
        using Cons.IH [of "[]" "addr + 1"] Cons.prems None
        by (auto simp: assembled_def patched_Cons)
    next
      case False
      then show ?thesis
        using Cons.IH [of "row @ [w]" "addr + 1"] Cons.prems None
        by (auto simp: assembled_def patched_Cons)
    qed
  qed
qed

text \<open>C21. The dump is faithful: it succeeds exactly for an image of whole words and patches
  inside it, any other is refused by an assertion, and then assembling its lines in order
  gives every original word in its place, or the value of the patch declared for it, at the
  addresses its comments name, from the base address on.\<close>

theorem dump_faithful:
  "(case dump_rom data base ps of
      Inl e \<Rightarrow> e = RomAssertion \<and>
        (odd (length data) \<or> (\<exists>a \<in> set (dict_keys ps). a < base \<or> base + length (words data) \<le> a))
    | Inr ls \<Rightarrow> even (length data) \<and>
        (\<forall>a \<in> set (dict_keys ps). base \<le> a \<and> a < base + length (words data)) \<and>
        hd ls = Org base \<and> assembled eval ls = patched eval ps base (words data) \<and>
        labelled base ls)"
proof (cases "dump_rom data base ps")
  case (Inl e)
  then show ?thesis
    by (auto simp: dump_rom_def list_all_iff odd_iff_mod_2_eq_one not_le split: if_splits)
next
  case (Inr ls)
  then have ls: "ls = Org base # dump_from ps base [] (words data)" "length data mod 2 = 0"
      "\<forall>a \<in> set (dict_keys ps). base \<le> a \<and> a < base + length (words data)"
    by (auto simp: dump_rom_def list_all_iff split: if_splits)
  then show ?thesis
    using dump_from_words [of "[]" base eval ps "words data"] Inr
    by (simp add: assembled_def even_iff_mod_2_eq_zero)
qed

theorem dump_faithful_witness:
  "\<exists>ls. dump_rom [1, 2, 3, 4, 5, 6] 16 [(17, ''X'')] = Inr ls \<and> hd ls = Org 16 \<and>
     assembled (\<lambda>_. 9) ls = [258, 9, 1286] \<and> labelled 16 ls"
proof -
  obtain ls where ls: "dump_rom [1, 2, 3, 4, 5, 6] 16 [(17, ''X'')] = Inr ls"
    by (simp add: dump_rom_def dict_keys_def)
  have p: "patched (\<lambda>_. 9) [(17, ''X'')] 16 (words [1, 2, 3, 4, 5, 6]) = [258, 9, 1286]"
    by (simp add: patched_def dict_get_def word_pair)
  from dump_faithful [of "[1, 2, 3, 4, 5, 6]" "[(17, ''X'')]" 16 "\<lambda>_. 9"] ls p show ?thesis
    by simp
qed

section \<open>The build check\<close>

lemma words_take: "take n (words d) = words (take (2 * n) d)"
proof (induction d arbitrary: n rule: words.induct)
  case (1 hi lo d)
  then show ?case by (cases n) simp_all
qed (simp_all, case_tac n, simp_all)

lemma compare_words_bad:
  assumes len: "length orig = length hooked"
  shows "cp_bad (compare_words ps orig hooked) = [] \<longleftrightarrow>
     (\<forall>i < length orig. dict_get ps (BASE + i) = None \<longrightarrow> orig ! i = hooked ! i)"
proof -
  have "set (enumerate 0 (zip orig hooked)) = {(i, orig ! i, hooked ! i) | i. i < length orig}"
    using len by (auto simp: in_set_enumerate_eq)
  then show ?thesis
    by (auto simp: compare_words_def Let_def filter_empty_conv)
qed

text \<open>C22. The build check passes exactly when the hooked image is long enough and equals the
  original at every address that is not a declared patch site.\<close>

theorem check_patch_accepts:
  "(\<exists>p. check_patch orig hooked ps = Inr p \<and> exit_ok p) \<longleftrightarrow>
     2 * length (words orig) \<le> length hooked \<and>
     (\<forall>i < length (words orig). dict_get ps (BASE + i) = None \<longrightarrow> words orig ! i = words hooked ! i)"
proof (cases "2 * length (words orig) \<le> length hooked")
  case True
  let ?n = "length (words orig)"
  have len: "length (take ?n (words hooked)) = ?n"
    using True by (simp add: length_words)
  have "check_patch orig hooked ps = Inr (compare_words ps (words orig) (take ?n (words hooked)))"
    using True by (simp add: check_patch_def words_count_def)
  then show ?thesis
    using True compare_words_bad [of "words orig" "take ?n (words hooked)" ps] len
    by (auto simp: exit_ok_def)
next
  case False
  then show ?thesis by (simp add: check_patch_def words_count_def)
qed

theorem check_patch_accepts_witness:
  "\<exists>p. check_patch [1, 2, 3, 4] [1, 2, 9, 9, 7] [(0x5001, ''X'')] = Inr p \<and> exit_ok p"
proof -
  have "i = 0 \<or> i = 1" if "i < length (words [1, 2, 3, 4])" for i using that by auto
  then have "\<forall>i < length (words [1, 2, 3, 4]). dict_get [(0x5001, ''X'')] (BASE + i) = None \<longrightarrow>
      words [1, 2, 3, 4] ! i = words [1, 2, 9, 9, 7] ! i"
    by (fastforce simp: BASE_def dict_get_def)
  then show ?thesis
    using check_patch_accepts [of "[1, 2, 3, 4]" "[1, 2, 9, 9, 7]" "[(0x5001, ''X'')]"] by simp
qed

text \<open>The two tools agree: the image assembled from a dump of the original with a patch
  map, followed by anything, passes the check against that map, as long as every expression
  is a 16-bit word.\<close>

theorem dump_then_check:
  assumes d: "dump_rom data BASE ps = Inr ls"
    and small: "\<forall>e \<in> set (dict_values ps). eval e < 65536"
  shows "\<exists>p. check_patch data (unwords (assembled eval ls) @ extra) ps = Inr p \<and> exit_ok p"
proof -
  let ?ws = "patched eval ps BASE (words data)"
  have ls: "assembled eval ls = ?ws"
    using d dump_from_words [of "[]" BASE eval ps "words data"]
    by (auto simp: dump_rom_def assembled_def split: if_splits)
  have ws: "list_all (\<lambda>w. w < 65536) ?ws"
  proof (unfold list_all_length, intro allI impI)
    fix i assume i: "i < length ?ws"
    then have w: "words data ! i < 65536" using words_less [of "words data ! i" data] by simp
    have "e \<in> set (dict_values ps)" if "dict_get ps a = Some e" for a e
      using imageI [OF map_of_SomeD, of ps a e snd] that by (simp add: dict_get_def dict_values_def)
    with w small i show "?ws ! i < 65536"
      by (auto simp: patched_nth split: option.split)
  qed
  have len: "length (unwords ?ws) = 2 * length (words data)"
  proof -
    have "length (unwords xs) = 2 * length xs" for xs by (induction xs) (simp_all add: unwords_def)
    then show ?thesis by simp
  qed
  have "take (length (words data)) (words (unwords ?ws @ extra)) = ?ws"
    using words_unwords [OF ws] len by (simp add: words_take)
  then have "words (unwords ?ws @ extra) ! i = ?ws ! i" if "i < length (words data)" for i
    using that by (metis nth_take)
  then have "\<forall>i < length (words data). dict_get ps (BASE + i) = None \<longrightarrow>
      words data ! i = words (unwords ?ws @ extra) ! i"
    by (simp add: patched_nth)
  then show ?thesis
    using len by (simp add: ls check_patch_def words_count_def exit_ok_def compare_words_bad length_words)
qed

theorem dump_then_check_witness:
  "\<exists>ls p. dump_rom [0, 4, 1, 0x18, 0, 0x44] BASE [(0x5001, ''X'')] = Inr ls \<and>
     check_patch [0, 4, 1, 0x18, 0, 0x44] (unwords (assembled (\<lambda>_. 7) ls) @ [9]) [(0x5001, ''X'')] = Inr p \<and>
     exit_ok p"
proof -
  obtain ls where ls: "dump_rom [0, 4, 1, 0x18, 0, 0x44] BASE [(0x5001, ''X'')] = Inr ls"
    by (simp add: dump_rom_def BASE_def dict_keys_def)
  from dump_then_check [OF ls, of "\<lambda>_. 7" "[9]"] ls show ?thesis by auto
qed

section \<open>The scanner\<close>

lemma rom_at_has: "rom_has r a \<Longrightarrow> rom_at r a = Inr (rom_w r ! (a - rom_base r))"
  by (auto simp: rom_has_def rom_end_def rom_at_def Let_def nat_diff_distrib)

lemma rom_ptr_has:
  "rom_has r a \<Longrightarrow> rom_has r (a + 1) \<Longrightarrow>
   rom_ptr r a = Inr (rom_w r ! (a - rom_base r) OR push_bit 8 (rom_w r ! (a + 1 - rom_base r)))"
  by (simp add: rom_ptr_def rom_at_has)

text \<open>
  \<open>rows\<close> are the consecutive four-word entries of the table at \<open>a\<close>, numbered from
  \<open>n\<close>, up to a null pointer or the end of the image.
\<close>

definition timer_rows_ok :: "rom \<Rightarrow> nat \<Rightarrow> nat \<Rightarrow> timer_row list \<Rightarrow> bool" where
  "timer_rows_ok r a n rows \<longleftrightarrow>
     (\<forall>j < length rows. rom_has r (a + 4 * j + 3) \<and>
        (\<exists>addr iv. rom_ptr r (a + 4 * j) = Inr addr \<and> rom_ptr r (a + 4 * j + 2) = Inr iv \<and> addr \<noteq> 0 \<and>
          rows ! j = (n + j, addr, iv, iv AND 0x8000 \<noteq> 0, iv AND 0x7FFF))) \<and>
     (rom_has r (a + 4 * length rows + 3) \<longrightarrow> rom_ptr r (a + 4 * length rows) = Inr 0)"

lemma timer_rows_ok_Cons:
  assumes "rom_has r (a + 3)" and "rom_ptr r a = Inr addr" and "rom_ptr r (a + 2) = Inr iv" and "addr \<noteq> 0"
    and rows: "timer_rows_ok r (a + 4) (n + 1) rows"
  shows "timer_rows_ok r a n ((n, addr, iv, iv AND 0x8000 \<noteq> 0, iv AND 0x7FFF) # rows)"
  unfolding timer_rows_ok_def
proof (intro conjI allI impI)
  let ?rows = "(n, addr, iv, iv AND 0x8000 \<noteq> 0, iv AND 0x7FFF) # rows"
  fix j assume j: "j < length ?rows"
  show "rom_has r (a + 4 * j + 3)"
    using rows assms(1) j by (cases j) (simp_all add: timer_rows_ok_def algebra_simps)
  show "\<exists>addr iv. rom_ptr r (a + 4 * j) = Inr addr \<and> rom_ptr r (a + 4 * j + 2) = Inr iv \<and> addr \<noteq> 0 \<and>
      ?rows ! j = (n + j, addr, iv, iv AND 0x8000 \<noteq> 0, iv AND 0x7FFF)"
  proof (cases j)
    case 0
    with assms show ?thesis by simp
  next
    case (Suc i)
    have eq: "a + 4 * j = a + 4 + 4 * i" "n + j = n + 1 + i" "?rows ! j = rows ! i" using Suc by simp_all
    have "i < length rows" using Suc j by simp
    with rows show ?thesis unfolding eq timer_rows_ok_def by blast
  qed
next
  let ?rows = "(n, addr, iv, iv AND 0x8000 \<noteq> 0, iv AND 0x7FFF) # rows"
  have len: "a + 4 * length ?rows = a + 4 + 4 * length rows" by simp
  assume "rom_has r (a + 4 * length ?rows + 3)"
  then show "rom_ptr r (a + 4 * length ?rows) = Inr 0"
    using rows unfolding len by (simp add: timer_rows_ok_def)
qed

lemma timer_walk_spec:
  "rom_base r \<le> a \<Longrightarrow> \<exists>rows. timer_walk r a n = Inr rows \<and> timer_rows_ok r a n rows"
proof (induction r a n rule: timer_walk.induct)
  case (1 r a n)
  show ?case
  proof (cases "rom_has r (a + 3)")
    case False
    then show ?thesis by (simp add: timer_walk.simps [of r a n] timer_rows_ok_def)
  next
    case True
    then have in_rom: "rom_has r a" "rom_has r (a + 1)" "rom_has r (a + 2)" "rom_has r (a + 2 + 1)"
      using "1.prems" by (simp_all add: rom_has_def)
    obtain addr where addr: "rom_ptr r a = Inr addr" using rom_ptr_has [OF in_rom(1,2)] by blast
    obtain iv where iv: "rom_ptr r (a + 2) = Inr iv" using rom_ptr_has [OF in_rom(3,4)] by blast
    show ?thesis
    proof (cases "addr = 0")
      case zero: True
      then show ?thesis
        using True addr iv by (simp add: timer_walk.simps [of r a n] timer_rows_ok_def)
    next
      case False
      have "rom_base r \<le> a + 4" using "1.prems" by simp
      then obtain rows where rows: "timer_walk r (a + 4) (n + 1) = Inr rows"
          "timer_rows_ok r (a + 4) (n + 1) rows"
        using "1.IH" True False by blast
      with timer_rows_ok_Cons [OF True addr iv False rows(2)] True False addr iv show ?thesis
        by (simp add: timer_walk.simps [of r a n])
    qed
  qed
qed

text \<open>C29. The walk over the timer table ends without an error for every table inside the
  image, however damaged, and its rows are the consecutive entries from the start of the
  table up to a null pointer or the end of the image.\<close>

theorem timer_walk_rows:
  assumes "rom_base r \<le> a"
  shows "\<exists>rows. timer_walk r a n = Inr rows \<and> timer_rows_ok r a n rows"
  by (rule timer_walk_spec [OF assms])

theorem timer_walk_rows_witness:
  "\<exists>rows. timer_walk \<lparr>rom_base = 0x5000, rom_w = [0x34, 0x12, 5, 0x80, 0, 0, 0, 0]\<rparr> 0x5000 0 = Inr rows \<and>
    timer_rows_ok \<lparr>rom_base = 0x5000, rom_w = [0x34, 0x12, 5, 0x80, 0, 0, 0, 0]\<rparr> 0x5000 0 rows"
  by (rule timer_walk_rows) simp

lemma exec_calls_fold:
  "dict_get (fold (add_call r) js d) t =
     (let ss = map fst (filter (\<lambda>j. snd (snd j) = t) js)
      in if t < rom_base r \<and> ss \<noteq> []
         then Some ((case dict_get d t of None \<Rightarrow> [] | Some old \<Rightarrow> old) @ ss) else dict_get d t)"
proof (induction js arbitrary: d)
  case (Cons j js)
  obtain s g k where j: "j = (s, g, k)" by (metis prod_cases3)
  show ?case
    using Cons.IH [of "add_call r j d"]
    by (auto simp: j add_call_def Let_def dict_get_set split: option.splits)
qed simp

text \<open>Nothing called is missed: the table of calls into the EXEC holds, for every target
  below the image, exactly the sites of the decoded JSRs to it, in address order.\<close>

theorem exec_calls_complete:
  "dict_get (exec_calls r) t =
     (let ss = map fst (filter (\<lambda>j. snd (snd j) = t) (jsrs r))
      in if t < rom_base r \<and> ss \<noteq> [] then Some ss else None)"
  using exec_calls_fold [of r "jsrs r" "[]" t]
  by (simp add: exec_calls_def dict_get_def [of "[]"])

lemma ref_at_total: "\<exists>x. ref_at r i = Inr x"
proof -
  let ?v = "rom_w r ! i"
  have "drop_bit 6 ?v AND 7 \<in> {1, 2, 3, 4, 5, 6, 7}" if "0x0240 \<le> ?v" "?v \<le> 0x03FF"
  proof -
    have "drop_bit 6 ?v \<in> {9, 10, 11, 12, 13, 14, 15}"
      using that by (auto simp: drop_bit_eq_div)
    then show ?thesis by (auto; simp)
  qed
  then have "dict_get OPS (drop_bit 6 ?v AND 7) \<noteq> None" if "0x0240 \<le> ?v" "?v \<le> 0x03FF"
    using that by (auto simp: OPS_def dict_get_def)
  then show ?thesis
    by (auto simp: ref_at_def Let_def split: option.split)
qed

lemma map_val_total: "(\<And>x. x \<in> set xs \<Longrightarrow> \<exists>y. f x = Inr y) \<Longrightarrow> \<exists>ys. map_val f xs = Inr ys"
proof (induction xs)
  case (Cons x xs)
  then obtain y ys where "f x = Inr y" "map_val f xs = Inr ys" by (metis list.set_intros)
  then show ?case by simp
qed simp

lemma map_val_Inl: "x \<in> set xs \<Longrightarrow> f x = Inl e \<Longrightarrow> \<exists>e'. map_val f xs = Inl e'"
  by (induction xs) (auto split: sum.split)

lemma refs_total: "\<exists>xs. refs r = Inr xs"
  using map_val_total [of "[0..<length (rom_w r) - 1]" "ref_at r"] ref_at_total
  by (auto simp: refs_def bind_sum_def split: sum.split)

text \<open>The report is total on cartridges: it fails exactly for images too short for a
  cartridge header (20 words); no opcode, pointer or table content makes it fail.\<close>

theorem recon_report_total:
  "(\<exists>rp. recon_report d base = Inr rp) \<longleftrightarrow> 20 \<le> length (words d)"
proof
  let ?r = "rom_init d base"
  have at: "rom_at ?r (base + k) = (if k < length (words d) then Inr (words d ! k) else Inl RomIndexError)" for k
    by (simp add: rom_at_def rom_init_def Let_def)
  show "20 \<le> length (words d)" if "\<exists>rp. recon_report d base = Inr rp"
  proof (rule ccontr)
    assume short: "\<not> 20 \<le> length (words d)"
    have "bind_sum (rom_at ?r (base + 0x13)) (\<lambda>v. Inr (base + 0x13, v)) = Inl RomIndexError"
      using short by (simp add: at)
    then obtain e where "map_val (\<lambda>off. bind_sum (rom_at ?r (base + off)) (\<lambda>v. Inr (base + off, v))) DISP = Inl e"
      using map_val_Inl [of "0x13" DISP] by (fastforce simp: DISP_def)
    then have "\<exists>e. recon_report d base = Inl e"
      unfolding recon_report_def Let_def by (auto simp: bind_sum_def split: sum.split)
    with that show False by auto
  qed
  show "\<exists>rp. recon_report d base = Inr rp" if long: "20 \<le> length (words d)"
  proof -
    have ptr: "\<exists>v. rom_ptr ?r (base + k) = Inr v" if "k \<le> 10" for k
      using at [of k] at [of "k + 1"] that long by (simp add: rom_ptr_def)
    obtain t s g where p: "rom_ptr ?r (base + 2) = Inr t" "rom_ptr ?r (base + 4) = Inr s"
        "rom_ptr ?r (base + 8) = Inr g"
      using ptr [of 2] ptr [of 4] ptr [of 8] by auto
    obtain ds where ds: "map_val (\<lambda>off. bind_sum (rom_at ?r (base + off)) (\<lambda>v. Inr (base + off, v))) DISP = Inr ds"
      using map_val_total [of DISP "\<lambda>off. bind_sum (rom_at ?r (base + off)) (\<lambda>v. Inr (base + off, v))"] long
      by (auto simp: DISP_def at)
    have "\<exists>tm. (if rom_has ?r t then bind_sum (timer_walk ?r t 0) (\<lambda>rows. Inr (Some rows)) else Inr None) =
        (Inr tm :: rom_error + timer_row list option)"
    proof (cases "rom_has ?r t")
      case True
      then have "rom_base ?r \<le> t" by (simp add: rom_has_def)
      then obtain rows where "timer_walk ?r t 0 = Inr rows" using timer_walk_spec by blast
      then show ?thesis by simp
    qed simp
    then obtain tm where tm: "(if rom_has ?r t then bind_sum (timer_walk ?r t 0) (\<lambda>rows. Inr (Some rows)) else Inr None) =
        (Inr tm :: rom_error + timer_row list option)" by blast
    obtain rs where rs: "refs ?r = Inr rs" using refs_total by blast
    show ?thesis
      unfolding recon_report_def Let_def by (simp only: p ds tm rs bind_sum_simps) blast
  qed
qed

section \<open>The patch map\<close>

lemma low_ten: "(x AND 0x3FF :: nat) AND 0xFC00 = 0" "(x AND 0x3FF :: nat) AND 0x3FF = x AND 0x3FF"
  by (simp_all add: and.assoc)

lemma and_0x3FF: "(x :: nat) AND 0x3FF = x mod 1024"
  using take_bit_eq_mask [of 10 x] by (simp add: mask_eq_exp_minus_1 take_bit_eq_mod)

lemma jsr_operand_words:
  assumes h: "(h :: nat) < 64"
  defines "w \<equiv> push_bit 2 h OR 0x100"
  shows "w AND 0xFC00 = 0" "drop_bit 8 w AND 3 = 1" "drop_bit 2 (w AND 0xFF) = h"
proof -
  have w: "w = 4 * h + 256"
    using or_push_bit_add [of "4 * h" 8 1] h by (simp add: w_def push_bit_eq_mult mult.commute)
  then have "w AND 0x3FF = w" using h by (simp add: and_0x3FF)
  then show "w AND 0xFC00 = 0" using low_ten(1) [of w] by simp
  have "w div 256 = 1" using h by (simp add: w)
  then show "drop_bit 8 w AND 3 = 1" by (simp add: drop_bit_eq_div)
  have "w AND 0xFF = 4 * h" using lo8_eq [of w] h by (simp add: lo8_def w)
  then show "drop_bit 2 (w AND 0xFF) = h" by (simp add: drop_bit_eq_div)
qed

lemma split_at_ten: "push_bit 10 (drop_bit 10 x) OR (x AND 0x3FF) = (x :: nat)"
proof -
  show ?thesis
    using or_push_bit_add [of "x mod 1024" 10 "x div 1024"]
    by (simp add: drop_bit_eq_div or.commute and_0x3FF)
qed

lemma split_at_eight: "(x AND 0xFF) OR push_bit 8 (drop_bit 8 x) = (x :: nat)"
  using or_push_bit_add [of "x mod 256" 8 "x div 256"] lo8_eq [of x]
  by (simp add: lo8_def drop_bit_eq_div)

text \<open>
  The operators of the assembler in the expressions of the map: \<open>AND\<close>, \<open>OR\<close>,
  \<open>SHL\<close> and \<open>SHR\<close> on the values of the symbols.
\<close>

definition assembler_ok :: "(string \<Rightarrow> nat) \<Rightarrow> bool" where
  "assembler_ok eval \<longleftrightarrow>
     eval ''NEW_TIMER_TBL AND $FF'' = eval ''NEW_TIMER_TBL'' AND 0xFF \<and>
     eval ''NEW_TIMER_TBL SHR 8'' = drop_bit 8 (eval ''NEW_TIMER_TBL'') \<and>
     eval ''NET_START AND $FF'' = eval ''NET_START'' AND 0xFF \<and>
     eval ''NET_START SHR 8'' = drop_bit 8 (eval ''NET_START'') \<and>
     eval ''((SB_START_SHIM SHR 10) SHL 2) OR $0100'' =
       push_bit 2 (drop_bit 10 (eval ''SB_START_SHIM'')) OR 0x100 \<and>
     eval ''SB_START_SHIM AND $3FF'' = eval ''SB_START_SHIM'' AND 0x3FF"

text \<open>The patch map means what its comments say: fourteen distinct sites inside the
  image; in the patched image the scanner reads the relocated timer table and the new start
  vector from the header, and decodes the patched call at \<^verbatim>\<open>$57BF\<close> as
  \<^verbatim>\<open>JSR R5\<close> to the shim.\<close>

theorem patch_map_means:
  assumes eval: "assembler_ok eval" and small: "eval ''SB_START_SHIM'' < 65536"
    and ws: "length ws = 0x1000" "ws ! 0x7BF = 4"
  defines "r \<equiv> \<lparr>rom_base = BASE, rom_w = patched eval patches BASE ws\<rparr>"
  shows "length patches = 14 \<and> distinct (dict_keys patches) \<and>
    list_all (\<lambda>a. 0x5000 \<le> a \<and> a \<le> 0x5FFF) (dict_keys patches) \<and>
    rom_ptr r (BASE + 2) = Inr (eval ''NEW_TIMER_TBL'') \<and>
    rom_ptr r (BASE + 4) = Inr (eval ''NET_START'') \<and>
    (0x57BF, 5, eval ''SB_START_SHIM'') \<in> set (jsrs r)"
proof -
  let ?x = "eval ''SB_START_SHIM''"
  have w: "rom_w r ! i = (case dict_get patches (BASE + i) of None \<Rightarrow> ws ! i | Some e \<Rightarrow> eval e)"
    if "i < 0x1000" for i
    using that ws(1) by (simp add: r_def patched_nth)
  have at: "rom_at r (BASE + i) = Inr (rom_w r ! i)" if "i < 0x1000" for i
    using that ws(1) by (simp add: rom_at_def r_def Let_def)
  have p1: "rom_w r ! 2 = eval ''NEW_TIMER_TBL'' AND 0xFF" "rom_w r ! 3 = drop_bit 8 (eval ''NEW_TIMER_TBL'')"
      "rom_w r ! 4 = eval ''NET_START'' AND 0xFF" "rom_w r ! 5 = drop_bit 8 (eval ''NET_START'')"
    using eval by (simp_all add: w BASE_def patches_def dict_get_def assembler_ok_def)
  have p2: "rom_w r ! 0x7BF = 4" "rom_w r ! 0x7C0 = push_bit 2 (drop_bit 10 ?x) OR 0x100"
      "rom_w r ! 0x7C1 = ?x AND 0x3FF"
    using eval ws(2) by (simp_all add: w BASE_def patches_def dict_get_def assembler_ok_def)
  have "drop_bit 10 ?x < 64" using small by (simp add: drop_bit_eq_div less_mult_imp_div_less)
  note j = jsr_operand_words [OF this]
  have ix: "(0x7BF :: nat) + 1 = 0x7C0" "(0x7BF :: nat) + 2 = 0x7C1" by simp_all
  have "jsr_at r 0x7BF = Some (rom_base r + 0x7BF, 4 + 1, ?x)"
    unfolding jsr_at_def Let_def ix p2 j low_ten split_at_ten by simp
  moreover have "rom_base r + 0x7BF = 0x57BF" by (simp add: r_def BASE_def)
  moreover have "0x7BF \<in> set [0..<length (rom_w r) - 2]" using ws(1) by (simp add: r_def)
  ultimately have "(0x57BF, 5, ?x) \<in> set (jsrs r)"
    unfolding jsrs_def by (force simp: List.map_filter_def simp del: set_upt intro: image_eqI)
  moreover have "rom_ptr r (BASE + 2) = Inr (eval ''NEW_TIMER_TBL'')"
      "rom_ptr r (BASE + 4) = Inr (eval ''NET_START'')"
  proof -
    have "BASE + 2 + 1 = BASE + 3" "BASE + 4 + 1 = BASE + 5" by simp_all
    then show "rom_ptr r (BASE + 2) = Inr (eval ''NEW_TIMER_TBL'')"
        "rom_ptr r (BASE + 4) = Inr (eval ''NET_START'')"
      unfolding rom_ptr_def using at [of 2] at [of 3] at [of 4] at [of 5]
      by (simp_all only: p1 bind_sum_simps split_at_eight)
  qed
  moreover have "length patches = 14" "distinct (dict_keys patches)"
      "list_all (\<lambda>a. 0x5000 \<le> a \<and> a \<le> 0x5FFF) (dict_keys patches)"
    by (simp_all add: patches_def dict_keys_def)
  ultimately show ?thesis by blast
qed

text \<open>An assembler for the instance: the table is at \<^verbatim>\<open>$6000\<close>, the vectors behind it.\<close>

definition demo_eval :: "string \<Rightarrow> nat" where
  "demo_eval e =
     (if e = ''NEW_TIMER_TBL'' then 0x6000 else if e = ''NET_START'' then 0x6020
      else if e = ''SB_START_SHIM'' then 0x6123
      else if e = ''NEW_TIMER_TBL AND $FF'' then 0x00 else if e = ''NEW_TIMER_TBL SHR 8'' then 0x60
      else if e = ''NET_START AND $FF'' then 0x20 else if e = ''NET_START SHR 8'' then 0x60
      else if e = ''((SB_START_SHIM SHR 10) SHL 2) OR $0100'' then 0x160
      else if e = ''SB_START_SHIM AND $3FF'' then 0x123 else 0x8140)"

theorem patch_map_means_witness:
  "let ws = replicate 0x7BF 0 @ [4] @ replicate 0x840 0;
       r = \<lparr>rom_base = BASE, rom_w = patched demo_eval patches BASE ws\<rparr>
   in length patches = 14 \<and> distinct (dict_keys patches) \<and>
    list_all (\<lambda>a. 0x5000 \<le> a \<and> a \<le> 0x5FFF) (dict_keys patches) \<and>
    rom_ptr r (BASE + 2) = Inr (demo_eval ''NEW_TIMER_TBL'') \<and>
    rom_ptr r (BASE + 4) = Inr (demo_eval ''NET_START'') \<and>
    (0x57BF, 5, demo_eval ''SB_START_SHIM'') \<in> set (jsrs r)"
  unfolding Let_def
proof (rule patch_map_means)
  show "assembler_ok demo_eval" by (simp add: assembler_ok_def demo_eval_def)
  show "demo_eval ''SB_START_SHIM'' < 65536" by (simp add: demo_eval_def)
qed (simp_all add: nth_append)

end
