(* ===== verification/Wire.thy ===== *)
theory Wire
  imports Prelude
begin

text \<open>
  The wire format of \<^verbatim>\<open>server/intv_relay_server.py\<close>: frame types and protocol
  constants, length-prefixed frames, names on the wire (ASCII, NUL-padded to eight
  bytes), and the reassembly of a byte stream into frames as a pure function. The
  exceptions the server's Python code can raise are declared here because framing and
  encoding raise two of them.
\<close>

section \<open>Exceptions\<close>

datatype proto_error =
    ShortHello
  | BadVersion nat
  | BadName pystr
  | JoinBeforeHello
  | UnknownType byte

datatype exn =
    ProtocolError proto_error
  | AssertionError
  | ValueError
  | AttributeError
  | UnicodeEncodeError
  | OSError
  | RecursionError

text \<open>\<^verbatim>\<open>bytes([...])\<close> of integers: a value outside \<open>0..255\<close> raises.\<close>

definition bytes_of :: "int list \<Rightarrow> exn + byte list" where
  "bytes_of ns =
     (if list_all (\<lambda>n. 0 \<le> n \<and> n < 256) ns then Inr (map word_of_int ns) else Inl ValueError)"

section \<open>Protocol constants\<close>

definition T_HELLO :: byte where "T_HELLO = 0x01"
definition T_LIST :: byte where "T_LIST = 0x02"
definition T_LOBBY :: byte where "T_LOBBY = 0x03"
definition T_JOIN :: byte where "T_JOIN = 0x04"
definition T_START :: byte where "T_START = 0x05"
definition T_INPUT :: byte where "T_INPUT = 0x06"
definition T_CRC :: byte where "T_CRC = 0x07"
definition T_STATE :: byte where "T_STATE = 0x08"
definition T_RESYNC :: byte where "T_RESYNC = 0x09"
definition T_BYE :: byte where "T_BYE = 0x0A"
definition T_PEER_LEFT :: byte where "T_PEER_LEFT = 0x0B"
definition T_PING :: byte where "T_PING = 0x0C"
definition T_PONG :: byte where "T_PONG = 0x0D"
definition T_ROOM :: byte where "T_ROOM = 0x0E"
definition T_GO :: byte where "T_GO = 0x0F"

lemmas T_defs = T_HELLO_def T_LIST_def T_LOBBY_def T_JOIN_def T_START_def T_INPUT_def
  T_CRC_def T_STATE_def T_RESYNC_def T_BYE_def T_PEER_LEFT_def T_PING_def T_PONG_def
  T_ROOM_def T_GO_def

definition RELAY_TYPES :: "byte list" where
  "RELAY_TYPES = [T_INPUT, T_CRC, T_STATE, T_RESYNC]"

definition NAME_CHARS :: pystr where
  "NAME_CHARS = str_of ''ABCDEFGHIJKLMNOPQRSTUVWXYZ0123456789''"

definition PROTO_VER :: nat where "PROTO_VER = 2"
definition DEFAULT_DELAY :: int where "DEFAULT_DELAY = 3"
definition MAX_SEATS :: nat where "MAX_SEATS = 2"
definition ROSTER_SLOTS :: nat where "ROSTER_SLOTS = 4"
definition MAX_TX_BACKLOG :: nat where "MAX_TX_BACKLOG = 64 * 1024"
definition MAX_CLIENTS :: nat where "MAX_CLIENTS = 64"
definition MAX_CONNECTIONS_PER_IP :: nat where "MAX_CONNECTIONS_PER_IP = 8"
definition HELLO_TIMEOUT :: real where "HELLO_TIMEOUT = 60"
definition STATS_INTERVAL :: real where "STATS_INTERVAL = 60"

section \<open>Frames\<close>

text \<open>\<^verbatim>\<open>frame(ftype, payload)\<close>: one length byte, then type and payload; the assertion
  bounds the body.\<close>

definition frame :: "byte \<Rightarrow> byte list \<Rightarrow> exn + byte list" where
  "frame ftype payload =
     (let body = ftype # payload
      in if length body \<le> 255 then Inr (word_of_nat (length body) # body)
         else Inl AssertionError)"

text \<open>A frame that is short enough is the bytes \<open>enframe\<close>; most proofs work with it.\<close>

definition enframe :: "byte \<Rightarrow> byte list \<Rightarrow> byte list" where
  "enframe ftype payload = word_of_nat (Suc (length payload)) # ftype # payload"

lemma frame_enframe: "length payload \<le> 254 \<Longrightarrow> frame ftype payload = Inr (enframe ftype payload)"
  by (simp add: frame_def enframe_def)

lemma length_enframe [simp]: "length (enframe t p) = length p + 2"
  by (simp add: enframe_def)

lemma enframe_not_Nil [simp]: "enframe t p \<noteq> []"
  by (simp add: enframe_def)

text \<open>
  The reassembly of \<^verbatim>\<open>Server.service\<close> on its own: the complete frames at the head of a
  buffer, and how the scan ended: waiting for the rest of a frame, or on a length byte
  outside \<open>1..200\<close>.
\<close>

datatype scan_end = Waiting "byte list" | BadLen nat "byte list"

function deframe :: "byte list \<Rightarrow> (byte \<times> byte list) list \<times> scan_end" where
  "deframe rx =
     (case rx of
        [] \<Rightarrow> ([], Waiting [])
      | l # rest \<Rightarrow>
          (let need = unat l + 1
           in if need < 2 \<or> unat l > 200 then ([], BadLen (unat l) rx)
              else if length rx < need then ([], Waiting rx)
              else (let body = take (unat l) rest;
                        (fs, e) = deframe (drop (unat l) rest)
                    in ((hd body, tl body) # fs, e))))"
  by pat_completeness auto
termination
  by (relation "measure length") auto

declare deframe.simps [simp del]

lemma deframe_Nil [simp]: "deframe [] = ([], Waiting [])"
  by (simp add: deframe.simps)

lemma deframe_enframe:
  assumes "length p \<le> 199"
  shows "deframe (enframe t p @ rest) = ((t, p) # fst (deframe rest), snd (deframe rest))"
proof -
  have l: "unat (word_of_nat (Suc (length p)) :: byte) = Suc (length p)"
    by (rule byte_of_nat) (use assms in simp)
  show ?thesis
    using assms
    by (subst deframe.simps) (simp add: enframe_def l Let_def case_prod_unfold del: of_nat_Suc)
qed

lemma deframe_frames:
  assumes "\<forall>f \<in> set fs. length (snd f) \<le> 199"
  shows "deframe (concat (map (\<lambda>(t, p). enframe t p) fs) @ rest) =
    (fs @ fst (deframe rest), snd (deframe rest))"
  using assms by (induction fs) (auto simp: deframe_enframe)

text \<open>A scan that waits keeps a proper prefix of one frame, never more than 200 bytes.\<close>

lemma deframe_leftover:
  "snd (deframe rx) = Waiting rest \<Longrightarrow> length rest \<le> 200"
proof (induction rx rule: deframe.induct)
  case (1 rx)
  show ?case
  proof (cases rx)
    case Nil
    with "1.prems" show ?thesis by simp
  next
    case (Cons l bs)
    consider (bad) "unat l + 1 < 2 \<or> unat l > 200"
      | (wait) "\<not> (unat l + 1 < 2 \<or> unat l > 200)" "length rx < unat l + 1"
      | (go) "\<not> (unat l + 1 < 2 \<or> unat l > 200)" "\<not> length rx < unat l + 1"
      by blast
    then show ?thesis
    proof cases
      case bad
      with "1.prems" Cons show ?thesis by (subst (asm) deframe.simps) (auto simp: Let_def)
    next
      case wait
      with "1.prems" Cons show ?thesis by (subst (asm) deframe.simps) (auto simp: Let_def)
    next
      case go
      with "1.prems" Cons have "snd (deframe (drop (unat l) bs)) = Waiting rest"
        by (subst (asm) deframe.simps) (auto simp: Let_def case_prod_unfold)
      with "1.IH" Cons go show ?thesis by (auto simp: Let_def)
    qed
  qed
qed

text \<open>Scanning in two pieces: what was left of the first is prefixed to the second.\<close>

lemma deframe_append:
  "deframe (a @ b) =
     (case deframe a of
        (fs, Waiting rest) \<Rightarrow> (fs @ fst (deframe (rest @ b)), snd (deframe (rest @ b)))
      | (fs, BadLen n rest) \<Rightarrow> (fs, BadLen n (rest @ b)))"
proof (induction a rule: deframe.induct)
  case (1 a)
  show ?case
  proof (cases a)
    case (Cons l bs)
    consider (bad) "unat l + 1 < 2 \<or> unat l > 200"
      | (wait) "\<not> (unat l + 1 < 2 \<or> unat l > 200)" "length a < unat l + 1"
      | (go) "\<not> (unat l + 1 < 2 \<or> unat l > 200)" "\<not> length a < unat l + 1"
      by blast
    then show ?thesis
    proof cases
      case bad
      with Cons show ?thesis
        by (simp add: deframe.simps [of "l # bs"] deframe.simps [of "l # bs @ b"] Let_def)
    next
      case wait
      with Cons have "deframe a = ([], Waiting a)"
        by (simp add: deframe.simps [of "l # bs"] Let_def)
      then show ?thesis by simp
    next
      case go
      then have len: "unat l \<le> length bs" and "bs \<noteq> []" using Cons by auto
      then have hd: "hd (bs @ b) = hd bs" by simp
      from go Cons have a: "deframe a = ((hd (take (unat l) bs), tl (take (unat l) bs)) #
          fst (deframe (drop (unat l) bs)), snd (deframe (drop (unat l) bs)))"
        by (simp add: deframe.simps [of "l # bs"] Let_def case_prod_unfold)
      from go Cons len have ab: "deframe (a @ b) = ((hd (take (unat l) bs), tl (take (unat l) bs)) #
          fst (deframe (drop (unat l) bs @ b)), snd (deframe (drop (unat l) bs @ b)))"
        by (simp add: deframe.simps [of "l # bs @ b"] Let_def case_prod_unfold hd)
      have IH: "deframe (drop (unat l) bs @ b) =
          (case deframe (drop (unat l) bs) of
             (fs, Waiting rest) \<Rightarrow> (fs @ fst (deframe (rest @ b)), snd (deframe (rest @ b)))
           | (fs, BadLen n rest) \<Rightarrow> (fs, BadLen n (rest @ b)))"
        using "1.IH" Cons go by (simp add: Let_def)
      show ?thesis
        unfolding ab a IH
        by (cases "deframe (drop (unat l) bs)") (auto split: scan_end.splits)
    qed
  qed simp
qed

section \<open>Names on the wire\<close>

text \<open>\<^verbatim>\<open>name.encode("ascii")\<close>.\<close>

definition encode_ascii :: "pystr \<Rightarrow> exn + byte list" where
  "encode_ascii s =
     (if list_all (\<lambda>c. c < 128) s then Inr (map word_of_nat s) else Inl UnicodeEncodeError)"

text \<open>\<^verbatim>\<open>payload.decode("ascii", "replace")\<close>: bytes above 127 become U+FFFD.\<close>

definition decode_ascii :: "byte list \<Rightarrow> pystr" where
  "decode_ascii bs = map (\<lambda>b. if unat b < 128 then unat b else 0xFFFD) bs"

text \<open>\<^verbatim>\<open>s.rstrip("\0 ")\<close>.\<close>

definition rstrip :: "pystr \<Rightarrow> pystr" where
  "rstrip s = rev (dropWhile (\<lambda>c. c = 0 \<or> c = 32) (rev s))"

definition ljust8 :: "byte list \<Rightarrow> byte list" where
  "ljust8 bs = take 8 bs @ replicate (8 - length (take 8 bs)) 0"

text \<open>\<^verbatim>\<open>pad_name(name)\<close>; the name attribute of a client may be \<^verbatim>\<open>None\<close>.\<close>

definition pad_name :: "pystr option \<Rightarrow> exn + byte list" where
  "pad_name name =
     (case name of
        None \<Rightarrow> Inl AttributeError
      | Some n \<Rightarrow> (case encode_ascii n of Inl e \<Rightarrow> Inl e | Inr bs \<Rightarrow> Inr (ljust8 bs)))"

definition valid_name :: "pystr \<Rightarrow> bool" where
  "valid_name n \<longleftrightarrow> 2 \<le> length n \<and> length n \<le> 8 \<and> list_all (\<lambda>c. c \<in> set NAME_CHARS) n"

definition name_of_payload :: "byte list \<Rightarrow> pystr" where
  "name_of_payload bs = rstrip (decode_ascii bs)"

lemma length_ljust8 [simp]: "length (ljust8 bs) = 8"
  by (simp add: ljust8_def)

lemma pad_name_length: "pad_name n = Inr bs \<Longrightarrow> length bs = 8"
  by (auto simp: pad_name_def split: option.splits sum.splits)

lemma NAME_CHARS_range: "c \<in> set NAME_CHARS \<Longrightarrow> 48 \<le> c \<and> c < 91"
  by (auto simp: NAME_CHARS_def str_of_def)

lemma valid_name_chars: "valid_name n \<Longrightarrow> c \<in> set n \<Longrightarrow> 48 \<le> c \<and> c < 91"
  using NAME_CHARS_range by (auto simp: valid_name_def list_all_iff)

text \<open>The eight bytes a valid name is padded to.\<close>

definition name8 :: "pystr \<Rightarrow> byte list" where
  "name8 n = map word_of_nat n @ replicate (8 - length n) 0"

lemma length_name8: "length n \<le> 8 \<Longrightarrow> length (name8 n) = 8"
  by (simp add: name8_def)

lemma pad_name_valid:
  assumes "valid_name n"
  shows "pad_name (Some n) = Inr (name8 n)"
proof -
  have "list_all (\<lambda>c. c < 128) n"
    using valid_name_chars [OF assms] by (fastforce simp: list_all_iff)
  moreover have "length n \<le> 8" using assms by (simp add: valid_name_def)
  ultimately show ?thesis
    by (simp add: pad_name_def encode_ascii_def ljust8_def name8_def)
qed

lemma dropWhile_replicate_append:
  "P x \<Longrightarrow> dropWhile P (replicate k x @ ys) = dropWhile P ys"
  by (induction k) auto

lemma name_of_payload_name8:
  assumes "valid_name n"
  shows "name_of_payload (name8 n) = n"
proof -
  have small: "\<And>c. c \<in> set n \<Longrightarrow> unat (word_of_nat c :: byte) = c \<and> c < 128 \<and> c \<noteq> 0 \<and> c \<noteq> 32"
    using valid_name_chars [OF assms] by fastforce
  then have dec: "decode_ascii (name8 n) = n @ replicate (8 - length n) 0"
    by (auto simp: decode_ascii_def name8_def intro!: map_idI)
  have "n \<noteq> []" using assms by (auto simp: valid_name_def)
  then obtain m c where n: "n = m @ [c]" by (metis rev_exhaust)
  then have "c \<noteq> 0 \<and> c \<noteq> 32" using small by simp
  then have "rstrip (n @ replicate (8 - length n) 0) = n"
    by (simp add: rstrip_def dropWhile_replicate_append n)
  then show ?thesis by (simp add: name_of_payload_def dec)
qed

text \<open>A stripped, decoded name that passes the name check is pure ASCII.\<close>

lemma valid_name_encode: "valid_name n \<Longrightarrow> encode_ascii n = Inr (map word_of_nat n)"
  using valid_name_chars by (fastforce simp: encode_ascii_def list_all_iff)

end
