(* ===== verification/Lobby.thy ===== *)
theory Lobby
  imports Wire
begin

text \<open>
  \<^verbatim>\<open>class LobbyPublisher\<close>: the registration of the relay with the FujiNet Lobby. The
  object is shared by the server thread (\<open>update\<close>, \<open>shutdown\<close>) and one worker thread
  (\<open>_run\<close>); a state is the object, the program counters of the worker and of
  \<open>shutdown\<close>, and a clock. \<open>pub_step\<close> gives the steps between two points where the
  condition variable's lock is released; every interleaving of the two threads is a
  list of actions.
\<close>

section \<open>State\<close>

record payload =
  pl_game :: pystr
  pl_appkey :: int
  pl_server :: pystr
  pl_region :: pystr
  pl_serverurl :: pystr
  pl_status :: pystr
  pl_maxplayers :: int
  pl_curplayers :: int
  pl_clients :: "(pystr \<times> pystr) list"

text \<open>
  Where the worker is: at the head of \<^verbatim>\<open>while True\<close>, in \<^verbatim>\<open>_cond.wait\<close> until a
  deadline, in \<^verbatim>\<open>_post\<close> with its snapshot, in the debounce wait, returned, or ended by
  an exception that \<^verbatim>\<open>_post\<close> does not catch.
\<close>

datatype worker =
    W_Loop
  | W_Wait real
  | W_Post payload
  | W_Debounce real
  | W_Returned
  | W_Raised

text \<open>Where \<^verbatim>\<open>shutdown\<close> is: not called, holding its snapshot before \<^verbatim>\<open>_stop_evt.set()\<close>,
  in \<^verbatim>\<open>join\<close> until a deadline, in its own \<^verbatim>\<open>_post\<close>, done, or left by an exception of
  that \<^verbatim>\<open>_post\<close> which is not an \<^verbatim>\<open>OSError\<close>.\<close>

datatype closer =
    C_Running
  | C_Stopping payload
  | C_Joining payload real
  | C_Posting payload
  | C_Done
  | C_Raised

datatype post_result = PostOk | PostOSError | PostOther

record publisher =
  pb_base_url :: pystr
  pb_payload :: payload
  pb_failures :: nat
  pb_dirty :: bool
  pb_stopping :: bool
  pb_stop_evt :: bool
  pb_notified :: bool
  pb_worker :: worker
  pb_closer :: closer
  pb_clock :: real
  pb_worker_posts :: "(real \<times> payload) list"
  pb_final_posts :: "(real \<times> payload) list"

definition KEEPALIVE_SECS :: real where "KEEPALIVE_SECS = 300"

definition rstrip_slash :: "pystr \<Rightarrow> pystr" where
  "rstrip_slash s = rev (dropWhile (\<lambda>c. c = 47) (rev s))"

definition online :: pystr where "online = str_of ''online''"
definition offline :: pystr where "offline = str_of ''offline''"

definition publisher_init ::
    "pystr \<Rightarrow> pystr \<Rightarrow> pystr \<Rightarrow> int \<Rightarrow> pystr \<Rightarrow> pystr \<Rightarrow> pystr \<Rightarrow> publisher" where
  "publisher_init base_url serverurl client_url appkey region game_name server_name =
     \<lparr> pb_base_url = rstrip_slash base_url,
       pb_payload = \<lparr> pl_game = game_name, pl_appkey = appkey, pl_server = server_name,
         pl_region = region, pl_serverurl = serverurl, pl_status = online,
         pl_maxplayers = 2, pl_curplayers = 0,
         pl_clients = [(str_of ''intv'', client_url)] \<rparr>,
       pb_failures = 0, pb_dirty = False, pb_stopping = False, pb_stop_evt = False,
       pb_notified = False, pb_worker = W_Loop, pb_closer = C_Running, pb_clock = 0,
       pb_worker_posts = [], pb_final_posts = [] \<rparr>"

section \<open>Operations\<close>

text \<open>\<^verbatim>\<open>_cond.notify()\<close> wakes the worker only while it waits on the condition.\<close>

definition cond_notify :: "publisher \<Rightarrow> publisher" where
  "cond_notify p =
     (case pb_worker p of W_Wait d \<Rightarrow> p\<lparr>pb_notified := True\<rparr> | _ \<Rightarrow> p)"

definition pub_update :: "int \<Rightarrow> publisher \<Rightarrow> publisher" where
  "pub_update curplayers p =
     (if pb_stopping p then p
      else cond_notify (p\<lparr>pb_payload := (pb_payload p)\<lparr>pl_curplayers := curplayers\<rparr>,
                          pb_dirty := True\<rparr>))"

text \<open>The locked block of \<^verbatim>\<open>shutdown\<close>; its snapshot is kept in the program counter.\<close>

definition shutdown_begin :: "publisher \<Rightarrow> publisher" where
  "shutdown_begin p =
     (let p1 = p\<lparr>pb_stopping := True,
                 pb_payload := (pb_payload p)\<lparr>pl_status := offline\<rparr>\<rparr>
      in cond_notify (p1\<lparr>pb_closer := C_Stopping (pb_payload p1)\<rparr>))"

text \<open>The end of the worker's locked block: the wait loop is over.\<close>

definition worker_leave_wait :: "publisher \<Rightarrow> publisher" where
  "worker_leave_wait p =
     (let p1 = p\<lparr>pb_dirty := False, pb_notified := False\<rparr>
      in if pb_stopping p1 then p1\<lparr>pb_worker := W_Returned\<rparr>
         else p1\<lparr>pb_worker := W_Post (pb_payload p1),
                 pb_worker_posts := (pb_clock p1, pb_payload p1) # pb_worker_posts p1\<rparr>)"

text \<open>\<^verbatim>\<open>_post\<close>: only an \<^verbatim>\<open>OSError\<close> is caught and counted.\<close>

definition post_failures :: "post_result \<Rightarrow> publisher \<Rightarrow> publisher" where
  "post_failures r p =
     (case r of PostOSError \<Rightarrow> p\<lparr>pb_failures := Suc (pb_failures p)\<rparr> | _ \<Rightarrow> p)"

section \<open>Steps of the two threads\<close>

datatype action =
    Update int
  | Shutdown
  | SetStop
  | JoinEnds
  | FinalPosted post_result
  | LoopHead
  | Woken
  | WaitTimeout
  | Posted post_result
  | DebounceEnds
  | Elapse real

fun pub_step :: "action \<Rightarrow> publisher \<Rightarrow> publisher option" where
  "pub_step (Update n) p =
     (if pb_closer p = C_Running then Some (pub_update n p) else None)"
| "pub_step Shutdown p =
     (if pb_closer p = C_Running then Some (shutdown_begin p) else None)"
| "pub_step SetStop p =
     (case pb_closer p of
        C_Stopping snap \<Rightarrow>
          Some (p\<lparr>pb_stop_evt := True, pb_closer := C_Joining snap (pb_clock p + 12)\<rparr>)
      | _ \<Rightarrow> None)"
| "pub_step JoinEnds p =
     (case pb_closer p of
        C_Joining snap d \<Rightarrow>
          (if pb_worker p = W_Returned \<or> pb_worker p = W_Raised \<or> d \<le> pb_clock p
           then Some (p\<lparr>pb_closer := C_Posting snap,
                        pb_final_posts := (pb_clock p, snap) # pb_final_posts p\<rparr>)
           else None)
      | _ \<Rightarrow> None)"
| "pub_step (FinalPosted r) p =
     (case pb_closer p of
        C_Posting snap \<Rightarrow>
          Some (if r = PostOther then p\<lparr>pb_closer := C_Raised\<rparr>
                else (post_failures r p)\<lparr>pb_closer := C_Done\<rparr>)
      | _ \<Rightarrow> None)"
| "pub_step LoopHead p =
     (if pb_worker p = W_Loop
      then Some (if \<not> pb_dirty p \<and> \<not> pb_stopping p
                 then p\<lparr>pb_worker := W_Wait (pb_clock p + KEEPALIVE_SECS)\<rparr>
                 else worker_leave_wait p)
      else None)"
| "pub_step Woken p =
     (case pb_worker p of
        W_Wait d \<Rightarrow>
          (if pb_notified p
           then Some (if \<not> pb_dirty p \<and> \<not> pb_stopping p then p\<lparr>pb_notified := False\<rparr>
                      else worker_leave_wait p)
           else None)
      | _ \<Rightarrow> None)"
| "pub_step WaitTimeout p =
     (case pb_worker p of
        W_Wait d \<Rightarrow>
          (if d \<le> pb_clock p then Some (worker_leave_wait (p\<lparr>pb_dirty := True\<rparr>)) else None)
      | _ \<Rightarrow> None)"
| "pub_step (Posted r) p =
     (case pb_worker p of
        W_Post snap \<Rightarrow>
          Some (if r = PostOther then p\<lparr>pb_worker := W_Raised\<rparr>
                else (post_failures r p)\<lparr>pb_worker := W_Debounce (pb_clock p + 1)\<rparr>)
      | _ \<Rightarrow> None)"
| "pub_step DebounceEnds p =
     (case pb_worker p of
        W_Debounce t \<Rightarrow>
          (if t \<le> pb_clock p \<or> pb_stop_evt p then Some (p\<lparr>pb_worker := W_Loop\<rparr>) else None)
      | _ \<Rightarrow> None)"
| "pub_step (Elapse dt) p =
     (if 0 \<le> dt then Some (p\<lparr>pb_clock := pb_clock p + dt\<rparr>) else None)"

fun pub_run :: "action list \<Rightarrow> publisher \<Rightarrow> publisher option" where
  "pub_run [] p = Some p"
| "pub_run (a # as) p =
     (case pub_step a p of None \<Rightarrow> None | Some p' \<Rightarrow> pub_run as p')"

lemmas pub_defs = pub_update_def shutdown_begin_def cond_notify_def worker_leave_wait_def
  post_failures_def Let_def

section \<open>The invariant of the two threads\<close>

text \<open>Start times of consecutive worker POSTs, newest first, at least a second apart.\<close>

fun spaced :: "(real \<times> payload) list \<Rightarrow> bool" where
  "spaced ((t, _) # (u, y) # ps) \<longleftrightarrow> u + 1 \<le> t \<and> spaced ((u, y) # ps)"
| "spaced _ \<longleftrightarrow> True"

text \<open>The snapshot \<open>shutdown\<close> holds or has posted.\<close>

definition closing_ok :: "publisher \<Rightarrow> bool" where
  "closing_ok p \<longleftrightarrow>
     (case pb_closer p of
        C_Running \<Rightarrow> \<not> pb_stopping p \<and> pb_final_posts p = []
      | C_Stopping snap \<Rightarrow> pb_stopping p \<and> snap = pb_payload p \<and> pb_final_posts p = []
      | C_Joining snap d \<Rightarrow> pb_stopping p \<and> snap = pb_payload p \<and> pb_final_posts p = []
      | C_Posting snap \<Rightarrow> pb_stopping p \<and> map snd (pb_final_posts p) = [pb_payload p]
      | _ \<Rightarrow> pb_stopping p \<and> map snd (pb_final_posts p) = [pb_payload p])"

text \<open>When the next worker POST may start: a second after the last one started.\<close>

definition debounced :: "publisher \<Rightarrow> bool" where
  "debounced p \<longleftrightarrow>
     (case pb_worker_posts p of
        [] \<Rightarrow> True
      | (t, _) # _ \<Rightarrow>
          t \<le> pb_clock p \<and>
          (case pb_worker p of
             W_Loop \<Rightarrow> t + 1 \<le> pb_clock p \<or> pb_stopping p
           | W_Wait _ \<Rightarrow> t + 1 \<le> pb_clock p \<or> pb_stopping p
           | W_Debounce u \<Rightarrow> t + 1 \<le> u
           | _ \<Rightarrow> True))"

text \<open>
  Nothing is lost: unless the dirty flag is set, the newest POST carries the payload as
  it is now, or there was no POST and no update at all.
\<close>

definition published :: "publisher \<Rightarrow> bool" where
  "published p \<longleftrightarrow>
     pb_stopping p \<or> pb_dirty p \<or>
     (case pb_worker_posts p of
        [] \<Rightarrow> pl_curplayers (pb_payload p) = 0
      | (_, q) # _ \<Rightarrow> q = pb_payload p)"

text \<open>The status text follows the stopping flag, and the worker only posts \<open>online\<close>.\<close>

definition status_ok :: "publisher \<Rightarrow> bool" where
  "status_ok p \<longleftrightarrow>
     pl_status (pb_payload p) = (if pb_stopping p then offline else online) \<and>
     (\<forall>x \<in> set (pb_worker_posts p). pl_status (snd x) = online) \<and>
     (pb_stop_evt p \<longrightarrow> pb_stopping p)"

text \<open>A waiting worker that has work to do has been notified.\<close>

definition waiting_ok :: "publisher \<Rightarrow> bool" where
  "waiting_ok p \<longleftrightarrow>
     (case pb_worker p of
        W_Wait d \<Rightarrow> (pb_dirty p \<or> pb_stopping p \<longrightarrow> pb_notified p) \<and>
                    d \<le> pb_clock p + KEEPALIVE_SECS
      | W_Returned \<Rightarrow> pb_stopping p
      | _ \<Rightarrow> True)"

definition pub_inv :: "publisher \<Rightarrow> bool" where
  "pub_inv p \<longleftrightarrow>
     closing_ok p \<and> debounced p \<and> published p \<and> spaced (pb_worker_posts p) \<and>
     status_ok p \<and> waiting_ok p"

lemmas pub_congs = list.case_cong prod.case_cong worker.case_cong closer.case_cong

lemmas pub_inv_defs = closing_ok_def debounced_def published_def status_ok_def waiting_ok_def

lemma pub_inv_init: "pub_inv (publisher_init b u c k r g n)"
  by (simp add: pub_inv_def pub_inv_defs publisher_init_def)

lemma spaced_Cons:
  "spaced ((t, q) # ps) \<longleftrightarrow> (case ps of [] \<Rightarrow> True | (u, _) # _ \<Rightarrow> u + 1 \<le> t) \<and> spaced ps"
  by (cases ps) auto

text \<open>What \<open>cond_notify\<close> and the end of the wait loop leave alone.\<close>

lemma cond_notify_fields [simp]:
  "pb_payload (cond_notify p) = pb_payload p" "pb_dirty (cond_notify p) = pb_dirty p"
  "pb_stopping (cond_notify p) = pb_stopping p" "pb_stop_evt (cond_notify p) = pb_stop_evt p"
  "pb_worker (cond_notify p) = pb_worker p" "pb_closer (cond_notify p) = pb_closer p"
  "pb_clock (cond_notify p) = pb_clock p" "pb_failures (cond_notify p) = pb_failures p"
  "pb_worker_posts (cond_notify p) = pb_worker_posts p"
  "pb_final_posts (cond_notify p) = pb_final_posts p"
  by (simp_all add: cond_notify_def split: worker.splits)

lemma cond_notify_waits: "pb_worker p = W_Wait d \<Longrightarrow> pb_notified (cond_notify p)"
  by (simp add: cond_notify_def)

lemma cond_notify_inv:
  "closing_ok (cond_notify p) = closing_ok p" "debounced (cond_notify p) = debounced p"
  "published (cond_notify p) = published p" "status_ok (cond_notify p) = status_ok p"
  by (simp_all only: pub_inv_defs cond_notify_fields)

lemma waiting_ok_notify:
  "(pb_worker p = W_Returned \<Longrightarrow> pb_stopping p) \<Longrightarrow>
   (\<And>d. pb_worker p = W_Wait d \<Longrightarrow> d \<le> pb_clock p + KEEPALIVE_SECS) \<Longrightarrow>
   waiting_ok (cond_notify p)"
  by (auto simp: waiting_ok_def cond_notify_waits split: worker.splits)

lemma waiting_okD:
  "waiting_ok p \<Longrightarrow> pb_worker p = W_Returned \<Longrightarrow> pb_stopping p"
  "waiting_ok p \<Longrightarrow> pb_worker p = W_Wait d \<Longrightarrow> d \<le> pb_clock p + KEEPALIVE_SECS"
  by (simp_all add: waiting_ok_def)

lemma pub_update_inv: "pub_inv p \<Longrightarrow> pub_inv (pub_update n p)"
proof -
  assume inv: "pub_inv p"
  let ?q = "p\<lparr>pb_payload := (pb_payload p)\<lparr>pl_curplayers := n\<rparr>, pb_dirty := True\<rparr>"
  show ?thesis
  proof (cases "pb_stopping p")
    case False
    with inv have "closing_ok ?q"
      by (auto simp: pub_inv_def closing_ok_def split: closer.splits)
    moreover from inv have "debounced ?q" "published ?q" "spaced (pb_worker_posts ?q)"
        "status_ok ?q"
      by (simp_all add: pub_inv_def debounced_def published_def status_ok_def cong: pub_congs)
    moreover from inv have "waiting_ok (cond_notify ?q)"
      by (intro waiting_ok_notify) (auto simp: pub_inv_def dest: waiting_okD)
    ultimately show ?thesis
      using False by (simp add: pub_update_def pub_inv_def cond_notify_inv)
  qed (use inv in \<open>simp add: pub_update_def\<close>)
qed

lemma pub_update_fields [simp]:
  "pb_stopping (pub_update n p) = pb_stopping p"
  "\<not> pb_stopping p \<Longrightarrow> pl_curplayers (pb_payload (pub_update n p)) = n"
  "pb_failures (pub_update n p) = pb_failures p"
  by (simp_all add: pub_update_def)

lemma shutdown_begin_inv:
  assumes inv: "pub_inv p" and run: "pb_closer p = C_Running"
  shows "pub_inv (shutdown_begin p)"
proof -
  let ?pl = "(pb_payload p)\<lparr>pl_status := offline\<rparr>"
  let ?q = "p\<lparr>pb_stopping := True, pb_payload := ?pl, pb_closer := C_Stopping ?pl\<rparr>"
  from inv run have "closing_ok ?q"
    by (simp add: pub_inv_def closing_ok_def)
  moreover from inv have "debounced ?q"
    by (auto simp: pub_inv_def debounced_def split: list.splits worker.splits)
  moreover from inv have "published ?q" "spaced (pb_worker_posts ?q)" "status_ok ?q"
    by (simp_all add: pub_inv_def published_def status_ok_def cong: pub_congs)
  moreover from inv have "waiting_ok (cond_notify ?q)"
    by (intro waiting_ok_notify) (auto simp: pub_inv_def dest: waiting_okD)
  ultimately show ?thesis
    by (simp add: shutdown_begin_def Let_def pub_inv_def cond_notify_inv)
qed

lemma worker_leave_wait_fields [simp]:
  "pb_payload (worker_leave_wait p) = pb_payload p"
  "pb_stopping (worker_leave_wait p) = pb_stopping p"
  "pb_stop_evt (worker_leave_wait p) = pb_stop_evt p"
  "pb_closer (worker_leave_wait p) = pb_closer p"
  "pb_clock (worker_leave_wait p) = pb_clock p"
  "pb_final_posts (worker_leave_wait p) = pb_final_posts p"
  "pb_dirty (worker_leave_wait p) = False"
  by (simp_all add: worker_leave_wait_def Let_def)

lemma worker_leave_wait_cases:
  "pb_stopping p \<Longrightarrow> pb_worker (worker_leave_wait p) = W_Returned \<and>
     pb_worker_posts (worker_leave_wait p) = pb_worker_posts p"
  "\<not> pb_stopping p \<Longrightarrow> pb_worker (worker_leave_wait p) = W_Post (pb_payload p) \<and>
     pb_worker_posts (worker_leave_wait p) = (pb_clock p, pb_payload p) # pb_worker_posts p"
  by (simp_all add: worker_leave_wait_def Let_def)

lemma closing_ok_leave [simp]: "closing_ok (worker_leave_wait p) = closing_ok p"
  by (simp add: closing_ok_def cong: pub_congs)

lemma worker_leave_wait_inv:
  assumes "closing_ok p" "debounced p" "spaced (pb_worker_posts p)" "status_ok p"
    and at: "pb_worker p = W_Loop \<or> (\<exists>d. pb_worker p = W_Wait d)"
  shows "pub_inv (worker_leave_wait p)"
proof (cases "pb_stopping p")
  case True
  note w = worker_leave_wait_cases(1) [OF True]
  from True assms show ?thesis
    by (auto simp: pub_inv_def debounced_def published_def status_ok_def waiting_ok_def w
        split: list.splits)
next
  case False
  note w = worker_leave_wait_cases(2) [OF False]
  from at assms(2) False have "\<forall>t q ps. pb_worker_posts p = (t, q) # ps \<longrightarrow> t + 1 \<le> pb_clock p"
    by (auto simp: debounced_def)
  with assms(3) have "spaced ((pb_clock p, pb_payload p) # pb_worker_posts p)"
    by (auto simp: spaced_Cons split: list.splits)
  then show ?thesis
    using False assms(1,4)
    by (simp add: pub_inv_def debounced_def published_def status_ok_def waiting_ok_def w)
qed

lemma pub_step_worker_cases:
  assumes "pub_step a p = Some q" and "a \<in> {LoopHead, Woken, WaitTimeout}"
  obtains (leave) p' where "q = worker_leave_wait p'" "p' = p \<or> p' = p\<lparr>pb_dirty := True\<rparr>"
      "pb_worker p = W_Loop \<or> (\<exists>d. pb_worker p = W_Wait d)"
    | (wait) "q = p\<lparr>pb_worker := W_Wait (pb_clock p + KEEPALIVE_SECS)\<rparr>" "pb_worker p = W_Loop"
      "\<not> pb_dirty p" "\<not> pb_stopping p"
    | (again) d where "q = p\<lparr>pb_notified := False\<rparr>" "pb_worker p = W_Wait d"
      "\<not> pb_dirty p" "\<not> pb_stopping p"
  using assms by (auto split: worker.splits if_splits)

lemma pub_step_inv_worker:
  assumes inv: "pub_inv p" and st: "pub_step a p = Some q"
    and a: "a \<in> {LoopHead, Woken, WaitTimeout}"
  shows "pub_inv q"
  using st a
proof (cases rule: pub_step_worker_cases)
  case (leave p')
  from leave(2) have "closing_ok p' = closing_ok p" "debounced p' = debounced p"
      "pb_worker_posts p' = pb_worker_posts p" "status_ok p' = status_ok p"
      "pb_worker p' = pb_worker p"
    by (auto simp: closing_ok_def debounced_def status_ok_def cong: pub_congs)
  with inv leave(3) have "pub_inv (worker_leave_wait p')"
    by (intro worker_leave_wait_inv) (simp_all add: pub_inv_def)
  with leave(1) show ?thesis by simp
next
  case wait
  then have "closing_ok q = closing_ok p" "published q = published p" "status_ok q = status_ok p"
      "debounced q = debounced p" "waiting_ok q"
    by (simp_all add: pub_inv_defs cong: pub_congs)
  with inv wait(1) show ?thesis by (simp add: pub_inv_def)
next
  case (again d)
  then have "closing_ok q = closing_ok p" "published q = published p" "status_ok q = status_ok p"
      "debounced q = debounced p" "waiting_ok p \<longrightarrow> waiting_ok q"
    by (simp_all add: pub_inv_defs cong: pub_congs)
  with inv again(1) show ?thesis by (simp add: pub_inv_def)
qed

lemma post_failures_inv [simp]:
  "closing_ok (post_failures r p) = closing_ok p" "debounced (post_failures r p) = debounced p"
  "published (post_failures r p) = published p" "status_ok (post_failures r p) = status_ok p"
  "waiting_ok (post_failures r p) = waiting_ok p"
  "pb_worker_posts (post_failures r p) = pb_worker_posts p"
  "pb_clock (post_failures r p) = pb_clock p"
  by (simp_all add: pub_inv_defs post_failures_def cong: pub_congs split: post_result.splits)

text \<open>Moves of one program counter that touch nothing else.\<close>

lemma closer_move:
  "debounced (p\<lparr>pb_closer := c\<rparr>) = debounced p" "published (p\<lparr>pb_closer := c\<rparr>) = published p"
  "status_ok (p\<lparr>pb_closer := c\<rparr>) = status_ok p" "waiting_ok (p\<lparr>pb_closer := c\<rparr>) = waiting_ok p"
  by (simp_all add: pub_inv_defs cong: pub_congs)

lemma worker_move:
  "closing_ok (p\<lparr>pb_worker := w\<rparr>) = closing_ok p" "published (p\<lparr>pb_worker := w\<rparr>) = published p"
  "status_ok (p\<lparr>pb_worker := w\<rparr>) = status_ok p"
  by (simp_all add: pub_inv_defs cong: pub_congs)

lemma pub_step_inv_shutdown:
  assumes inv: "pub_inv p" and st: "pub_step a p = Some q"
    and a: "a \<in> {SetStop, JoinEnds, FinalPosted r}"
  shows "pub_inv q"
proof -
  consider (set) snap where "pb_closer p = C_Stopping snap"
      "q = p\<lparr>pb_stop_evt := True, pb_closer := C_Joining snap (pb_clock p + 12)\<rparr>"
    | (join) snap d where "pb_closer p = C_Joining snap d"
      "q = p\<lparr>pb_closer := C_Posting snap, pb_final_posts := (pb_clock p, snap) # pb_final_posts p\<rparr>"
    | (final) snap where "pb_closer p = C_Posting snap"
      "q = (post_failures r p)\<lparr>pb_closer := C_Done\<rparr>"
    | (raised) snap where "pb_closer p = C_Posting snap" "q = p\<lparr>pb_closer := C_Raised\<rparr>"
    using st a by (auto split: closer.splits if_splits)
  then show ?thesis
  proof cases
    case set
    with inv have "closing_ok q" "status_ok q"
      by (simp_all add: pub_inv_def closing_ok_def status_ok_def)
    moreover from set have "debounced q = debounced p" "published q = published p"
        "waiting_ok q = waiting_ok p" "pb_worker_posts q = pb_worker_posts p"
      by (simp_all add: pub_inv_defs cong: pub_congs)
    ultimately show ?thesis using inv by (simp add: pub_inv_def)
  next
    case join
    with inv have "closing_ok q"
      by (simp add: pub_inv_def closing_ok_def)
    moreover from join have "debounced q = debounced p" "published q = published p"
        "waiting_ok q = waiting_ok p" "pb_worker_posts q = pb_worker_posts p"
        "status_ok q = status_ok p"
      by (simp_all add: pub_inv_defs cong: pub_congs)
    ultimately show ?thesis using inv by (simp add: pub_inv_def)
  next
    case final
    from inv final have "closing_ok q"
      by (simp add: pub_inv_def closing_ok_def post_failures_def split: post_result.splits)
    with inv final(2) show ?thesis by (simp add: pub_inv_def closer_move)
  next
    case raised
    with inv have "closing_ok q"
      by (simp add: pub_inv_def closing_ok_def)
    with inv raised(2) show ?thesis by (simp add: pub_inv_def closer_move)
  qed
qed

lemma debouncedD:
  assumes "debounced p" and "pb_worker_posts p = (t, q) # ps"
  shows "t \<le> pb_clock p" and "pb_worker p = W_Debounce u \<Longrightarrow> t + 1 \<le> u"
  using assms by (simp_all add: debounced_def)

lemma pub_step_inv_post:
  assumes inv: "pub_inv p" and st: "pub_step a p = Some q"
    and a: "a \<in> {Posted r, DebounceEnds, Elapse dt}"
  shows "pub_inv q"
proof -
  consider (raised) snap where "pb_worker p = W_Post snap" "q = p\<lparr>pb_worker := W_Raised\<rparr>"
    | (posted) snap where "pb_worker p = W_Post snap"
      "q = (post_failures r p)\<lparr>pb_worker := W_Debounce (pb_clock p + 1)\<rparr>"
    | (head) u where "pb_worker p = W_Debounce u" "u \<le> pb_clock p \<or> pb_stop_evt p"
      "q = p\<lparr>pb_worker := W_Loop\<rparr>"
    | (time) "0 \<le> dt" "q = p\<lparr>pb_clock := pb_clock p + dt\<rparr>"
    using st a by (auto split: worker.splits if_splits)
  then show ?thesis
  proof cases
    case raised
    with inv have "debounced q"
      by (auto simp: pub_inv_def debounced_def split: list.splits)
    with inv raised show ?thesis by (simp add: pub_inv_def worker_move waiting_ok_def)
  next
    case posted
    from inv posted have "debounced q"
      by (auto simp: pub_inv_def debounced_def split: list.splits)
    with inv posted show ?thesis by (simp add: pub_inv_def worker_move waiting_ok_def)
  next
    case head
    from inv head have "debounced q"
      by (auto simp: pub_inv_def debounced_def status_ok_def split: list.splits)
    with inv head show ?thesis by (simp add: pub_inv_def worker_move waiting_ok_def)
  next
    case time
    with inv have "debounced q"
      by (auto simp: pub_inv_def debounced_def split: list.splits worker.splits)
    moreover from time inv have "waiting_ok q"
      by (auto simp: pub_inv_def waiting_ok_def split: worker.splits)
    moreover from time have "closing_ok q = closing_ok p" "published q = published p"
        "status_ok q = status_ok p" "pb_worker_posts q = pb_worker_posts p"
      by (simp_all add: pub_inv_defs cong: pub_congs)
    ultimately show ?thesis using inv by (simp add: pub_inv_def)
  qed
qed

lemma pub_step_inv: "pub_inv p \<Longrightarrow> pub_step a p = Some q \<Longrightarrow> pub_inv q"
proof (cases a)
  case (Update n)
  then show "pub_inv p \<Longrightarrow> pub_step a p = Some q \<Longrightarrow> pub_inv q"
    by (auto simp: pub_update_inv split: if_splits)
next
  case Shutdown
  then show "pub_inv p \<Longrightarrow> pub_step a p = Some q \<Longrightarrow> pub_inv q"
    by (auto simp: shutdown_begin_inv split: if_splits)
qed (blast intro: pub_step_inv_shutdown pub_step_inv_worker pub_step_inv_post)+

text \<open>Only \<open>update\<close> and \<open>shutdown\<close> write the payload.\<close>

lemma pub_step_payload:
  assumes "pub_step a p = Some q" and "\<And>n. a \<noteq> Update n" and "a \<noteq> Shutdown"
  shows "pb_payload q = pb_payload p \<and> pb_stopping q = pb_stopping p"
proof (cases "a \<in> {LoopHead, Woken, WaitTimeout}")
  case True
  with assms(1) show ?thesis
    by (cases rule: pub_step_worker_cases) auto
next
  case False
  with assms show ?thesis
    by (cases a) (auto simp: post_failures_def split: closer.splits worker.splits if_splits
        post_result.splits)
qed

lemma pub_run_inv: "pub_inv p \<Longrightarrow> pub_run as p = Some q \<Longrightarrow> pub_inv q"
  by (induction as arbitrary: p) (auto dest: pub_step_inv split: option.splits)

end
