(* ===== verification/Server.thy ===== *)
theory Server
  imports Lobby
begin

text \<open>
  The state of \<^verbatim>\<open>server/intv_relay_server.py\<close> and its plumbing: clients, rooms, the
  server object, connections, the transmit path (\<open>send\<close>, \<open>flush\<close>) and \<open>drop\<close>, which
  call each other. Python objects that are shared by reference (clients, rooms) live in
  a store addressed by numbers; a socket is the script of what its \<^verbatim>\<open>send\<close> calls will
  return and the bytes the kernel has taken so far.
\<close>

section \<open>State\<close>

type_synonym cid = nat
type_synonym rid = nat

text \<open>One call of \<^verbatim>\<open>sock.send\<close>: takes at most so many bytes, would block, or fails.\<close>

datatype send_res = SendN nat | SendBlock | SendFail

record client =
  cl_addr :: "nat \<times> nat"
  cl_tx :: "byte list"
  cl_name :: "pystr option"
  cl_room :: "rid option"
  cl_connected_at :: real
  cl_dead :: bool
  cl_script :: "send_res list"
  cl_wire :: "byte list"

record room =
  rm_members :: "cid list"
  rm_started :: bool
  rm_seed :: nat
  rm_crc :: "(nat, (nat, nat) dict) dict"
  rm_crc_ok :: nat

record stats =
  tx_backlog_drops :: nat
  hello_timeouts :: nat
  connection_limit_rejections :: nat

datatype reason =
    TxBacklog
  | SendError
  | SendZero
  | NoHello
  | RecvError
  | Closed
  | BadFrameLength nat
  | Bye
  | Replaced
  | Protocol proto_error
  | InternalError

text \<open>\<^verbatim>\<open>repr\<close> of a client in the log: its name, or its address while it has none.\<close>

datatype who = Named pystr | Addr "nat \<times> nat"

datatype log_event =
    LRejectFull "nat \<times> nat" nat
  | LRejectIp "nat \<times> nat" nat
  | LConnect "nat \<times> nat"
  | LDrop who reason
  | LMatchEnded nat who nat
  | LBackToLobby who
  | LHostLeft "pystr list"
  | LRename who pystr
  | LHello who
  | LJoin who "pystr list"
  | LMatch "pystr list" nat nat
  | LCrcMismatch nat "(nat \<times> nat) list"
  | LCrcOk nat nat
  | LStats nat nat stats nat
  | LUnexpected who exn

text \<open>
  \<open>sv_cl\<close> and \<open>sv_rm\<close> are the objects, \<open>sv_next_cl\<close> and \<open>sv_next_rm\<close> the next
  free addresses; \<open>sv_sel\<close> is the selector: whether a client's socket is registered and,
  if so, whether for writing as well as reading; \<open>sv_rng\<close> is the stream \<^verbatim>\<open>random\<close> draws
  from. The log is newest first.
\<close>

record server =
  sv_delay :: int
  sv_auto_go :: int
  sv_by_name :: "(pystr, cid) dict"
  sv_lobby :: "publisher option"
  sv_clients :: "cid list"
  sv_stats :: stats
  sv_last_stats :: "stats \<times> nat"
  sv_sel :: "cid \<Rightarrow> bool option"
  sv_cl :: "cid \<Rightarrow> client"
  sv_next_cl :: cid
  sv_rm :: "rid \<Rightarrow> room"
  sv_next_rm :: rid
  sv_rng :: "nat \<Rightarrow> nat"
  sv_rng_pos :: nat
  sv_log :: "log_event list"

type_synonym sstmt = "(server, exn) stmt"

text \<open>What an address that holds no object yet reads as: nobody is there to serve.\<close>

definition no_client :: client where
  "no_client = \<lparr>cl_addr = (0, 0), cl_tx = [], cl_name = None, cl_room = None,
     cl_connected_at = 0, cl_dead = True, cl_script = [], cl_wire = []\<rparr>"

definition client_init :: "nat \<times> nat \<Rightarrow> real \<Rightarrow> send_res list \<Rightarrow> client" where
  "client_init addr now script = \<lparr>cl_addr = addr, cl_tx = [], cl_name = None,
     cl_room = None, cl_connected_at = now, cl_dead = False, cl_script = script, cl_wire = []\<rparr>"

definition room_init :: "cid \<Rightarrow> room" where
  "room_init host = \<lparr>rm_members = [host], rm_started = False, rm_seed = 0, rm_crc = [],
     rm_crc_ok = 0\<rparr>"

definition no_room :: room where
  "no_room = (room_init 0)\<lparr>rm_members := []\<rparr>"

definition server_init :: "int \<Rightarrow> publisher option \<Rightarrow> int \<Rightarrow> (nat \<Rightarrow> nat) \<Rightarrow> server" where
  "server_init delay lobby auto_go rng =
     \<lparr>sv_delay = delay, sv_auto_go = auto_go, sv_by_name = [], sv_lobby = lobby,
      sv_clients = [],
      sv_stats = \<lparr>tx_backlog_drops = 0, hello_timeouts = 0, connection_limit_rejections = 0\<rparr>,
      sv_last_stats =
        (\<lparr>tx_backlog_drops = 0, hello_timeouts = 0, connection_limit_rejections = 0\<rparr>, 0),
      sv_sel = (\<lambda>_. None), sv_cl = (\<lambda>_. no_client), sv_next_cl = 0, sv_rm = (\<lambda>_. no_room),
      sv_next_rm = 0, sv_rng = rng, sv_rng_pos = 0, sv_log = []\<rparr>"

section \<open>Reading and writing the store\<close>

definition upd_cl :: "cid \<Rightarrow> (client \<Rightarrow> client) \<Rightarrow> server \<Rightarrow> server" where
  "upd_cl c f s = s\<lparr>sv_cl := (sv_cl s)(c := f (sv_cl s c))\<rparr>"

definition upd_rm :: "rid \<Rightarrow> (room \<Rightarrow> room) \<Rightarrow> server \<Rightarrow> server" where
  "upd_rm r f s = s\<lparr>sv_rm := (sv_rm s)(r := f (sv_rm s r))\<rparr>"

definition log_it :: "log_event \<Rightarrow> server \<Rightarrow> server" where
  "log_it e s = s\<lparr>sv_log := e # sv_log s\<rparr>"

abbreviation dead :: "server \<Rightarrow> cid \<Rightarrow> bool" where
  "dead s c \<equiv> cl_dead (sv_cl s c)"

abbreviation name_of :: "server \<Rightarrow> cid \<Rightarrow> pystr option" where
  "name_of s c \<equiv> cl_name (sv_cl s c)"

abbreviation room_of :: "server \<Rightarrow> cid \<Rightarrow> rid option" where
  "room_of s c \<equiv> cl_room (sv_cl s c)"

abbreviation members :: "server \<Rightarrow> rid \<Rightarrow> cid list" where
  "members s r \<equiv> rm_members (sv_rm s r)"

definition client_repr :: "server \<Rightarrow> cid \<Rightarrow> who" where
  "client_repr s c =
     (case name_of s c of
        None \<Rightarrow> Addr (cl_addr (sv_cl s c))
      | Some n \<Rightarrow> if n = [] then Addr (cl_addr (sv_cl s c)) else Named n)"

definition room_repr :: "server \<Rightarrow> rid \<Rightarrow> pystr list" where
  "room_repr s r =
     map (\<lambda>m. case name_of s m of None \<Rightarrow> str_of ''?'' | Some n \<Rightarrow> if n = [] then str_of ''?'' else n)
       (members s r)"

text \<open>\<^verbatim>\<open>Client.seat\<close> and \<^verbatim>\<open>Client.solo\<close>.\<close>

definition seat :: "server \<Rightarrow> cid \<Rightarrow> exn + nat option" where
  "seat s c =
     (case room_of s c of
        None \<Rightarrow> Inr None
      | Some r \<Rightarrow> (case index_of (members s r) c of None \<Rightarrow> Inl ValueError | Some i \<Rightarrow> Inr (Some i)))"

definition solo :: "server \<Rightarrow> cid \<Rightarrow> bool" where
  "solo s c \<longleftrightarrow> name_of s c \<noteq> None \<and> room_of s c = None"

definition roster :: "server \<Rightarrow> rid \<Rightarrow> exn + byte list" where
  "roster s r =
     (case map_val (\<lambda>m. pad_name (name_of s m)) (members s r) of
        Inl e \<Rightarrow> Inl e
      | Inr pads \<Rightarrow> Inr (concat pads @ replicate (8 * (ROSTER_SLOTS - length (members s r))) 0))"

definition lobby_update :: "server \<Rightarrow> server" where
  "lobby_update s =
     (case sv_lobby s of
        None \<Rightarrow> s
      | Some p \<Rightarrow> s\<lparr>sv_lobby := Some (pub_update (int (length (sv_by_name s))) p)\<rparr>)"

section \<open>The transmit path\<close>

text \<open>
  \<^verbatim>\<open>flush\<close>: the loop over \<^verbatim>\<open>sock.send\<close>. It yields the bytes taken, what is left of the
  buffer and of the script, and how it ended. A script that has run out blocks.
\<close>

datatype flush_end = FlushDone | FlushOSError | FlushZero

fun flush_loop ::
    "byte list \<Rightarrow> send_res list \<Rightarrow> byte list \<times> byte list \<times> send_res list \<times> flush_end" where
  "flush_loop [] sc = ([], [], sc, FlushDone)"
| "flush_loop tx [] = ([], tx, [], FlushDone)"
| "flush_loop tx (SendBlock # sc) = ([], tx, sc, FlushDone)"
| "flush_loop tx (SendFail # sc) = ([], tx, sc, FlushOSError)"
| "flush_loop tx (SendN n # sc) =
     (let k = min n (length tx)
      in if k = 0 then ([], tx, sc, FlushZero)
         else (case flush_loop (drop k tx) sc of
                 (sent, rest, sc', e) \<Rightarrow> (take k tx @ sent, rest, sc', e)))"

definition update_events :: "cid \<Rightarrow> server \<Rightarrow> server" where
  "update_events c s =
     (case sv_sel s c of
        None \<Rightarrow> s
      | Some _ \<Rightarrow> s\<lparr>sv_sel := (sv_sel s)(c := Some (cl_tx (sv_cl s c) \<noteq> []))\<rparr>)"

text \<open>
  \<open>drop\<close>, \<open>flush\<close> and \<open>send\<close> call each other, so the last two take the \<open>drop\<close> they
  call as an argument.
\<close>

type_synonym dropper = "cid \<Rightarrow> reason \<Rightarrow> sstmt"

definition flush_with :: "dropper \<Rightarrow> cid \<Rightarrow> sstmt" where
  "flush_with d c s =
     (case flush_loop (cl_tx (sv_cl s c)) (cl_script (sv_cl s c)) of
        (sent, rest, sc, e) \<Rightarrow>
          (let s1 = upd_cl c (\<lambda>k. k\<lparr>cl_tx := rest, cl_script := sc, cl_wire := cl_wire k @ sent\<rparr>) s
           in case e of
                FlushDone \<Rightarrow> (update_events c s1, None)
              | FlushOSError \<Rightarrow> d c SendError s1
              | FlushZero \<Rightarrow> d c SendZero s1))"

definition send_with :: "dropper \<Rightarrow> cid \<Rightarrow> byte list \<Rightarrow> sstmt" where
  "send_with d c data s =
     (if dead s c then (s, None)
      else if length (cl_tx (sv_cl s c)) + length data > MAX_TX_BACKLOG
      then d c TxBacklog
             (s\<lparr>sv_stats := (sv_stats s)\<lparr>tx_backlog_drops := Suc (tx_backlog_drops (sv_stats s))\<rparr>\<rparr>)
      else flush_with d c (upd_cl c (\<lambda>k. k\<lparr>cl_tx := cl_tx k @ data\<rparr>) s))"

text \<open>\<^verbatim>\<open>self.send(m, frame(t, payload))\<close>.\<close>

definition send_frame_with :: "dropper \<Rightarrow> cid \<Rightarrow> byte \<Rightarrow> byte list \<Rightarrow> sstmt" where
  "send_frame_with d c t payload = bind_val (frame t payload) (send_with d c)"

text \<open>
  \<^verbatim>\<open>for m in room.members\<close>: Python steps an index through the list as it is at each
  step, and a send can drop clients and shrink it. The first argument bounds the number of
  steps; the length at the start is enough because no send makes the list longer.
\<close>

fun for_members_from :: "nat \<Rightarrow> nat \<Rightarrow> rid \<Rightarrow> (nat \<Rightarrow> cid \<Rightarrow> sstmt) \<Rightarrow> sstmt" where
  "for_members_from 0 i r f s = (s, None)"
| "for_members_from (Suc k) i r f s =
     (if i < length (members s r)
      then seq (f i (members s r ! i)) (for_members_from k (Suc i) r f) s
      else (s, None))"

definition for_members :: "rid \<Rightarrow> (nat \<Rightarrow> cid \<Rightarrow> sstmt) \<Rightarrow> sstmt" where
  "for_members r f s = for_members_from (length (members s r)) 0 r f s"

definition room_broadcast_with :: "dropper \<Rightarrow> rid \<Rightarrow> sstmt" where
  "room_broadcast_with d r s =
     bind_val (bytes_of [int (length (members s r))]) (\<lambda>n.
     bind_val (roster s r) (\<lambda>ros.
       for_members r (\<lambda>_ m. send_frame_with d m T_ROOM (n @ ros)))) s"

definition leave_room :: "cid \<Rightarrow> server \<Rightarrow> server" where
  "leave_room c = upd_cl c (\<lambda>k. k\<lparr>cl_room := None\<rparr>)"

definition clear_members :: "rid \<Rightarrow> server \<Rightarrow> server" where
  "clear_members r = upd_rm r (\<lambda>k. k\<lparr>rm_members := []\<rparr>)"

definition dissolve_with :: "dropper \<Rightarrow> rid \<Rightarrow> cid list \<Rightarrow> sstmt" where
  "dissolve_with d r notify s =
     seq (update (fold leave_room (members s r)))
     (seq (for_each (\<lambda>m. send_frame_with d m T_ROOM (0 # replicate 32 0)) notify)
          (update (clear_members r))) s"

section \<open>drop\<close>

text \<open>
  The first half of \<^verbatim>\<open>drop\<close>: mark the client dead, unregister and close the socket, and
  forget every name that points to it.
\<close>

definition stale_names :: "server \<Rightarrow> cid \<Rightarrow> pystr list" where
  "stale_names s c = map fst (filter (\<lambda>e. snd e = c) (sv_by_name s))"

definition drop_unhook :: "cid \<Rightarrow> reason \<Rightarrow> server \<Rightarrow> server" where
  "drop_unhook c why s =
     (let s1 = log_it (LDrop (client_repr s c) why) (upd_cl c (\<lambda>k. k\<lparr>cl_dead := True\<rparr>) s);
          s2 = s1\<lparr>sv_sel := (sv_sel s1)(c := None), sv_clients := removeAll c (sv_clients s1)\<rparr>;
          stale = stale_names s2 c;
          s3 = s2\<lparr>sv_by_name := fold (\<lambda>n d. dict_del d n) stale (sv_by_name s2)\<rparr>
      in if stale \<noteq> [] then lobby_update s3 else s3)"

definition drop_body :: "dropper \<Rightarrow> dropper" where
  "drop_body d c why s =
     (if dead s c then (s, None)
      else
        (let s1 = drop_unhook c why s
         in case room_of s1 c of
              None \<Rightarrow> (s1, None)
            | Some r \<Rightarrow>
                bind_val (seat s1 c) (\<lambda>st _.
                  (let s2 = leave_room c s1;
                       s3 = upd_rm r (\<lambda>k. k\<lparr>rm_members := remove1 c (rm_members k)\<rparr>) s2;
                       seat_no = (case st of None \<Rightarrow> 0 | Some i \<Rightarrow> i)
                   in if rm_started (sv_rm s3 r)
                      then
                        (let s4 = log_it (LMatchEnded (rm_crc_ok (sv_rm s3 r)) (client_repr s3 c) seat_no) s3
                         in bind_val (bytes_of [int seat_no]) (\<lambda>sb.
                            bind_val (pad_name (name_of s4 c)) (\<lambda>nm.
                            bind_val (frame T_PEER_LEFT (sb @ nm)) (\<lambda>pl.
                              seq (dissolve_with d r [])
                              (seq (for_each (\<lambda>m. seq (send_with d m pl)
                                      (\<lambda>x. update (log_it (LBackToLobby (client_repr x m))) x))
                                    (members s4 r))
                                   (update lobby_update))))) s4)
                      else if seat_no = 0
                      then (let s4 = log_it (LHostLeft (room_repr s3 r)) s3
                            in seq (dissolve_with d r (members s4 r)) (update lobby_update) s4)
                      else if length (members s3 r) < 2
                      then seq (dissolve_with d r (members s3 r)) (update lobby_update) s3
                      else seq (room_broadcast_with d r) (update lobby_update) s3)) s1))"

text \<open>
  The recursion of \<^verbatim>\<open>drop\<close> through \<^verbatim>\<open>send\<close>, to a depth; deeper is Python's
  \<^verbatim>\<open>RecursionError\<close>. Two levels are enough: a room is dissolved before its members are
  told, so a drop inside a drop finds a client without a room.
\<close>

fun drop_fuel :: "nat \<Rightarrow> dropper" where
  "drop_fuel 0 c why s = (if dead s c then (s, None) else (s, Some RecursionError))"
| "drop_fuel (Suc n) c why s = drop_body (drop_fuel n) c why s"

definition DROP_DEPTH :: nat where "DROP_DEPTH = 2"

definition drop_client :: dropper where "drop_client = drop_fuel DROP_DEPTH"
definition flush :: "cid \<Rightarrow> sstmt" where "flush = flush_with drop_client"
definition send :: "cid \<Rightarrow> byte list \<Rightarrow> sstmt" where "send = send_with drop_client"

definition send_frame :: "cid \<Rightarrow> byte \<Rightarrow> byte list \<Rightarrow> sstmt" where
  "send_frame = send_frame_with drop_client"

definition room_broadcast :: "rid \<Rightarrow> sstmt" where
  "room_broadcast = room_broadcast_with drop_client"

definition dissolve :: "rid \<Rightarrow> cid list \<Rightarrow> sstmt" where
  "dissolve = dissolve_with drop_client"

section \<open>Connections\<close>

definition reject :: "log_event \<Rightarrow> server \<Rightarrow> server" where
  "reject e s = log_it e (s\<lparr>sv_stats := (sv_stats s)
     \<lparr>connection_limit_rejections := Suc (connection_limit_rejections (sv_stats s))\<rparr>\<rparr>)"

definition per_ip :: "server \<Rightarrow> nat \<Rightarrow> nat" where
  "per_ip s ip = length (filter (\<lambda>c. fst (cl_addr (sv_cl s c)) = ip) (sv_clients s))"

text \<open>\<^verbatim>\<open>accept\<close>; the arguments are what \<^verbatim>\<open>srv.accept()\<close> and the clock return.\<close>

definition accept :: "nat \<times> nat \<Rightarrow> real \<Rightarrow> send_res list \<Rightarrow> server \<Rightarrow> server" where
  "accept addr now script s =
     (if length (sv_clients s) \<ge> MAX_CLIENTS
      then reject (LRejectFull addr (length (sv_clients s))) s
      else if per_ip s (fst addr) \<ge> MAX_CONNECTIONS_PER_IP
      then reject (LRejectIp addr (per_ip s (fst addr))) s
      else
        (let c = sv_next_cl s
         in log_it (LConnect addr)
              (s\<lparr>sv_next_cl := Suc c, sv_cl := (sv_cl s)(c := client_init addr now script),
                 sv_clients := sv_clients s @ [c], sv_sel := (sv_sel s)(c := Some False)\<rparr>)))"

text \<open>
  \<^verbatim>\<open>sweep\<close> visits a snapshot of the set of clients; \<open>order\<close> is the order in which the
  set is listed.
\<close>

definition sweep_one :: "real \<Rightarrow> cid \<Rightarrow> sstmt" where
  "sweep_one now c s =
     (if name_of s c = None \<and> now - cl_connected_at (sv_cl s c) > HELLO_TIMEOUT
      then drop_client c NoHello
             (s\<lparr>sv_stats := (sv_stats s)\<lparr>hello_timeouts := Suc (hello_timeouts (sv_stats s))\<rparr>\<rparr>)
      else (s, None))"

definition sweep_over :: "cid list \<Rightarrow> real \<Rightarrow> sstmt" where
  "sweep_over order now = for_each (sweep_one now) order"

definition sweep :: "real \<Rightarrow> sstmt" where
  "sweep now s = sweep_over (sv_clients s) now s"

definition log_stats :: "server \<Rightarrow> server" where
  "log_stats s =
     (let fails = (case sv_lobby s of None \<Rightarrow> 0 | Some p \<Rightarrow> pb_failures p);
          counts = (sv_stats s, fails)
      in if counts = sv_last_stats s then s
         else
           (let unidentified = length (filter (\<lambda>c. name_of s c = None) (sv_clients s))
            in log_it (LStats (length (sv_clients s)) unidentified (sv_stats s) fails)
                 (s\<lparr>sv_last_stats := counts\<rparr>)))"

end
