(* ===== verification/Protocol.thy ===== *)
theory Protocol
  imports Server
begin

text \<open>
  The protocol half of \<^verbatim>\<open>class Server\<close>: one definition per handler, the dispatch
  \<open>handle\<close>, the read path \<open>service\<close> with its reassembly loop, and \<open>run\<close>. The
  receive buffers are kept beside the server object because only \<^verbatim>\<open>service\<close> touches them.
\<close>

section \<open>Handlers\<close>

definition status :: "server \<Rightarrow> cid \<Rightarrow> nat" where
  "status s c =
     (case room_of s c of
        None \<Rightarrow> 1
      | Some r \<Rightarrow>
          (let n = length (members s r);
               busy = (if rm_started (sv_rm s r) \<or> n \<ge> MAX_SEATS then 0x80 else 0)
           in busy OR n))"

definition listed :: "server \<Rightarrow> cid \<Rightarrow> cid list" where
  "listed s c =
     take 8 (filter (\<lambda>k. k \<noteq> c \<and> name_of s k \<noteq> None \<and> name_of s k \<noteq> Some [])
       (dict_values (sv_by_name s)))"

definition lobby_entry :: "server \<Rightarrow> cid \<Rightarrow> exn + byte list" where
  "lobby_entry s k =
     (case pad_name (name_of s k) of
        Inl e \<Rightarrow> Inl e
      | Inr nm \<Rightarrow>
          (case bytes_of [int (status s k)] of Inl e \<Rightarrow> Inl e | Inr st \<Rightarrow> Inr (nm @ st)))"

definition on_list :: "cid \<Rightarrow> sstmt" where
  "on_list c s =
     bind_val (bytes_of [int (length (listed s c))]) (\<lambda>n.
     bind_val (map_val (lobby_entry s) (listed s c)) (\<lambda>es.
       send_frame c T_LOBBY (n @ concat es))) s"

definition set_name :: "cid \<Rightarrow> pystr \<Rightarrow> server \<Rightarrow> server" where
  "set_name c name s =
     (let s1 =
            (case name_of s c of
               None \<Rightarrow> s
             | Some old_name \<Rightarrow>
                 if old_name = name then s
                 else log_it (LRename (client_repr s c) name)
                   (if dict_get (sv_by_name s) old_name = Some c
                    then s\<lparr>sv_by_name := dict_del (sv_by_name s) old_name\<rparr> else s));
          s2 = upd_cl c (\<lambda>k. k\<lparr>cl_name := Some name\<rparr>) s1;
          s3 = s2\<lparr>sv_by_name := dict_set (sv_by_name s2) name c\<rparr>
      in lobby_update (log_it (LHello (client_repr s3 c)) s3))"

definition on_hello :: "cid \<Rightarrow> byte list \<Rightarrow> sstmt" where
  "on_hello c payload s =
     (if length payload < 3 then (s, Some (ProtocolError ShortHello))
      else if unat (payload ! 0) \<noteq> PROTO_VER
      then (s, Some (ProtocolError (BadVersion (unat (payload ! 0)))))
      else
        (let name = name_of_payload (tl payload)
         in if \<not> valid_name name then (s, Some (ProtocolError (BadName name)))
            else
              seq (case dict_get (sv_by_name s) name of
                     None \<Rightarrow> skip
                   | Some old \<Rightarrow> if old \<noteq> c then drop_client old Replaced else skip)
              (seq (update (set_name c name)) (on_list c)) s))"

definition joinable :: "server \<Rightarrow> cid \<Rightarrow> cid \<Rightarrow> bool" where
  "joinable s c target \<longleftrightarrow>
     \<not> (target = c \<or> name_of s target = None \<or>
        (case room_of s target of
           None \<Rightarrow> False
         | Some r \<Rightarrow> rm_started (sv_rm s r) \<or> length (members s r) \<ge> MAX_SEATS))"

text \<open>\<^verbatim>\<open>room = target.room\<close>, created when the target is alone.\<close>

definition target_room :: "cid \<Rightarrow> server \<Rightarrow> rid \<times> server" where
  "target_room target s =
     (case room_of s target of
        Some r \<Rightarrow> (r, s)
      | None \<Rightarrow>
          (let r = sv_next_rm s
           in (r, upd_cl target (\<lambda>k. k\<lparr>cl_room := Some r\<rparr>)
                    (s\<lparr>sv_next_rm := Suc r, sv_rm := (sv_rm s)(r := room_init target)\<rparr>))))"

definition enter_room :: "cid \<Rightarrow> rid \<Rightarrow> server \<Rightarrow> server" where
  "enter_room c r s =
     (let s1 = upd_rm r (\<lambda>k. k\<lparr>rm_members := rm_members k @ [c]\<rparr>) s;
          s2 = upd_cl c (\<lambda>k. k\<lparr>cl_room := Some r\<rparr>) s1
      in log_it (LJoin (client_repr s2 c) (room_repr s2 r)) s2)"

text \<open>\<^verbatim>\<open>random.randrange(1, 0x10000)\<close>.\<close>

definition randrange :: "nat \<Rightarrow> nat" where
  "randrange raw = 1 + raw mod (0x10000 - 1)"

definition start_room :: "rid \<Rightarrow> sstmt" where
  "start_room r s =
     (let s1 = upd_rm r (\<lambda>k. k\<lparr>rm_started := True,
                    rm_seed := randrange (sv_rng s (sv_rng_pos s)), rm_crc := [], rm_crc_ok := 0\<rparr>)
                 (s\<lparr>sv_rng_pos := Suc (sv_rng_pos s)\<rparr>);
          seed = rm_seed (sv_rm s1 r)
      in bind_val (bytes_of [int (length (members s1 r)), int (lo8 seed), int (hi8 seed), sv_delay s1])
           (\<lambda>hdr. bind_val (roster s1 r) (\<lambda>ros.
              seq (for_members r (\<lambda>i m. bind_val (bytes_of [int i]) (\<lambda>st.
                     send_frame m T_START (st @ hdr @ ros))))
                  (\<lambda>x. update lobby_update
                     (log_it (LMatch (room_repr x r) (length (members x r)) (rm_seed (sv_rm x r))) x)))) s1)"

definition on_join :: "cid \<Rightarrow> byte list \<Rightarrow> sstmt" where
  "on_join c payload s =
     (if name_of s c = None then (s, Some (ProtocolError JoinBeforeHello))
      else if room_of s c \<noteq> None then (s, None)
      else
        (case dict_get (sv_by_name s) (name_of_payload payload) of
           None \<Rightarrow> on_list c s
         | Some target \<Rightarrow>
             if \<not> joinable s c target then on_list c s
             else
               (case target_room target s of
                  (r, s1) \<Rightarrow>
                    seq (room_broadcast r)
                    (seq (update lobby_update)
                         (\<lambda>x. if sv_auto_go x \<noteq> 0 \<and> int (length (members x r)) \<ge> sv_auto_go x
                              then start_room r x else (x, None))) (enter_room c r s1))))"

definition on_go :: "cid \<Rightarrow> sstmt" where
  "on_go c s =
     (case room_of s c of
        None \<Rightarrow> (s, None)
      | Some r \<Rightarrow>
          if rm_started (sv_rm s r) then (s, None)
          else bind_val (seat s c) (\<lambda>st.
            if st \<noteq> Some 0 then skip
            else if \<not> (2 \<le> length (members s r) \<and> length (members s r) \<le> MAX_SEATS) then skip
            else start_room r) s)"

text \<open>\<^verbatim>\<open>room.crc\<close> after \<^verbatim>\<open>setdefault\<close>, the store, and the eviction of the lowest tick.\<close>

definition crc_entry :: "room \<Rightarrow> nat \<Rightarrow> (nat, nat) dict" where
  "crc_entry k tick = (case dict_get (rm_crc k) tick of None \<Rightarrow> [] | Some e \<Rightarrow> e)"

definition crc_evict :: "(nat, (nat, nat) dict) dict \<Rightarrow> (nat, (nat, nat) dict) dict" where
  "crc_evict d = (if length d > 64 then dict_del d (Min (set (dict_keys d))) else d)"

definition crc_store :: "room \<Rightarrow> nat \<Rightarrow> nat \<Rightarrow> nat \<Rightarrow> room" where
  "crc_store k tick seat_no crc =
     k\<lparr>rm_crc := crc_evict (dict_set (rm_crc k) tick (dict_set (crc_entry k tick) seat_no crc))\<rparr>"

text \<open>The verdict on a complete round, with the line it logs.\<close>

definition crc_verdict :: "room \<Rightarrow> nat \<Rightarrow> (nat, nat) dict \<Rightarrow> room \<times> log_event option" where
  "crc_verdict k tick entry =
     (let k1 = k\<lparr>rm_crc := dict_del (rm_crc k) tick\<rparr>
      in if length (remdups (dict_values entry)) \<noteq> 1
         then (k1, Some (LCrcMismatch tick (sort_key fst entry)))
         else
           (let k2 = k1\<lparr>rm_crc_ok := Suc (rm_crc_ok k1)\<rparr>
            in (k2, if rm_crc_ok k2 mod 4 = 0 then Some (LCrcOk tick (rm_crc_ok k2)) else None)))"

definition crc_round :: "room \<Rightarrow> nat \<Rightarrow> nat \<Rightarrow> nat \<Rightarrow> room \<times> log_event option" where
  "crc_round k tick seat_no crc =
     (let entry = dict_set (crc_entry k tick) seat_no crc;
          k1 = crc_store k tick seat_no crc
      in if length entry < length (rm_members k1) then (k1, None)
         else crc_verdict k1 tick entry)"

definition log_crc :: "rid \<Rightarrow> byte list \<Rightarrow> server \<Rightarrow> server" where
  "log_crc r payload s =
     (case crc_round (sv_rm s r) (le16 (payload ! 1) (payload ! 2)) (unat (payload ! 0))
             (le16 (payload ! 3) (payload ! 4)) of
        (k, None) \<Rightarrow> upd_rm r (\<lambda>_. k) s
      | (k, Some e) \<Rightarrow> log_it e (upd_rm r (\<lambda>_. k) s))"

definition relay_frame :: "cid \<Rightarrow> byte \<Rightarrow> byte list \<Rightarrow> sstmt" where
  "relay_frame c ftype payload s =
     (case room_of s c of
        None \<Rightarrow> (s, None)
      | Some r \<Rightarrow>
          if \<not> rm_started (sv_rm s r) then (s, None)
          else
            seq (update (if ftype = T_CRC \<and> length payload = 5 then log_crc r payload else id))
                (bind_val (frame ftype payload) (\<lambda>data.
                   for_members r (\<lambda>_ m. if m \<noteq> c then send m data else skip))) s)"

definition handle :: "cid \<Rightarrow> byte \<Rightarrow> byte list \<Rightarrow> sstmt" where
  "handle c ftype payload =
     (if ftype \<in> set RELAY_TYPES then relay_frame c ftype payload
      else if ftype = T_HELLO then on_hello c payload
      else if ftype = T_LIST then on_list c
      else if ftype = T_JOIN then on_join c payload
      else if ftype = T_GO then on_go c
      else if ftype = T_BYE then drop_client c Bye
      else if ftype = T_PING then send_frame c T_PONG []
      else raise (ProtocolError (UnknownType ftype)))"

section \<open>The read path\<close>

text \<open>
  The loop of \<^verbatim>\<open>service\<close> over the receive buffer. A protocol error drops the client; any
  other exception leaves the loop.
\<close>

function service_loop :: "cid \<Rightarrow> byte list \<Rightarrow> server \<Rightarrow> server \<times> byte list \<times> exn option" where
  "service_loop c rx s =
     (case rx of
        [] \<Rightarrow> (s, [], None)
      | l # rest \<Rightarrow>
          (let need = unat l + 1
           in if need < 2 \<or> unat l > 200
              then (case drop_client c (BadFrameLength (unat l)) s of (s', e) \<Rightarrow> (s', rx, e))
              else if length rx < need then (s, rx, None)
              else
                (let body = take (unat l) rest; rx' = drop need rx
                 in case handle c (hd body) (tl body) s of
                      (s', Some (ProtocolError e)) \<Rightarrow>
                        (case drop_client c (Protocol e) s' of (s'', x) \<Rightarrow> (s'', rx', x))
                    | (s', Some e) \<Rightarrow> (s', rx', Some e)
                    | (s', None) \<Rightarrow>
                        if dead s' c then (s', rx', None) else service_loop c rx' s')))"
  by pat_completeness auto
termination
  by (relation "measure (\<lambda>(c, rx, s). length rx)") auto

declare service_loop.simps [simp del]

record relay =
  rl_server :: server
  rl_rx :: "cid \<Rightarrow> byte list"

text \<open>What \<^verbatim>\<open>recv(4096)\<close> yields; the length of the data is left open.\<close>

datatype recv_res = RecvBlock | RecvFail | RecvData "byte list"

definition on_server :: "sstmt \<Rightarrow> (relay, exn) stmt" where
  "on_server f x = (case f (rl_server x) of (s, e) \<Rightarrow> (x\<lparr>rl_server := s\<rparr>, e))"

definition service :: "cid \<Rightarrow> recv_res \<Rightarrow> (relay, exn) stmt" where
  "service c res x =
     (case res of
        RecvBlock \<Rightarrow> (x, None)
      | RecvFail \<Rightarrow> on_server (drop_client c RecvError) x
      | RecvData data \<Rightarrow>
          if data = [] then on_server (drop_client c Closed) x
          else
            (case service_loop c (rl_rx x c @ data) (rl_server x) of
               (s, rx, e) \<Rightarrow> (x\<lparr>rl_server := s, rl_rx := (rl_rx x)(c := rx)\<rparr>, e)))"

section \<open>The event loop\<close>

text \<open>One ready client: the body of the loop over \<^verbatim>\<open>select\<close>'s result, exceptions caught.\<close>

definition serve_body :: "cid \<Rightarrow> bool \<Rightarrow> recv_res option \<Rightarrow> (relay, exn) stmt" where
  "serve_body c writable readable =
     seq (\<lambda>x. if writable \<and> \<not> dead (rl_server x) c then on_server (flush c) x else (x, None))
         (\<lambda>x. case readable of
                None \<Rightarrow> (x, None)
              | Some res \<Rightarrow> if \<not> dead (rl_server x) c then service c res x else (x, None))"

definition serve :: "cid \<Rightarrow> bool \<Rightarrow> recv_res option \<Rightarrow> (relay, exn) stmt" where
  "serve c writable readable x =
     (case serve_body c writable readable x of
        (x', None) \<Rightarrow> (x', None)
      | (x', Some e) \<Rightarrow>
          on_server (seq (\<lambda>s. update (log_it (LUnexpected (client_repr s c) e)) s)
                         (drop_client c InternalError)) x')"

text \<open>
  What one \<^verbatim>\<open>select\<close> delivers: a new connection (or an \<^verbatim>\<open>OSError\<close> from
  \<^verbatim>\<open>srv.accept()\<close>, or from setting the options of the new socket, which nothing
  catches), or a ready client. The lobby's worker thread moves between events.
\<close>

datatype event =
    Accepted "nat \<times> nat" real "send_res list"
  | AcceptFails
  | Ready cid bool "recv_res option"
  | LobbyMoves action

text \<open>The steps of the worker and of time; the others are the server's own calls.\<close>

fun worker_action :: "action \<Rightarrow> bool" where
  "worker_action LoopHead = True"
| "worker_action Woken = True"
| "worker_action WaitTimeout = True"
| "worker_action (Posted r) = True"
| "worker_action DebounceEnds = True"
| "worker_action (Elapse dt) = True"
| "worker_action _ = False"

fun on_event :: "event \<Rightarrow> (relay, exn) stmt" where
  "on_event (Accepted addr now script) x =
     (x\<lparr>rl_server := accept addr now script (rl_server x),
        rl_rx := (if sv_next_cl (accept addr now script (rl_server x)) = sv_next_cl (rl_server x)
                  then rl_rx x else (rl_rx x)(sv_next_cl (rl_server x) := []))\<rparr>, None)"
| "on_event AcceptFails x = (x, Some OSError)"
| "on_event (Ready c w r) x = serve c w r x"
| "on_event (LobbyMoves a) x =
     (case sv_lobby (rl_server x) of
        None \<Rightarrow> (x, None)
      | Some p \<Rightarrow>
          (case (if worker_action a then pub_step a p else None) of
             None \<Rightarrow> (x, None)
           | Some p' \<Rightarrow> (x\<lparr>rl_server := (rl_server x)\<lparr>sv_lobby := Some p'\<rparr>\<rparr>, None)))"

record loop =
  lp_relay :: relay
  lp_last_sweep :: real
  lp_last_stats :: real

definition on_relay :: "(relay, exn) stmt \<Rightarrow> (loop, exn) stmt" where
  "on_relay f x = (case f (lp_relay x) of (y, e) \<Rightarrow> (x\<lparr>lp_relay := y\<rparr>, e))"

definition timers :: "real \<Rightarrow> (loop, exn) stmt" where
  "timers now =
     seq (\<lambda>x. if now - lp_last_sweep x \<ge> 1
              then on_relay (on_server (sweep now)) (x\<lparr>lp_last_sweep := now\<rparr>) else (x, None))
         (\<lambda>x. if now - lp_last_stats x \<ge> STATS_INTERVAL
              then on_relay (on_server (update log_stats)) (x\<lparr>lp_last_stats := now\<rparr>)
              else (x, None))"

text \<open>One turn of \<^verbatim>\<open>while True\<close>, and a run of them.\<close>

definition turn :: "event list \<times> real \<Rightarrow> (loop, exn) stmt" where
  "turn t = (case t of (es, now) \<Rightarrow> seq (on_relay (for_each on_event es)) (timers now))"

definition run :: "(event list \<times> real) list \<Rightarrow> (loop, exn) stmt" where
  "run = for_each turn"

definition relay_init :: "server \<Rightarrow> relay" where
  "relay_init s = \<lparr>rl_server = s, rl_rx = (\<lambda>_. [])\<rparr>"

definition loop_init :: "server \<Rightarrow> real \<Rightarrow> loop" where
  "loop_init s now = \<lparr>lp_relay = relay_init s, lp_last_sweep = now, lp_last_stats = now\<rparr>"

section \<open>main\<close>

text \<open>
  The command line, its defaults, the server \<^verbatim>\<open>main\<close> builds from it (the options for
  the port and for debug output do not reach the model), and its \<^verbatim>\<open>finally\<close>: the lobby
  is shut down however \<open>run\<close> ends.
\<close>

record args =
  ar_delay :: int
  ar_auto_go :: int
  ar_lobby_enabled :: bool
  ar_lobby_url :: pystr
  ar_lobby_serverurl :: pystr
  ar_lobby_client_url :: pystr
  ar_lobby_appkey :: int
  ar_game_name :: pystr
  ar_server_name :: pystr

definition default_args :: args where
  "default_args = \<lparr>ar_delay = DEFAULT_DELAY, ar_auto_go = 0, ar_lobby_enabled = False,
     ar_lobby_url = str_of ''https://lobby.fujinet.online'',
     ar_lobby_serverurl = str_of ''TCP://fujinet.online:9109/'',
     ar_lobby_client_url = str_of ''TNFS://apps.irata.online/Intellivision/Games/NASLSoccer.rom'',
     ar_lobby_appkey = 17, ar_game_name = str_of ''NASL Soccer'',
     ar_server_name = str_of ''Soccer Netplay''\<rparr>"

definition main_lobby :: "args \<Rightarrow> publisher option" where
  "main_lobby a =
     (if ar_lobby_enabled a
      then Some (pub_update 0 (publisher_init (ar_lobby_url a) (ar_lobby_serverurl a)
             (ar_lobby_client_url a) (ar_lobby_appkey a) (str_of ''us'') (ar_game_name a)
             (ar_server_name a)))
      else None)"

definition main_server :: "args \<Rightarrow> (nat \<Rightarrow> nat) \<Rightarrow> server" where
  "main_server a rng = server_init (ar_delay a) (main_lobby a) (ar_auto_go a) rng"

definition main_run ::
    "args \<Rightarrow> (nat \<Rightarrow> nat) \<Rightarrow> real \<Rightarrow> (event list \<times> real) list \<Rightarrow> loop \<times> exn option" where
  "main_run a rng now ts = run ts (loop_init (main_server a rng) now)"

definition main_finally :: "loop \<Rightarrow> publisher option" where
  "main_finally x = map_option shutdown_begin (sv_lobby (rl_server (lp_relay x)))"

end
