(* ===== verification/Invariant.thy ===== *)
theory Invariant
  imports Protocol
begin

text \<open>
  The invariant of the relay's state and what the plumbing keeps of it. The clauses
  follow the components: names and the name table, the set of clients and its limits, the
  transmit buffers and the selector, rooms, CRC tables, the lobby's player count.
  \<open>winv X\<close> excuses the clients in \<open>X\<close> from the transmit clause, which does not
  hold while a send is under way.
\<close>

named_theorems store_simps \<open>unfolding of the accesses to the object store\<close>

declare upd_cl_def [store_simps] upd_rm_def [store_simps] log_it_def [store_simps]
  leave_room_def [store_simps] clear_members_def [store_simps]

section \<open>The clauses\<close>

definition names_ok :: "server \<Rightarrow> bool" where
  "names_ok s \<longleftrightarrow> (\<forall>c n. name_of s c = Some n \<longrightarrow> valid_name n)"

definition by_name_ok :: "server \<Rightarrow> bool" where
  "by_name_ok s \<longleftrightarrow>
     distinct (dict_keys (sv_by_name s)) \<and>
     (\<forall>n c. (n, c) \<in> set (sv_by_name s) \<longrightarrow> name_of s c = Some n) \<and>
     (\<forall>n c. \<not> dead s c \<and> name_of s c = Some n \<longrightarrow> (n, c) \<in> set (sv_by_name s))"

definition clients_ok :: "server \<Rightarrow> bool" where
  "clients_ok s \<longleftrightarrow>
     distinct (sv_clients s) \<and>
     (\<forall>c. c \<in> set (sv_clients s) \<longleftrightarrow> \<not> dead s c) \<and>
     (\<forall>c \<ge> sv_next_cl s. sv_cl s c = no_client) \<and>
     length (sv_clients s) \<le> MAX_CLIENTS \<and>
     (\<forall>ip. per_ip s ip \<le> MAX_CONNECTIONS_PER_IP)"

definition tx_ok :: "cid set \<Rightarrow> server \<Rightarrow> bool" where
  "tx_ok X s \<longleftrightarrow>
     (\<forall>c. c \<notin> X \<longrightarrow> length (cl_tx (sv_cl s c)) \<le> MAX_TX_BACKLOG \<and>
        sv_sel s c = (if dead s c then None else Some (cl_tx (sv_cl s c) \<noteq> [])))"

definition rooms_ok :: "server \<Rightarrow> bool" where
  "rooms_ok s \<longleftrightarrow>
     (\<forall>r. members s r = [] \<or> length (members s r) = 2 \<and> distinct (members s r)) \<and>
     (\<forall>c r. c \<in> set (members s r) \<longleftrightarrow> room_of s c = Some r) \<and>
     (\<forall>c. room_of s c \<noteq> None \<longrightarrow> name_of s c \<noteq> None) \<and>
     (\<forall>r \<ge> sv_next_rm s. sv_rm s r = no_room)"

definition crc_table_ok :: "room \<Rightarrow> bool" where
  "crc_table_ok k \<longleftrightarrow>
     length (rm_crc k) \<le> 64 \<and> distinct (dict_keys (rm_crc k)) \<and>
     (\<forall>e \<in> set (dict_values (rm_crc k)). distinct (dict_keys e))"

definition crcs_ok :: "server \<Rightarrow> bool" where
  "crcs_ok s \<longleftrightarrow> (\<forall>r. crc_table_ok (sv_rm s r))"

definition lobby_ok :: "server \<Rightarrow> bool" where
  "lobby_ok s \<longleftrightarrow>
     0 \<le> sv_delay s \<and> sv_delay s < 256 \<and>
     (\<forall>p. sv_lobby s = Some p \<longrightarrow> pub_inv p \<and>
        (\<not> pb_stopping p \<longrightarrow> pl_curplayers (pb_payload p) = int (length (sv_by_name s))))"

definition winv :: "cid set \<Rightarrow> server \<Rightarrow> bool" where
  "winv X s \<longleftrightarrow>
     names_ok s \<and> by_name_ok s \<and> clients_ok s \<and> tx_ok X s \<and> rooms_ok s \<and> crcs_ok s \<and> lobby_ok s"

lemmas winv_parts = names_ok_def by_name_ok_def clients_ok_def tx_ok_def rooms_ok_def
  crcs_ok_def lobby_ok_def

lemma by_name_okI:
  assumes "distinct (dict_keys (sv_by_name s))"
    and "\<And>n c. (n, c) \<in> set (sv_by_name s) \<Longrightarrow> name_of s c = Some n"
    and "\<And>n c. \<not> dead s c \<Longrightarrow> name_of s c = Some n \<Longrightarrow> (n, c) \<in> set (sv_by_name s)"
  shows "by_name_ok s"
  unfolding by_name_ok_def
proof (intro conjI allI impI)
  show "name_of s c = Some n" if "(n, c) \<in> set (sv_by_name s)" for n c
    using that by (rule assms(2))
  show "(n, c) \<in> set (sv_by_name s)" if "\<not> dead s c \<and> name_of s c = Some n" for n c
    using conjunct1 [OF that] conjunct2 [OF that] by (rule assms(3))
qed (rule assms(1))

lemma by_name_okD:
  assumes "by_name_ok s"
  shows "distinct (dict_keys (sv_by_name s))"
    and "(n, c) \<in> set (sv_by_name s) \<Longrightarrow> name_of s c = Some n"
    and "\<not> dead s c \<Longrightarrow> name_of s c = Some n \<Longrightarrow> (n, c) \<in> set (sv_by_name s)"
  using assms unfolding by_name_ok_def by blast+

lemma roomsD:
  assumes "rooms_ok s"
  shows "members s r = [] \<or> length (members s r) = 2 \<and> distinct (members s r)"
    and "c \<in> set (members s r) \<longleftrightarrow> room_of s c = Some r"
    and "room_of s c \<noteq> None \<Longrightarrow> name_of s c \<noteq> None"
    and "sv_next_rm s \<le> r \<Longrightarrow> sv_rm s r = no_room"
  using assms unfolding rooms_ok_def by blast+

text \<open>The clauses read the lobby only through \<open>lobby_ok\<close>.\<close>

lemma lobby_update_fields [simp]:
  "sv_cl (lobby_update s) = sv_cl s" "sv_rm (lobby_update s) = sv_rm s"
  "sv_by_name (lobby_update s) = sv_by_name s" "sv_clients (lobby_update s) = sv_clients s"
  "sv_sel (lobby_update s) = sv_sel s" "sv_next_cl (lobby_update s) = sv_next_cl s"
  "sv_next_rm (lobby_update s) = sv_next_rm s" "sv_delay (lobby_update s) = sv_delay s"
  "sv_auto_go (lobby_update s) = sv_auto_go s" "sv_rng (lobby_update s) = sv_rng s"
  "sv_rng_pos (lobby_update s) = sv_rng_pos s" "sv_stats (lobby_update s) = sv_stats s"
  "sv_log (lobby_update s) = sv_log s" "sv_last_stats (lobby_update s) = sv_last_stats s"
  by (simp_all add: lobby_update_def split: option.splits)

lemma per_ip_addr:
  "sv_clients t = sv_clients s \<Longrightarrow> (\<And>k. cl_addr (sv_cl t k) = cl_addr (sv_cl s k)) \<Longrightarrow>
   per_ip t ip = per_ip s ip"
  by (simp add: per_ip_def)

lemma alive_allocated: "clients_ok s \<Longrightarrow> \<not> dead s c \<Longrightarrow> c < sv_next_cl s"
  unfolding clients_ok_def no_client_def by (metis client.select_convs(6) not_le)

lemma lobby_update_parts [simp]:
  "names_ok (lobby_update s) = names_ok s" "by_name_ok (lobby_update s) = by_name_ok s"
  "clients_ok (lobby_update s) = clients_ok s" "tx_ok X (lobby_update s) = tx_ok X s"
  "rooms_ok (lobby_update s) = rooms_ok s" "crcs_ok (lobby_update s) = crcs_ok s"
  by (simp_all add: winv_parts per_ip_def)

lemma lobby_update_counts:
  assumes "0 \<le> sv_delay s" and "sv_delay s < 256"
    and "\<And>p. sv_lobby s = Some p \<Longrightarrow> pub_inv p"
  shows "lobby_ok (lobby_update s)"
  using assms
  by (auto simp: lobby_ok_def lobby_update_def pub_update_inv split: option.splits)

lemma lobby_okD: "lobby_ok s \<Longrightarrow> sv_lobby s = Some p \<Longrightarrow> pub_inv p"
  by (simp add: lobby_ok_def)

lemma lobby_update_inv: "winv X s \<Longrightarrow> winv X (lobby_update s)"
  by (auto simp: winv_def intro!: lobby_update_counts dest: lobby_okD) (auto simp: lobby_ok_def)

lemma log_it_inv [simp]: "winv X (log_it e s) = winv X s"
  by (simp add: winv_def winv_parts store_simps per_ip_def)

lemma stats_inv [simp]: "winv X (s\<lparr>sv_stats := t\<rparr>) = winv X s"
  by (simp add: winv_def winv_parts per_ip_def)

lemma winv_mono: "winv X s \<Longrightarrow> X \<subseteq> Y \<Longrightarrow> winv Y s"
  by (auto simp: winv_def tx_ok_def)

section \<open>The first half of drop\<close>

lemma fold_dict_del: "fold (\<lambda>n d. dict_del d n) ns d = filter (\<lambda>e. fst e \<notin> set ns) d"
  by (induction ns arbitrary: d) (auto simp: dict_del_def filter_filter conj_commute)

lemma stale_filter:
  assumes "by_name_ok s"
  shows "fold (\<lambda>n d. dict_del d n) (stale_names s c) (sv_by_name s) =
    filter (\<lambda>e. snd e \<noteq> c) (sv_by_name s)"
proof -
  have "\<And>e. e \<in> set (sv_by_name s) \<Longrightarrow> fst e \<in> set (stale_names s c) \<longleftrightarrow> snd e = c"
  proof -
    fix e assume e: "e \<in> set (sv_by_name s)"
    have "\<And>k. (fst e, k) \<in> set (sv_by_name s) \<Longrightarrow> k = snd e"
      using assms e dict_get_in [of "sv_by_name s"]
      by (metis by_name_ok_def option.inject prod.collapse)
    then show "fst e \<in> set (stale_names s c) \<longleftrightarrow> snd e = c"
      using e by (force simp: stale_names_def image_iff)
  qed
  then show ?thesis by (simp add: fold_dict_del cong: filter_cong)
qed

lemma drop_unhook_fields [simp]:
  "sv_cl (drop_unhook c why s) = (sv_cl s)(c := (sv_cl s c)\<lparr>cl_dead := True\<rparr>)"
  "sv_rm (drop_unhook c why s) = sv_rm s" "sv_next_cl (drop_unhook c why s) = sv_next_cl s"
  "sv_next_rm (drop_unhook c why s) = sv_next_rm s" "sv_delay (drop_unhook c why s) = sv_delay s"
  "sv_auto_go (drop_unhook c why s) = sv_auto_go s" "sv_rng (drop_unhook c why s) = sv_rng s"
  "sv_rng_pos (drop_unhook c why s) = sv_rng_pos s" "sv_stats (drop_unhook c why s) = sv_stats s"
  "sv_sel (drop_unhook c why s) = (sv_sel s)(c := None)"
  "sv_clients (drop_unhook c why s) = removeAll c (sv_clients s)"
  "sv_log (drop_unhook c why s) = LDrop (client_repr s c) why # sv_log s"
  by (simp_all add: drop_unhook_def Let_def store_simps)

lemma stale_names_Nil: "stale_names s c = [] \<Longrightarrow> filter (\<lambda>e. snd e \<noteq> c) (sv_by_name s) = sv_by_name s"
  by (auto simp: stale_names_def filter_empty_conv filter_id_conv)

lemma drop_unhook_by_name:
  assumes "by_name_ok s"
  shows "sv_by_name (drop_unhook c why s) = filter (\<lambda>e. snd e \<noteq> c) (sv_by_name s)"
proof -
  let ?t = "(log_it (LDrop (client_repr s c) why) (upd_cl c (\<lambda>k. k\<lparr>cl_dead := True\<rparr>) s))
    \<lparr>sv_sel := (sv_sel s)(c := None), sv_clients := removeAll c (sv_clients s)\<rparr>"
  have "stale_names ?t c = stale_names s c" "sv_by_name ?t = sv_by_name s"
    by (simp_all add: stale_names_def store_simps)
  then show ?thesis
    using stale_filter [OF assms, of c] stale_names_Nil [of s c]
    by (auto simp: drop_unhook_def Let_def store_simps)
qed

lemma drop_unhook_lobby:
  assumes "lobby_ok s" and "by_name_ok s"
  shows "lobby_ok (drop_unhook c why s)"
proof -
  let ?t = "(log_it (LDrop (client_repr s c) why) (upd_cl c (\<lambda>k. k\<lparr>cl_dead := True\<rparr>) s))
    \<lparr>sv_sel := (sv_sel s)(c := None), sv_clients := removeAll c (sv_clients s)\<rparr>"
  have st: "stale_names ?t c = stale_names s c"
    by (simp add: stale_names_def store_simps)
  show ?thesis
  proof (cases "stale_names s c = []")
    case True
    with assms(1) show ?thesis
      by (simp add: drop_unhook_def Let_def st [unfolded log_it_def upd_cl_def, simplified]
          store_simps lobby_ok_def)
  next
    case False
    with assms(1) show ?thesis
      by (auto simp: drop_unhook_def Let_def st [unfolded log_it_def upd_cl_def, simplified]
          store_simps intro!: lobby_update_counts) (auto simp: lobby_ok_def)
  qed
qed

lemma per_ip_remove:
  assumes "\<And>k. k \<noteq> c \<Longrightarrow> cl_addr (sv_cl t k) = cl_addr (sv_cl s k)"
    and "sv_clients t = removeAll c (sv_clients s)"
  shows "per_ip t ip \<le> per_ip s ip"
proof -
  have "filter (\<lambda>k. fst (cl_addr (sv_cl t k)) = ip) (sv_clients t) =
      filter (\<lambda>k. fst (cl_addr (sv_cl s k)) = ip) (removeAll c (sv_clients s))"
    using assms by (auto intro!: filter_cong)
  also have "\<dots> = removeAll c (filter (\<lambda>k. fst (cl_addr (sv_cl s k)) = ip) (sv_clients s))"
    by (simp add: removeAll_filter_not_eq conj_commute)
  finally show ?thesis
    by (simp add: per_ip_def length_removeAll_less_eq)
qed

lemma drop_unhook_clients:
  assumes "clients_ok s" and "\<not> dead s c"
  shows "clients_ok (drop_unhook c why s)"
proof -
  let ?t = "drop_unhook c why s"
  have len: "length (removeAll c (sv_clients s)) \<le> length (sv_clients s)"
    by (rule length_removeAll_less_eq)
  have ip: "\<And>ip. per_ip ?t ip \<le> per_ip s ip"
    by (rule per_ip_remove) simp_all
  have "c < sv_next_cl s"
    using assms by (rule alive_allocated)
  then have "\<forall>k \<ge> sv_next_cl ?t. sv_cl ?t k = no_client"
    using assms(1) by (simp add: clients_ok_def)
  moreover have "distinct (sv_clients ?t)" "\<forall>k. k \<in> set (sv_clients ?t) \<longleftrightarrow> \<not> dead ?t k"
    using assms(1) by (simp_all add: clients_ok_def distinct_removeAll)
  moreover have "length (sv_clients ?t) \<le> MAX_CLIENTS"
    using assms(1) order.trans [OF len] by (simp add: clients_ok_def)
  moreover have "per_ip ?t i \<le> MAX_CONNECTIONS_PER_IP" for i
    using assms(1) ip [of i] by (meson clients_ok_def le_trans)
  ultimately show ?thesis by (simp add: clients_ok_def)
qed

lemma drop_unhook_inv:
  assumes inv: "winv X s" and "\<not> dead s c" and "X \<subseteq> {c}"
    and len: "c \<in> X \<Longrightarrow> length (cl_tx (sv_cl s c)) \<le> MAX_TX_BACKLOG"
  shows "winv {} (drop_unhook c why s)"
proof -
  let ?t = "drop_unhook c why s"
  from inv have bn: "by_name_ok s" by (simp add: winv_def)
  from inv have "names_ok ?t" by (auto simp: winv_def names_ok_def split: if_splits)
  moreover have "by_name_ok ?t"
  proof -
    have "distinct (dict_keys (sv_by_name ?t))"
      using bn by (simp add: by_name_ok_def drop_unhook_by_name [OF bn] dict_keys_def
          distinct_map_filter)
    moreover have "(n, k) \<in> set (sv_by_name ?t) \<longleftrightarrow> (n, k) \<in> set (sv_by_name s) \<and> k \<noteq> c" for n k
      by (simp add: drop_unhook_by_name [OF bn])
    ultimately show ?thesis
      by (intro by_name_okI) (auto dest: by_name_okD(2) [OF bn] intro: by_name_okD(3) [OF bn]
          split: if_splits)
  qed
  moreover from inv assms(2) have "clients_ok ?t"
    by (simp add: winv_def drop_unhook_clients)
  moreover from inv assms(3) len have "tx_ok {} ?t"
    by (auto simp: winv_def tx_ok_def)
  moreover from inv have "rooms_ok ?t" by (simp add: winv_def rooms_ok_def)
  moreover from inv have "crcs_ok ?t" by (simp add: winv_def crcs_ok_def)
  moreover from inv have "lobby_ok ?t" by (simp add: winv_def drop_unhook_lobby)
  ultimately show ?thesis by (simp add: winv_def)
qed

end
