(* ===== verification/Plumbing.thy ===== *)
theory Plumbing
  imports Invariant
begin

text \<open>
  The transmit path and \<open>drop\<close> keep the invariant and raise nothing. The interface
  between them is the locale \<open>dropper\<close>: what \<open>send\<close> and \<open>flush\<close> rely on when they
  drop a client. The recursion of \<open>drop\<close> through \<open>send\<close> needs two levels: one level
  serves clients without a room, and dissolving a room takes its members out before any of
  them is sent to.
\<close>

section \<open>What later states keep\<close>

definition later :: "server \<Rightarrow> server \<Rightarrow> bool" where
  "later s t \<longleftrightarrow>
     sv_delay t = sv_delay s \<and> sv_auto_go t = sv_auto_go s \<and> sv_next_cl t = sv_next_cl s \<and>
     sv_next_rm t = sv_next_rm s \<and> sv_rng t = sv_rng s \<and> sv_rng_pos t = sv_rng_pos s \<and>
     (\<forall>k. dead s k \<longrightarrow> dead t k) \<and>
     (\<forall>k. name_of t k = name_of s k) \<and>
     (\<forall>k. cl_addr (sv_cl t k) = cl_addr (sv_cl s k)) \<and>
     (\<forall>k. room_of t k = room_of s k \<or> room_of t k = None) \<and>
     (\<forall>r. members t r = members s r \<or> members t r = []) \<and>
     (\<forall>r. sv_rm t r = (sv_rm s r)\<lparr>rm_members := members t r\<rparr>)"

lemma later_refl [simp]: "later s s"
  by (simp add: later_def)

lemma later_trans:
  assumes "later s t" and "later t u"
  shows "later s u"
proof -
  have "sv_rm u r = (sv_rm s r)\<lparr>rm_members := members u r\<rparr>" for r
  proof -
    have "sv_rm u r = (sv_rm t r)\<lparr>rm_members := members u r\<rparr>"
      using assms(2) unfolding later_def by blast
    moreover have "sv_rm t r = (sv_rm s r)\<lparr>rm_members := members t r\<rparr>"
      using assms(1) unfolding later_def by blast
    ultimately show ?thesis
      by (metis room.update_convs(1) room.surjective)
  qed
  moreover have "room_of u k = room_of s k \<or> room_of u k = None" for k
    using assms unfolding later_def by metis
  moreover have "members u r = members s r \<or> members u r = []" for r
    using assms unfolding later_def by metis
  ultimately show ?thesis
    using assms unfolding later_def by (simp add: all_conj_distrib)
qed

lemma laterD:
  assumes "later s t"
  shows "dead s k \<Longrightarrow> dead t k" and "name_of t k = name_of s k"
    and "room_of s k = None \<Longrightarrow> room_of t k = None"
    and "members t r = members s r \<or> members t r = []"
    and "rm_started (sv_rm t r) = rm_started (sv_rm s r)"
    and "length (members t r) \<le> length (members s r)"
    and "sv_auto_go t = sv_auto_go s" and "sv_delay t = sv_delay s"
proof -
  from assms have r: "sv_rm t r = (sv_rm s r)\<lparr>rm_members := members t r\<rparr>"
    unfolding later_def by blast
  show "rm_started (sv_rm t r) = rm_started (sv_rm s r)" by (subst r) simp
  show m: "members t r = members s r \<or> members t r = []"
    using assms unfolding later_def by blast
  then show "length (members t r) \<le> length (members s r)" by auto
  show "room_of s k = None \<Longrightarrow> room_of t k = None"
    using assms unfolding later_def by metis
qed (use assms in \<open>simp_all add: later_def\<close>)

text \<open>A result without an exception, in a state that keeps the invariant.\<close>

definition good :: "server \<Rightarrow> server \<times> exn option \<Rightarrow> bool" where
  "good s res \<longleftrightarrow> snd res = None \<and> winv {} (fst res) \<and> later s (fst res)"

definition keeps :: "sstmt \<Rightarrow> bool" where
  "keeps f \<longleftrightarrow> (\<forall>s. winv {} s \<longrightarrow> good s (f s))"

lemma keepsI: "(\<And>s. winv {} s \<Longrightarrow> good s (f s)) \<Longrightarrow> keeps f"
  by (simp add: keeps_def)

lemma keepsD: "keeps f \<Longrightarrow> winv {} s \<Longrightarrow> good s (f s)"
  by (simp add: keeps_def)

lemma good_pair: "good s (t, e) \<longleftrightarrow> e = None \<and> winv {} t \<and> later s t"
  by (auto simp: good_def)

lemma good_later: "good t res \<Longrightarrow> later s t \<Longrightarrow> good s res"
  by (auto simp: good_def intro: later_trans)

lemma good_seq:
  assumes "good s (f s)" and "\<And>t. winv {} t \<Longrightarrow> later s t \<Longrightarrow> good t (g t)"
  shows "good s (seq f g s)"
proof -
  obtain t where t: "f s = (t, None)" "winv {} t" "later s t"
    using assms(1) by (metis good_pair prod.collapse)
  with assms(2) [OF t(2,3)] show ?thesis
    by (simp add: stmt_simps good_later)
qed

lemma keeps_seq [intro]: "keeps f \<Longrightarrow> keeps g \<Longrightarrow> keeps (seq f g)"
  by (auto intro!: keepsI good_seq intro: keepsD)

lemma keeps_skip [intro]: "keeps skip"
  by (simp add: keeps_def good_def skip_def)

lemma keeps_for_each: "(\<And>x. x \<in> set xs \<Longrightarrow> keeps (f x)) \<Longrightarrow> keeps (for_each f xs)"
  by (induction xs) auto

lemma keeps_update: "(\<And>s. winv {} s \<Longrightarrow> winv {} (f s) \<and> later s (f s)) \<Longrightarrow> keeps (update f)"
  by (simp add: keeps_def good_def update_def)

lemma later_lobby_update [simp]: "later s (lobby_update s)"
  by (simp add: later_def)

lemma later_log_it [simp]: "later s (log_it e s)"
  by (simp add: later_def store_simps)

lemma later_stats [simp]: "later s (s\<lparr>sv_stats := t\<rparr>)"
  by (simp add: later_def)

lemma keeps_lobby_update [intro]: "keeps (update lobby_update)"
  by (rule keeps_update) (simp add: lobby_update_inv)

lemma good_log: "winv {} s \<Longrightarrow> good s (update (log_it e) s)"
  by (simp add: good_def update_def)

lemma later_drop_unhook [simp]: "later s (drop_unhook c why s)"
  by (simp add: later_def)

text \<open>
  The list of a room's members never grows, so the bound of \<open>for_members\<close> is never what
  ends it, and a loop of statements that keep the invariant keeps it.
\<close>

lemma members_le: "winv X s \<Longrightarrow> length (members s r) \<le> MAX_SEATS"
  using roomsD(1) [of s r] by (auto simp: winv_def MAX_SEATS_def)

lemma keeps_for_members_from:
  assumes "\<And>i m. i < MAX_SEATS \<Longrightarrow> keeps (f i m)"
  shows "keeps (for_members_from k i r f)"
proof (induction k arbitrary: i)
  case 0
  show ?case by (simp add: keeps_def good_def)
next
  case (Suc k)
  show ?case
  proof (rule keepsI)
    fix s assume inv: "winv {} s"
    show "good s (for_members_from (Suc k) i r f s)"
    proof (cases "i < length (members s r)")
      case True
      then have "i < MAX_SEATS" using members_le [OF inv, of r] by simp
      from keepsD [OF keeps_seq [OF assms [OF this] Suc.IH] inv] True show ?thesis by simp
    qed (use inv in \<open>simp add: good_pair\<close>)
  qed
qed

lemma keeps_for_members: "(\<And>i m. i < MAX_SEATS \<Longrightarrow> keeps (f i m)) \<Longrightarrow> keeps (for_members r f)"
  unfolding keeps_def for_members_def using keeps_for_members_from [of f]
  by (simp add: keeps_def)

lemma for_members_from_enough:
  assumes "\<And>i m. i < MAX_SEATS \<Longrightarrow> keeps (f i m)" and "winv {} s"
    and "length (members s r) \<le> i + k"
  shows "for_members_from (k + j) i r f s = for_members_from k i r f s"
  using assms(2,3)
proof (induction k arbitrary: i s)
  case 0
  then show ?case by (cases j) auto
next
  case (Suc k)
  show ?case
  proof (cases "i < length (members s r)")
    case True
    then have "i < MAX_SEATS" using members_le [OF Suc.prems(1), of r] by simp
    then obtain t where t: "f i (members s r ! i) s = (t, None)" "winv {} t" "later s t"
      using keepsD [OF assms(1) Suc.prems(1), of i "members s r ! i"]
      by (metis good_pair prod.collapse)
    have "length (members t r) \<le> Suc i + k"
      using laterD(6) [OF t(3), of r] Suc.prems(2) by linarith
    from Suc.IH [OF t(2) this] True show ?thesis
      by (simp add: stmt_simps t(1))
  qed simp
qed

section \<open>The interface of drop\<close>

text \<open>A client in the middle of \<open>send\<close>: alive, registered, its buffer within bounds.\<close>

definition sending :: "cid \<Rightarrow> server \<Rightarrow> bool" where
  "sending c s \<longleftrightarrow>
     winv {c} s \<and> \<not> dead s c \<and> sv_sel s c \<noteq> None \<and>
     length (cl_tx (sv_cl s c)) \<le> MAX_TX_BACKLOG"

text \<open>
  What the transmit path promises about a client it drops, and what it may rely on. With
  \<open>solo_only\<close> the contract is for clients that are in no room.
\<close>

locale dropper =
  fixes d :: dropper and solo_only :: bool
  assumes drop_good: "sending c s \<Longrightarrow> (solo_only \<Longrightarrow> room_of s c = None) \<Longrightarrow> good s (d c why s)"

locale full_dropper = dropper d False for d

lemma flush_loop_split: "flush_loop tx sc = (sent, rest, sc', e) \<Longrightarrow> tx = sent @ rest"
proof (induction tx sc arbitrary: sent rest sc' e rule: flush_loop.induct)
  case (5 t tx n sc)
  then show ?case
    by (auto simp: Let_def split: if_splits prod.splits) (metis append_assoc append_take_drop_id)
qed auto

lemma flush_loop_stop: "flush_loop tx sc = (sent, rest, sc', e) \<Longrightarrow> rest = [] \<Longrightarrow> e = FlushDone"
  by (induction tx sc arbitrary: sent rest sc' e rule: flush_loop.induct)
    (auto simp: Let_def split: if_splits prod.splits)

text \<open>Changing what a client has buffered, sent and scripted moves no other clause.\<close>

definition set_out :: "cid \<Rightarrow> (client \<Rightarrow> byte list) \<Rightarrow> (client \<Rightarrow> send_res list) \<Rightarrow>
    (client \<Rightarrow> byte list) \<Rightarrow> server \<Rightarrow> server" where
  "set_out c tx sc wire =
     upd_cl c (\<lambda>k. k\<lparr>cl_tx := tx k, cl_script := sc k, cl_wire := wire k\<rparr>)"

lemma set_out_later [simp]: "later s (set_out c tx sc wire s)"
  by (simp add: later_def set_out_def store_simps)

lemma set_out_sel [simp]: "sv_sel (set_out c tx sc wire s) = sv_sel s"
  by (simp add: set_out_def store_simps)

lemma set_out_tx [simp]:
  "cl_tx (sv_cl (set_out c tx sc wire s) c) = tx (sv_cl s c)"
  "cl_wire (sv_cl (set_out c tx sc wire s) c) = wire (sv_cl s c)"
  "dead (set_out c tx sc wire s) k = dead s k"
  "room_of (set_out c tx sc wire s) k = room_of s k"
  by (simp_all add: set_out_def store_simps)

lemma set_out_inv:
  assumes "winv X s" and "X \<subseteq> {c}" and "\<not> dead s c"
  shows "winv {c} (set_out c tx sc wire s)"
proof -
  let ?t = "set_out c tx sc wire s"
  have "c < sv_next_cl s"
    using assms(1,3) by (simp add: winv_def alive_allocated)
  then have fresh: "\<forall>k \<ge> sv_next_cl s. k \<noteq> c" by auto
  have ip: "per_ip ?t ip = per_ip s ip" for ip
    by (rule per_ip_addr) (simp_all add: set_out_def store_simps)
  have cl: "name_of ?t k = name_of s k" "k \<noteq> c \<Longrightarrow> sv_cl ?t k = sv_cl s k" for k
    by (simp_all add: set_out_def store_simps)
  have sv: "sv_clients ?t = sv_clients s" "sv_next_cl ?t = sv_next_cl s" "sv_rm ?t = sv_rm s"
      "sv_by_name ?t = sv_by_name s" "sv_next_rm ?t = sv_next_rm s" "sv_delay ?t = sv_delay s"
      "sv_lobby ?t = sv_lobby s"
    by (simp_all add: set_out_def store_simps)
  have "clients_ok ?t"
    using assms(1) fresh by (simp add: winv_def clients_ok_def ip cl sv)
  moreover have "by_name_ok ?t = by_name_ok s"
    by (simp only: by_name_ok_def cl sv set_out_tx)
  moreover have "names_ok ?t = names_ok s" "rooms_ok ?t = rooms_ok s" "crcs_ok ?t = crcs_ok s"
      "lobby_ok ?t = lobby_ok s"
    by (simp_all only: names_ok_def rooms_ok_def crcs_ok_def lobby_ok_def cl sv set_out_tx)
  moreover have "tx_ok {c} ?t"
    using assms(1,2) cl(2) by (auto simp: winv_def tx_ok_def)
  ultimately show ?thesis using assms(1) by (simp add: winv_def)
qed

lemma update_events_inv:
  assumes "sending c s"
  shows "winv {} (update_events c s) \<and> later s (update_events c s)"
proof -
  from assms have sel: "\<exists>w. sv_sel s c = Some w" by (auto simp: sending_def)
  then have ue: "update_events c s = s\<lparr>sv_sel := (sv_sel s)(c := Some (cl_tx (sv_cl s c) \<noteq> []))\<rparr>"
      (is "_ = ?t") by (auto simp: update_events_def)
  have "tx_ok {} ?t"
    using assms by (auto simp: sending_def winv_def tx_ok_def)
  moreover have "names_ok ?t = names_ok s" "by_name_ok ?t = by_name_ok s" "clients_ok ?t = clients_ok s"
      "rooms_ok ?t = rooms_ok s" "crcs_ok ?t = crcs_ok s" "lobby_ok ?t = lobby_ok s"
    by (simp_all add: winv_parts per_ip_def)
  ultimately have "winv {} ?t" using assms by (simp add: sending_def winv_def)
  then show ?thesis by (simp add: ue later_def)
qed

lemma sending_set_out:
  assumes "sending c s" and "length (tx (sv_cl s c)) \<le> MAX_TX_BACKLOG"
  shows "sending c (set_out c tx sc wire s)"
  using assms set_out_inv [of "{c}" s c tx sc wire] by (simp add: sending_def)

lemma sending_start:
  assumes "winv {} s" and "\<not> dead s c"
  shows "sending c s"
proof -
  have "tx_ok {} s" using assms(1) by (simp add: winv_def)
  with assms(2) show ?thesis
    using winv_mono [OF assms(1), of "{c}"] by (simp add: sending_def tx_ok_def)
qed

context dropper
begin

lemma flush_good:
  assumes s: "sending c s" and solo: "solo_only \<Longrightarrow> room_of s c = None"
  shows "good s (flush_with d c s)"
proof -
  obtain sent rest sc e where
    fl: "flush_loop (cl_tx (sv_cl s c)) (cl_script (sv_cl s c)) = (sent, rest, sc, e)"
    by (metis prod_cases4)
  let ?t = "set_out c (\<lambda>_. rest) (\<lambda>_. sc) (\<lambda>k. cl_wire k @ sent) s"
  have "length (cl_tx (sv_cl s c)) \<le> MAX_TX_BACKLOG" using s by (simp add: sending_def)
  then have "length rest \<le> MAX_TX_BACKLOG" using flush_loop_split [OF fl] by simp
  then have t: "sending c ?t" using s by (simp add: sending_set_out)
  have solo_t: "solo_only \<Longrightarrow> room_of ?t c = None" using solo by simp
  have step: "good s res" if "good ?t res" for res
    using that by (rule good_later) simp
  have t_eq: "upd_cl c (\<lambda>k. k\<lparr>cl_tx := rest, cl_script := sc, cl_wire := cl_wire k @ sent\<rparr>) s = ?t"
    by (simp add: set_out_def)
  show ?thesis
    using update_events_inv [OF t] drop_good [OF t solo_t]
    by (cases e) (auto simp: flush_with_def fl t_eq good_pair intro!: step
        intro: later_trans [OF set_out_later])
qed

lemma send_good:
  assumes inv: "winv {} s" and solo: "solo_only \<Longrightarrow> room_of s c = None"
  shows "good s (send_with d c data s)"
proof (cases "dead s c")
  case True
  with inv show ?thesis by (simp add: send_with_def good_pair)
next
  case False
  note st = sending_start [OF inv False]
  show ?thesis
  proof (cases "length (cl_tx (sv_cl s c)) + length data > MAX_TX_BACKLOG")
    case True
    let ?t = "s\<lparr>sv_stats := (sv_stats s)\<lparr>tx_backlog_drops := Suc (tx_backlog_drops (sv_stats s))\<rparr>\<rparr>"
    have "sending c ?t" using st by (simp add: sending_def)
    then have "good ?t (d c TxBacklog ?t)" using solo by (intro drop_good) simp_all
    then have "good s (d c TxBacklog ?t)" by (rule good_later) simp
    with True False show ?thesis by (simp add: send_with_def)
  next
    case small: False
    let ?t = "set_out c (\<lambda>k. cl_tx k @ data) cl_script cl_wire s"
    have t: "upd_cl c (\<lambda>k. k\<lparr>cl_tx := cl_tx k @ data\<rparr>) s = ?t"
      by (simp add: set_out_def store_simps)
    have "sending c ?t" using st small by (intro sending_set_out) simp_all
    then have "good ?t (flush_with d c ?t)" using solo by (intro flush_good) simp_all
    then have "good s (flush_with d c ?t)" by (rule good_later) simp
    with small False show ?thesis by (simp add: send_with_def t)
  qed
qed

lemma send_each_good:
  assumes "winv {} s" and "\<And>m. m \<in> set ms \<Longrightarrow> solo_only \<Longrightarrow> room_of s m = None"
    and "\<And>m t. m \<in> set ms \<Longrightarrow> winv {} t \<Longrightarrow> good t (after m t)"
  shows "good s (for_each (\<lambda>m. seq (send_with d m data) (after m)) ms s)"
  using assms
proof (induction ms arbitrary: s)
  case Nil
  then show ?case by (simp add: good_pair skip_def)
next
  case (Cons m ms)
  have "good s (seq (send_with d m data) (after m) s)"
    using Cons.prems by (intro good_seq send_good) simp_all
  then show ?case
    unfolding for_each.simps
  proof (rule good_seq)
    fix t assume "winv {} t" and "later s t"
    then show "good t (for_each (\<lambda>m. seq (send_with d m data) (after m)) ms t)"
      using Cons.prems by (intro Cons.IH) (auto simp: laterD(3))
  qed
qed

end

lemma frame_ok: "length p \<le> 254 \<Longrightarrow> \<exists>b. frame t p = Inr b \<and> length b = length p + 2"
  by (simp add: frame_enframe)

lemma bytes_of_small: "list_all (\<lambda>n. 0 \<le> n \<and> n < 256) ns \<Longrightarrow> bytes_of ns = Inr (map word_of_int ns)"
  by (simp add: bytes_of_def)

text \<open>In a well-formed state every roster can be rendered, and it is 32 bytes long.\<close>

definition roster_bytes :: "server \<Rightarrow> rid \<Rightarrow> byte list" where
  "roster_bytes s r =
     concat (map (\<lambda>m. name8 (the (name_of s m))) (members s r)) @
     replicate (8 * (ROSTER_SLOTS - length (members s r))) 0"

lemma member_named:
  assumes "winv X s" and "m \<in> set (members s r)"
  obtains n where "name_of s m = Some n" "valid_name n"
proof -
  have "room_of s m = Some r" using assms by (simp add: winv_def roomsD(2))
  then have "name_of s m \<noteq> None" using assms(1) by (simp add: winv_def roomsD(3))
  then show thesis using assms(1) that by (auto simp: winv_def names_ok_def)
qed

lemma roster_eq:
  assumes "winv X s"
  shows "roster s r = Inr (roster_bytes s r)"
proof -
  have "map_val (\<lambda>m. pad_name (name_of s m)) (members s r) =
      Inr (map (\<lambda>m. name8 (the (name_of s m))) (members s r))"
    by (rule map_val_Inr) (auto elim: member_named [OF assms] simp: pad_name_valid)
  then show ?thesis by (simp add: roster_def roster_bytes_def)
qed

lemma length_concat_const: "(\<And>x. x \<in> set xs \<Longrightarrow> length (f x) = k) \<Longrightarrow>
    length (concat (map f xs)) = k * length xs"
  by (induction xs) auto

lemma length_roster_bytes:
  assumes "winv X s"
  shows "length (roster_bytes s r) = 32"
proof -
  have "length (concat (map (\<lambda>m. name8 (the (name_of s m))) (members s r))) = 8 * length (members s r)"
    by (rule length_concat_const)
      (auto elim!: member_named [OF assms] simp: length_name8 valid_name_def)
  then show ?thesis
    using members_le [OF assms, of r] by (simp add: roster_bytes_def ROSTER_SLOTS_def MAX_SEATS_def)
qed

context full_dropper
begin

lemma send_with_keeps: "keeps (send_with d c data)"
  by (rule keepsI) (simp add: send_good)

lemma send_frame_with_keeps: "length p \<le> 254 \<Longrightarrow> keeps (send_frame_with d c t p)"
  by (simp add: send_frame_with_def frame_enframe send_with_keeps)

lemma room_broadcast_with_keeps: "keeps (room_broadcast_with d r)"
proof (rule keepsI)
  fix s assume inv: "winv {} s"
  have n: "bytes_of [int (length (members s r))] = Inr [word_of_nat (length (members s r))]"
    using members_le [OF inv, of r] by (simp add: bytes_of_def MAX_SEATS_def)
  have "keeps (for_members r (\<lambda>_ m. send_frame_with d m T_ROOM
      ([word_of_nat (length (members s r))] @ roster_bytes s r)))"
    by (intro keeps_for_members send_frame_with_keeps) (simp add: length_roster_bytes [OF inv])
  then show "good s (room_broadcast_with d r s)"
    by (simp add: room_broadcast_with_def n roster_eq [OF inv] keepsD [OF _ inv])
qed

end

end
