(* ===== verification/Drop.thy ===== *)
theory Drop
  imports Plumbing
begin

text \<open>
  \<open>drop\<close> meets its contract. A client without a room is only unhooked; a client in a
  room takes the room down with it, and the one other member is told after it has left
  the room, so that a failing send drops a client without a room.
\<close>

section \<open>Clients without a room\<close>

lemma drop_body_solo:
  "\<not> dead s c \<Longrightarrow> room_of s c = None \<Longrightarrow> drop_body d c why s = (drop_unhook c why s, None)"
  by (simp add: drop_body_def Let_def)

lemma drop_dead: "dead s c \<Longrightarrow> drop_fuel n c why s = (s, None)"
  by (cases n) (simp_all add: drop_body_def)

lemma drop_unhook_good: "sending c s \<Longrightarrow> good s (drop_unhook c why s, None)"
  by (auto simp: sending_def good_pair intro: drop_unhook_inv)

interpretation solo_drop: dropper "drop_fuel (Suc n)" True for n
  by unfold_locales (auto simp: drop_body_solo sending_def intro: drop_unhook_good [unfolded sending_def])

text \<open>What \<open>send\<close> to a client without a room does, and that it does not look at rooms.\<close>

definition send_solo :: "cid \<Rightarrow> byte list \<Rightarrow> server \<Rightarrow> server" where
  "send_solo c data s = fst (send_with (\<lambda>k why t. (drop_unhook k why t, None)) c data s)"

lemma flush_solo:
  assumes "\<not> dead s c" and "room_of s c = None"
  shows "flush_with (drop_fuel (Suc n)) c s = flush_with (\<lambda>k why t. (drop_unhook k why t, None)) c s"
  using assms
  by (auto simp: flush_with_def Let_def drop_body_solo store_simps split: flush_end.split prod.split)

lemma send_solo_eq:
  assumes "room_of s c = None"
  shows "send_with (drop_fuel (Suc n)) c data s = (send_solo c data s, None)"
proof -
  have no_exn: "snd (send_with (\<lambda>k why t. (drop_unhook k why t, None)) c data s) = None"
    by (simp add: send_with_def flush_with_def Let_def split: prod.split flush_end.split)
  have "send_with (drop_fuel (Suc n)) c data s =
      send_with (\<lambda>k why t. (drop_unhook k why t, None)) c data s"
    using assms by (simp add: send_with_def drop_body_solo flush_solo store_simps)
  then show ?thesis using no_exn by (simp add: send_solo_def prod_eq_iff)
qed

lemma lobby_update_rm: "lobby_update (s\<lparr>sv_rm := R\<rparr>) = (lobby_update s)\<lparr>sv_rm := R\<rparr>"
  by (simp add: lobby_update_def split: option.split)

lemma client_repr_rm [simp]: "client_repr (s\<lparr>sv_rm := R\<rparr>) c = client_repr s c"
  by (simp add: client_repr_def split: option.split)

lemma drop_unhook_rm: "drop_unhook c why (s\<lparr>sv_rm := R\<rparr>) = (drop_unhook c why s)\<lparr>sv_rm := R\<rparr>"
  by (simp add: drop_unhook_def Let_def store_simps stale_names_def lobby_update_def
      split: option.split)

lemma update_events_rm: "update_events c (s\<lparr>sv_rm := R\<rparr>) = (update_events c s)\<lparr>sv_rm := R\<rparr>"
  by (simp add: update_events_def split: option.split)

lemma upd_cl_rm: "upd_cl c f (s\<lparr>sv_rm := R\<rparr>) = (upd_cl c f s)\<lparr>sv_rm := R\<rparr>"
  by (simp add: upd_cl_def)

lemma stats_rm: "s\<lparr>sv_rm := R, sv_stats := t\<rparr> = s\<lparr>sv_stats := t, sv_rm := R\<rparr>"
  by simp

lemma send_solo_rm: "send_solo c data (s\<lparr>sv_rm := R\<rparr>) = (send_solo c data s)\<lparr>sv_rm := R\<rparr>"
  by (auto simp: send_solo_def send_with_def flush_with_def Let_def upd_cl_rm update_events_rm
      drop_unhook_rm stats_rm split: prod.split flush_end.split)

lemma send_solo_rooms: "sv_rm (send_solo c data s) = sv_rm s"
  by (auto simp: send_solo_def send_with_def flush_with_def Let_def store_simps update_events_def
      split: prod.split flush_end.split option.split)

lemma send_solo_clear: "clear_members r (send_solo c data s) = send_solo c data (clear_members r s)"
  by (simp add: clear_members_def upd_rm_def send_solo_rm send_solo_rooms)

section \<open>Leaving a room dissolves it\<close>

text \<open>The client \<open>c\<close> left \<open>r\<close>; what is left once the room has been dissolved.\<close>

definition part_room :: "cid \<Rightarrow> rid \<Rightarrow> server \<Rightarrow> server" where
  "part_room c r s = upd_rm r (\<lambda>k. k\<lparr>rm_members := remove1 c (rm_members k)\<rparr>) (leave_room c s)"

definition dissolved :: "rid \<Rightarrow> server \<Rightarrow> server" where
  "dissolved r s = clear_members r (fold leave_room (members s r) s)"

lemma other_member:
  assumes "winv X s" and "room_of s c = Some r"
  obtains k where "k \<noteq> c" "room_of s k = Some r" "set (members s r) = {c, k}"
    "remove1 c (members s r) = [k]"
proof -
  have c: "c \<in> set (members s r)" using assms by (simp add: winv_def roomsD(2))
  then have len: "length (members s r) = 2" "distinct (members s r)"
    using roomsD(1) [of s r] assms(1) unfolding winv_def by fastforce+
  from len(1) obtain x y where m: "members s r = [x, y]"
    by (auto simp: numeral_2_eq_2 length_Suc_conv)
  with c len(2) consider "x = c" "y \<noteq> c" | "y = c" "x \<noteq> c" by auto
  then show thesis
  proof cases
    case 1
    have "room_of s y = Some r" using roomsD(2) [of s y r] assms(1) m by (auto simp: winv_def)
    with 1 m that show thesis by simp
  next
    case 2
    have "room_of s x = Some r" using roomsD(2) [of s x r] assms(1) m by (auto simp: winv_def)
    with 2 m that [of x] show thesis by (simp add: insert_commute)
  qed
qed

lemma fold_leave_room:
  "sv_cl (fold leave_room ms s) k =
     (if k \<in> set ms then (sv_cl s k)\<lparr>cl_room := None\<rparr> else sv_cl s k) \<and>
   sv_rm (fold leave_room ms s) = sv_rm s"
proof (induction ms arbitrary: s)
  case (Cons m ms)
  show ?case using Cons.IH [of "leave_room m s"] by (auto simp: store_simps)
qed simp

text \<open>What dissolving the room of a member does, in terms of the state before it left.\<close>

lemma dissolved_part:
  assumes inv: "winv X s" and r: "room_of s c = Some r"
  defines "t \<equiv> dissolved r (part_room c r s)"
  shows "sv_cl t k = (if room_of s k = Some r then (sv_cl s k)\<lparr>cl_room := None\<rparr> else sv_cl s k)"
    and "sv_rm t q = (if q = r then (sv_rm s r)\<lparr>rm_members := []\<rparr> else sv_rm s q)"
    and "t = s\<lparr>sv_cl := sv_cl t, sv_rm := sv_rm t\<rparr>"
proof -
  obtain j where j: "j \<noteq> c" "set (members s r) = {c, j}" "remove1 c (members s r) = [j]"
    "room_of s j = Some r"
    using other_member [OF inv r] by metis
  have in_room: "room_of s k = Some r \<longleftrightarrow> k = c \<or> k = j" for k
    using roomsD(2) [of s k r] inv j(2) by (auto simp: winv_def)
  have t: "t = clear_members r (leave_room j (part_room c r s))"
    by (simp add: t_def dissolved_def part_room_def store_simps j(3))
  show "sv_cl t k = (if room_of s k = Some r then (sv_cl s k)\<lparr>cl_room := None\<rparr> else sv_cl s k)"
    using j(1) by (auto simp: t part_room_def store_simps in_room)
  show "sv_rm t q = (if q = r then (sv_rm s r)\<lparr>rm_members := []\<rparr> else sv_rm s q)"
    by (simp add: t part_room_def store_simps)
  show "t = s\<lparr>sv_cl := sv_cl t, sv_rm := sv_rm t\<rparr>"
    by (simp add: t part_room_def store_simps)
qed

lemma dissolved_part_inv:
  assumes inv: "winv {} s" and r: "room_of s c = Some r"
  defines "t \<equiv> dissolved r (part_room c r s)"
  shows "winv {} t" and "later s t"
proof -
  note d = dissolved_part [OF inv r, folded t_def]
  have cl: "name_of t k = name_of s k" "dead t k = dead s k" "cl_tx (sv_cl t k) = cl_tx (sv_cl s k)"
      "cl_addr (sv_cl t k) = cl_addr (sv_cl s k)"
      "room_of t k = (if room_of s k = Some r then None else room_of s k)" for k
    by (simp_all add: d(1))
  have sv: "sv_clients t = sv_clients s" "sv_next_cl t = sv_next_cl s" "sv_by_name t = sv_by_name s"
      "sv_next_rm t = sv_next_rm s" "sv_delay t = sv_delay s" "sv_lobby t = sv_lobby s"
      "sv_sel t = sv_sel s" "sv_auto_go t = sv_auto_go s" "sv_rng t = sv_rng s"
      "sv_rng_pos t = sv_rng_pos s"
    by (subst d(3), simp)+
  have mem: "members t q = (if q = r then [] else members s q)" for q
    by (simp add: d(2))
  have "names_ok t = names_ok s" "by_name_ok t = by_name_ok s" "tx_ok {} t = tx_ok {} s"
      "lobby_ok t = lobby_ok s"
    by (simp_all only: names_ok_def by_name_ok_def tx_ok_def lobby_ok_def cl sv)
  moreover have "clients_ok t"
  proof -
    have "no_client = sv_cl t k" if "k \<ge> sv_next_cl s" for k
    proof -
      have "sv_cl s k = no_client" using inv that by (simp add: winv_def clients_ok_def)
      then show ?thesis by (simp add: d(1) no_client_def)
    qed
    moreover have "per_ip t ip = per_ip s ip" for ip
      by (rule per_ip_addr) (simp_all add: sv cl)
    ultimately show ?thesis using inv by (simp add: winv_def clients_ok_def sv cl)
  qed
  moreover have "rooms_ok t"
    unfolding rooms_ok_def
  proof (intro conjI allI impI)
    have rs: "rooms_ok s" using inv by (simp add: winv_def)
    fix q k
    show "members t q = [] \<or> length (members t q) = 2 \<and> distinct (members t q)"
      using roomsD(1) [OF rs, of q] by (simp add: mem)
    show "k \<in> set (members t q) \<longleftrightarrow> room_of t k = Some q"
      using roomsD(2) [OF rs, of k q] by (auto simp: mem cl)
    show "name_of t k \<noteq> None" if "room_of t k \<noteq> None"
      using roomsD(3) [OF rs, of k] that by (auto simp: cl split: if_splits)
    show "sv_rm t q = no_room" if "sv_next_rm t \<le> q"
      using roomsD(4) [OF rs, of q] that by (cases "q = r") (auto simp: d(2) sv no_room_def)
  qed
  moreover have "crcs_ok t"
    using inv by (auto simp: winv_def crcs_ok_def crc_table_ok_def d(2))
  ultimately show "winv {} t" using inv by (simp add: winv_def)
  show "later s t"
    unfolding later_def by (auto simp: sv cl mem d(2))
qed

section \<open>drop in closed form\<close>

text \<open>The two messages of \<open>drop\<close>: ROOM with count 0, and PEER_LEFT with seat and name.\<close>

definition room0_frame :: "byte list" where
  "room0_frame = enframe T_ROOM (0 # replicate 32 0)"

definition peer_left_frame :: "nat \<Rightarrow> pystr \<Rightarrow> byte list" where
  "peer_left_frame i n = enframe T_PEER_LEFT (word_of_nat i # name8 n)"

lemma dissolve_none: "dissolve_with d r [] s = (dissolved r s, None)"
  by (simp add: dissolve_with_def dissolved_def seq_def update_def skip_def)

lemma dissolve_one:
  assumes "members s r = [m]"
  shows "dissolve_with (drop_fuel (Suc n)) r [m] s =
    (send_solo m room0_frame (dissolved r s), None)"
proof -
  let ?t = "leave_room m s"
  have "room_of ?t m = None" by (simp add: store_simps)
  then have "send_frame_with (drop_fuel (Suc n)) m T_ROOM (0 # replicate 32 0) ?t =
      (send_solo m room0_frame ?t, None)"
    by (simp add: send_frame_with_def frame_enframe room0_frame_def send_solo_eq)
  then show ?thesis
    by (simp add: dissolve_with_def dissolved_def seq_def update_def skip_def assms
        flip: send_solo_clear)
qed

lemma part_room_log: "log_it e (part_room c r s) = part_room c r (log_it e s)"
  by (simp add: part_room_def store_simps)

lemma part_room_members: "members (part_room c r s) r = remove1 c (members s r)"
  by (simp add: part_room_def store_simps)

lemma part_room_fields [simp]:
  "rm_started (sv_rm (part_room c r s) q) = rm_started (sv_rm s q)"
  "name_of (part_room c r s) k = name_of s k"
  by (simp_all add: part_room_def store_simps)

lemma log_it_fields [simp]:
  "sv_cl (log_it e s) = sv_cl s" "sv_rm (log_it e s) = sv_rm s"
  "sv_by_name (log_it e s) = sv_by_name s" "sv_sel (log_it e s) = sv_sel s"
  "sv_clients (log_it e s) = sv_clients s" "sv_next_cl (log_it e s) = sv_next_cl s"
  "sv_next_rm (log_it e s) = sv_next_rm s" "sv_lobby (log_it e s) = sv_lobby s"
  by (simp_all add: log_it_def)

lemma seat_member:
  assumes "winv X s" and "room_of s c = Some r"
  obtains i where "seat s c = Inr (Some i)" "i < MAX_SEATS" "members s r ! i = c"
proof -
  have "c \<in> set (members s r)" using assms by (simp add: winv_def roomsD(2))
  then obtain i where i: "index_of (members s r) c = Some i"
    using index_of_None [of "members s r" c] by auto
  then have "i < length (members s r)" "members s r ! i = c"
    using index_of_Some [OF i] by simp_all
  with i assms members_le [OF assms(1), of r] show thesis
    by (intro that [of i]) (simp_all add: seat_def)
qed

lemma members_part_room:
  assumes "winv X s" and "room_of s c = Some r"
  obtains k where "k \<noteq> c" "room_of s k = Some r" "members (part_room c r s) r = [k]"
    "set (members s r) = {c, k}"
  using other_member [OF assms] by (metis part_room_members)

text \<open>
  Dropping a client that is in a room, once it is unhooked: the room is dissolved and the
  other member gets one message, PEER_LEFT if the match was on and ROOM 0 if not.
\<close>

lemma drop_started:
  assumes alive: "\<not> dead s c" and inv: "winv {} (drop_unhook c why s)"
    and r: "room_of s c = Some r" and st: "rm_started (sv_rm s r)"
  obtains k i n e x where "k \<noteq> c" "room_of s k = Some r" "members s r ! i = c" "name_of s c = Some n"
    "valid_name n" "i < MAX_SEATS"
    "x = send_solo k (peer_left_frame i n) (dissolved r (part_room c r (log_it e (drop_unhook c why s))))"
    "\<And>m. drop_fuel (Suc (Suc m)) c why s = (lobby_update (log_it (LBackToLobby (client_repr x k)) x), None)"
proof -
  let ?s1 = "drop_unhook c why s"
  have r1: "room_of ?s1 c = Some r" using r by simp
  obtain k where k: "k \<noteq> c" "room_of ?s1 k = Some r" "members (part_room c r ?s1) r = [k]"
    using members_part_room [OF inv r1] by metis
  obtain i where i: "seat ?s1 c = Inr (Some i)" "i < MAX_SEATS" "members ?s1 r ! i = c"
    by (rule seat_member [OF inv r1])
  have "c \<in> set (members ?s1 r)" using inv r1 roomsD(2) [of ?s1 c r] by (simp add: winv_def)
  then obtain n where n: "name_of ?s1 c = Some n" "valid_name n"
    by (rule member_named [OF inv])
  let ?e = "LMatchEnded (rm_crc_ok (sv_rm (part_room c r ?s1) r)) (client_repr (part_room c r ?s1) c) i"
  let ?s4 = "log_it ?e (part_room c r ?s1)"
  let ?D = "dissolved r (part_room c r (log_it ?e ?s1))"
  let ?x = "send_solo k (peer_left_frame i n) ?D"
  have mem4: "members ?s4 r = [k]" using k(3) by simp
  have byt: "bytes_of [int i] = Inr [word_of_nat i]"
    using i(2) by (simp add: bytes_of_def MAX_SEATS_def)
  have nm: "name_of ?s4 c = Some n" using n(1) by simp
  have pl: "frame T_PEER_LEFT ([word_of_nat i] @ name8 n) = Inr (peer_left_frame i n)"
    using n(2) by (simp add: frame_enframe peer_left_frame_def length_name8 valid_name_def)
  have "room_of ?D k = None"
    using dissolved_part(1) [of "{}" "log_it ?e ?s1" c r k] inv r1 k(2) by simp
  then have send: "send_with (drop_fuel (Suc m)) k (peer_left_frame i n) ?D = (?x, None)" for m
    by (rule send_solo_eq)
  have n': "pad_name (name_of s c) = Inr (name8 n)"
    using n by (simp add: pad_name_valid)
  have "drop_fuel (Suc (Suc m)) c why s = (lobby_update (log_it (LBackToLobby (client_repr ?x k)) ?x), None)" for m
  proof -
    have "drop_fuel (Suc (Suc m)) c why s =
      seq (dissolve_with (drop_fuel (Suc m)) r [])
        (seq (for_each (\<lambda>j. seq (send_with (drop_fuel (Suc m)) j (peer_left_frame i n))
               (\<lambda>x. update (log_it (LBackToLobby (client_repr x j))) x)) (members ?s4 r))
           (update lobby_update)) ?s4"
      using alive r1 st i(1)
      by (simp add: drop_body_def Let_def part_room_def [symmetric] byt n' pl [simplified])
    also have "\<dots> = (lobby_update (log_it (LBackToLobby (client_repr ?x k)) ?x), None)"
      unfolding mem4
      by (simp add: stmt_simps dissolve_none part_room_log send seq_def update_def skip_def)
    finally show ?thesis .
  qed
  then show thesis
    using k i n by (intro that [where k = k and i = i and n = n and e = ?e]) simp_all
qed

lemma drop_forming:
  assumes alive: "\<not> dead s c" and inv: "winv {} (drop_unhook c why s)"
    and r: "room_of s c = Some r" and st: "\<not> rm_started (sv_rm s r)"
  obtains k t where "k \<noteq> c" "room_of s k = Some r" "t = drop_unhook c why s \<or>
      (\<exists>e. t = log_it e (drop_unhook c why s))"
    "\<And>m. drop_fuel (Suc (Suc m)) c why s =
       (lobby_update (send_solo k room0_frame (dissolved r (part_room c r t))), None)"
proof -
  let ?s1 = "drop_unhook c why s"
  have r1: "room_of ?s1 c = Some r" using r by simp
  obtain k where k: "k \<noteq> c" "room_of ?s1 k = Some r" "members (part_room c r ?s1) r = [k]"
    using members_part_room [OF inv r1] by metis
  obtain i where i: "seat ?s1 c = Inr (Some i)"
    by (rule seat_member [OF inv r1])
  let ?e = "LHostLeft (room_repr (part_room c r ?s1) r)"
  let ?t = "if i = 0 then log_it ?e ?s1 else ?s1"
  have mem: "members (part_room c r ?t) r = [k]" using k(3) by (simp add: part_room_members)
  have "drop_fuel (Suc (Suc m)) c why s =
      (lobby_update (send_solo k room0_frame (dissolved r (part_room c r ?t))), None)" for m
  proof -
    have "drop_fuel (Suc (Suc m)) c why s =
        seq (dissolve_with (drop_fuel (Suc m)) r [k]) (update lobby_update) (part_room c r ?t)"
      using alive r1 st i k(3)
      by (simp add: drop_body_def Let_def part_room_def [symmetric] part_room_log [symmetric])
    then show ?thesis
      by (simp add: dissolve_one [OF mem] seq_def update_def)
  qed
  then show thesis
    using k by (intro that [where k = k and t = ?t]) auto
qed

section \<open>drop keeps the invariant\<close>

lemma dissolved_send_good:
  assumes inv: "winv {} t" and r: "room_of t c = Some r" and k: "room_of t k = Some r"
  shows "good t (send_solo k data (dissolved r (part_room c r t)), None)"
proof -
  let ?D = "dissolved r (part_room c r t)"
  have D: "winv {} ?D" "later t ?D" by (rule dissolved_part_inv [OF inv r])+
  have "room_of ?D k = None" using dissolved_part(1) [OF inv r, of k] k by simp
  then have "good ?D (send_with (drop_fuel (Suc 0)) k data ?D)"
    using D(1) by (intro solo_drop.send_good)
  then have "good ?D (send_solo k data ?D, None)"
    using \<open>room_of ?D k = None\<close> by (simp add: send_solo_eq del: drop_fuel.simps)
  then show ?thesis using D(2) by (rule good_later)
qed

lemma good_more: "good s (t, None) \<Longrightarrow> good s (lobby_update t, None)"
  "good s (t, None) \<Longrightarrow> good s (log_it e t, None)"
  by (auto simp: good_pair lobby_update_inv intro: later_trans)

lemma drop_good_unhook:
  assumes s: "sending c s"
  shows "good (drop_unhook c why s) (drop_fuel (Suc (Suc m)) c why s)"
proof -
  from s have alive: "\<not> dead s c" by (simp add: sending_def)
  let ?s1 = "drop_unhook c why s"
  have inv: "winv {} ?s1" using drop_unhook_good [OF s] by (simp add: good_pair)
  show ?thesis
  proof (cases "room_of s c")
    case None
    with alive inv show ?thesis by (simp add: drop_body_solo good_pair)
  next
    case (Some r)
    have dg: "good ?s1 (send_solo k data (dissolved r (part_room c r t)), None)"
      if "room_of s k = Some r" "t = ?s1 \<or> (\<exists>e. t = log_it e ?s1)" for k data t
    proof (rule good_later)
      from that inv Some show "good t (send_solo k data (dissolved r (part_room c r t)), None)"
        by (intro dissolved_send_good) auto
      from that(2) show "later ?s1 t" by auto
    qed
    show ?thesis
      by (cases "rm_started (sv_rm s r)")
        (rule drop_started [OF alive inv Some], assumption, metis dg good_more,
         rule drop_forming [OF alive inv Some], assumption, metis dg good_more(1))
  qed
qed

lemma drop_good_two: "sending c s \<Longrightarrow> good s (drop_fuel (Suc (Suc m)) c why s)"
  by (rule good_later [OF drop_good_unhook]) simp_all

interpretation relay_drop: full_dropper drop_client
  unfolding drop_client_def DROP_DEPTH_def numeral_2_eq_2
  by unfold_locales (rule drop_good_two)

text \<open>Deeper recursion changes nothing: two levels are all that \<open>drop\<close> ever uses.\<close>

lemma drop_depth_enough:
  assumes "sending c s"
  shows "drop_fuel (Suc (Suc m)) c why s = drop_client c why s"
proof -
  from assms have alive: "\<not> dead s c" by (simp add: sending_def)
  have inv: "winv {} (drop_unhook c why s)"
    using drop_unhook_good [OF assms] by (simp add: good_pair)
  have "drop_fuel (Suc (Suc m)) c why s = drop_fuel (Suc (Suc 0)) c why s"
  proof (cases "room_of s c")
    case None
    with alive show ?thesis by (simp add: drop_body_solo)
  next
    case (Some r)
    show ?thesis
      by (cases "rm_started (sv_rm s r)")
        (metis drop_started [OF alive inv Some], metis drop_forming [OF alive inv Some])
  qed
  then show ?thesis by (simp only: drop_client_def DROP_DEPTH_def numeral_2_eq_2)
qed

lemma drop_client_fuel: "drop_client = drop_fuel (Suc (Suc 0))"
  by (simp only: drop_client_def DROP_DEPTH_def numeral_2_eq_2)

lemma drop_client_dead [simp]: "dead s c \<Longrightarrow> drop_client c why s = (s, None)"
  by (simp add: drop_client_def drop_dead)

lemma drop_client_keeps: "keeps (drop_client c why)"
proof (rule keepsI)
  fix s assume "winv {} s"
  then show "good s (drop_client c why s)"
    by (cases "dead s c") (simp_all add: good_pair sending_start relay_drop.drop_good)
qed

lemma drop_client_kills:
  assumes "winv {} s"
  shows "dead (fst (drop_client c why s)) c"
proof (cases "dead s c")
  case False
  have "good (drop_unhook c why s) (drop_client c why s)"
    unfolding drop_client_fuel using assms False by (intro drop_good_unhook sending_start)
  then show ?thesis by (auto simp: good_def dest: laterD(1))
qed simp

lemma flush_keeps:
  assumes "winv {} s" and "\<not> dead s c"
  shows "good s (flush c s)"
  unfolding flush_def using assms by (intro relay_drop.flush_good sending_start) simp_all

lemma send_keeps: "keeps (send c data)"
  unfolding send_def by (rule relay_drop.send_with_keeps)

lemma send_frame_keeps: "length p \<le> 254 \<Longrightarrow> keeps (send_frame c t p)"
  unfolding send_frame_def by (rule relay_drop.send_frame_with_keeps)

lemma room_broadcast_keeps: "keeps (room_broadcast r)"
  unfolding room_broadcast_def by (rule relay_drop.room_broadcast_with_keeps)

end
