(* ===== verification/Handlers.thy ===== *)
theory Handlers
  imports Drop
begin

text \<open>
  Every handler of \<^verbatim>\<open>Server.handle\<close> keeps the invariant, and the only exception a
  handler can raise is \<^verbatim>\<open>ProtocolError\<close>.
\<close>

section \<open>Tame statements\<close>

definition tame :: "sstmt \<Rightarrow> bool" where
  "tame f \<longleftrightarrow> (\<forall>s. winv {} s \<longrightarrow> winv {} (fst (f s)) \<and>
     (snd (f s) = None \<or> (\<exists>e. snd (f s) = Some (ProtocolError e))))"

lemma tameI:
  "(\<And>s. winv {} s \<Longrightarrow> winv {} (fst (f s)) \<and> (snd (f s) = None \<or> (\<exists>e. snd (f s) = Some (ProtocolError e)))) \<Longrightarrow>
   tame f"
  by (simp add: tame_def)

lemma keeps_safe: "keeps f \<Longrightarrow> safe (winv {}) f (winv {})"
  by (simp add: keeps_def safe_def good_def)

lemma safe_tame: "safe (winv {}) f (winv {}) \<Longrightarrow> tame f"
  by (simp add: safe_def tame_def)

lemma keeps_tame: "keeps f \<Longrightarrow> tame f"
  by (intro safe_tame keeps_safe)

lemma keeps_fst: "keeps f \<Longrightarrow> winv {} s \<Longrightarrow> \<exists>t. f s = (t, None) \<and> winv {} t \<and> later s t"
  by (metis good_pair keepsD prod.collapse)

section \<open>LIST\<close>

lemma status_le:
  assumes "winv {} s"
  shows "status s c < 256"
proof -
  have n: "length (members s r) = 0 \<or> length (members s r) = 2" for r
    using roomsD(1) [of s r] assms unfolding winv_def by auto
  have b: "k = 0 \<or> k = 2 \<Longrightarrow> 128 OR k < 256 \<and> k < 256" for k :: nat
    by auto
  show ?thesis
    using b [OF n] by (auto simp: status_def Let_def split: option.split)
qed

lemma lobby_entry_ok:
  assumes inv: "winv {} s" and "name_of s k = Some n"
  shows "lobby_entry s k = Inr (name8 n @ [word_of_nat (status s k)])"
proof -
  have "valid_name n" using assms by (simp add: winv_def names_ok_def)
  then show ?thesis
    using assms status_le [OF inv, of k]
    by (simp add: lobby_entry_def pad_name_valid bytes_of_def)
qed

text \<open>The payload of the LOBBY frame a client is sent.\<close>

definition lobby_payload :: "server \<Rightarrow> cid \<Rightarrow> byte list" where
  "lobby_payload s c =
     word_of_nat (length (listed s c)) #
     concat (map (\<lambda>k. name8 (the (name_of s k)) @ [word_of_nat (status s k)]) (listed s c))"

lemma listed_named: "k \<in> set (listed s c) \<Longrightarrow> \<exists>n. name_of s k = Some n"
  by (auto simp: listed_def dest: in_set_takeD)

lemma length_listed: "length (listed s c) \<le> 8"
  by (simp add: listed_def)

lemma length_lobby_payload:
  assumes "winv {} s"
  shows "length (lobby_payload s c) = 1 + 9 * length (listed s c)"
proof -
  have "length (name8 (the (name_of s k)) @ [word_of_nat (status s k)]) = 9"
    if "k \<in> set (listed s c)" for k
    using listed_named [OF that] assms by (auto simp: winv_def names_ok_def length_name8 valid_name_def)
  then show ?thesis by (simp add: lobby_payload_def length_concat_const del: length_append)
qed

lemma on_list_eq:
  assumes inv: "winv {} s"
  shows "on_list c s = send_frame c T_LOBBY (lobby_payload s c) s"
proof -
  have "map_val (lobby_entry s) (listed s c) =
      Inr (map (\<lambda>k. name8 (the (name_of s k)) @ [word_of_nat (status s k)]) (listed s c))"
  proof (rule map_val_Inr)
    fix k assume "k \<in> set (listed s c)"
    then obtain n where "name_of s k = Some n" using listed_named by blast
    with inv show "lobby_entry s k = Inr (name8 (the (name_of s k)) @ [word_of_nat (status s k)])"
      by (simp add: lobby_entry_ok)
  qed
  moreover have "bytes_of [int (length (listed s c))] = Inr [word_of_nat (length (listed s c))]"
    using length_listed [of s c] by (simp add: bytes_of_def)
  ultimately show ?thesis by (simp add: on_list_def lobby_payload_def)
qed

lemma on_list_keeps: "keeps (on_list c)"
proof (rule keepsI)
  fix s assume inv: "winv {} s"
  have "length (lobby_payload s c) \<le> 254"
    using length_lobby_payload [OF inv, of c] length_listed [of s c] by simp
  then show "good s (on_list c s)"
    using send_frame_keeps keepsD inv by (simp add: on_list_eq [OF inv])
qed

section \<open>HELLO\<close>

lemma clients_unnamed_room:
  "winv X s \<Longrightarrow> name_of s c = None \<Longrightarrow> room_of s c = None"
  unfolding winv_def using roomsD(3) by blast

text \<open>Giving a client a name no other living client has.\<close>

lemma set_name_by_name:
  assumes bn: "by_name_ok s" and others: "\<And>k. \<not> dead s k \<Longrightarrow> name_of s k = Some name \<Longrightarrow> k = c"
  shows "by_name_ok (set_name c name s)"
proof -
  let ?d = "case name_of s c of None \<Rightarrow> sv_by_name s
    | Some o' \<Rightarrow> if o' \<noteq> name \<and> dict_get (sv_by_name s) o' = Some c
        then dict_del (sv_by_name s) o' else sv_by_name s"
  let ?t = "set_name c name s"
  have t: "sv_by_name ?t = dict_set ?d name c" "dead ?t k = dead s k"
      "name_of ?t k = (if k = c then Some name else name_of s k)" for k
    by (auto simp: set_name_def Let_def store_simps split: option.split)
  have dist: "distinct (dict_keys ?d)"
    using by_name_okD(1) [OF bn] by (auto simp: dict_keys_del split: option.split)
  have get: "dict_get (sv_by_name s) n = Some k \<longleftrightarrow> (n, k) \<in> set (sv_by_name s)" for n k
    by (rule dict_get_in [OF by_name_okD(1) [OF bn]])
  have in_d: "(n, k) \<in> set ?d \<longleftrightarrow>
      (n, k) \<in> set (sv_by_name s) \<and> \<not> (k = c \<and> n \<noteq> name)" for n k
    using by_name_okD(2) [OF bn, of n k] by (auto simp: in_dict_del get split: option.split)
       (metis by_name_okD(2) [OF bn] get option.inject dict_get_in [OF by_name_okD(1) [OF bn]])+
  show ?thesis
  proof (rule by_name_okI)
    show "distinct (dict_keys (sv_by_name ?t))"
      unfolding t by (rule pydict.distinct_put [OF dist])
    show "name_of ?t k = Some n" if "(n, k) \<in> set (sv_by_name ?t)" for n k
      using that by (auto simp: t in_dict_set [OF dist] in_d dest: by_name_okD(2) [OF bn])
    show "(n, k) \<in> set (sv_by_name ?t)" if "\<not> dead ?t k" "name_of ?t k = Some n" for n k
      using that others [of k] by_name_okD(3) [OF bn, of k n]
      by (auto simp: t in_dict_set [OF dist] in_d split: if_splits)
  qed
qed

lemma set_name_inv:
  assumes inv: "winv {} s" and "valid_name name" and al: "c < sv_next_cl s"
    and others: "\<And>k. \<not> dead s k \<Longrightarrow> name_of s k = Some name \<Longrightarrow> k = c"
  shows "winv {} (set_name c name s)"
proof -
  let ?t = "set_name c name s"
  have cl: "dead ?t k = dead s k" "room_of ?t k = room_of s k"
      "cl_tx (sv_cl ?t k) = cl_tx (sv_cl s k)" "cl_addr (sv_cl ?t k) = cl_addr (sv_cl s k)"
      "name_of ?t k = (if k = c then Some name else name_of s k)"
      "k \<noteq> c \<Longrightarrow> sv_cl ?t k = sv_cl s k" for k
    by (auto simp: set_name_def Let_def store_simps split: option.split)
  have sv: "sv_clients ?t = sv_clients s" "sv_next_cl ?t = sv_next_cl s" "sv_rm ?t = sv_rm s"
      "sv_next_rm ?t = sv_next_rm s" "sv_delay ?t = sv_delay s" "sv_sel ?t = sv_sel s"
    by (auto simp: set_name_def Let_def store_simps split: option.split)
  from inv have bn: "by_name_ok s" by (simp add: winv_def)
  have "by_name_ok ?t" using bn others by (rule set_name_by_name)
  moreover have "names_ok ?t" using inv assms(2) by (simp add: winv_def names_ok_def cl)
  moreover have "clients_ok ?t"
  proof -
    have "per_ip ?t ip = per_ip s ip" for ip
      by (rule per_ip_addr) (simp_all add: sv cl)
    moreover have "sv_cl ?t k = no_client" if "k \<ge> sv_next_cl s" for k
      using inv that al by (simp add: winv_def clients_ok_def cl)
    ultimately show ?thesis using inv by (simp add: winv_def clients_ok_def sv cl)
  qed
  moreover have "tx_ok {} ?t = tx_ok {} s" by (simp only: tx_ok_def cl sv)
  moreover have "crcs_ok ?t = crcs_ok s" by (simp only: crcs_ok_def sv)
  moreover have "rooms_ok ?t"
    using inv unfolding winv_def rooms_ok_def by (simp add: cl sv)
  moreover have "lobby_ok ?t"
  proof -
    have "0 \<le> sv_delay s" "sv_delay s < 256" "\<And>p. sv_lobby s = Some p \<Longrightarrow> pub_inv p"
      using inv by (simp_all add: winv_def lobby_ok_def)
    then show ?thesis
      unfolding set_name_def Let_def
      by (intro lobby_update_counts) (auto simp: store_simps split: option.splits if_splits)
  qed
  ultimately show ?thesis using inv by (simp add: winv_def)
qed

lemma drop_old_name:
  assumes inv: "winv {} s" and old: "dict_get (sv_by_name s) name = Some old" "old \<noteq> c"
    and t: "t = fst (drop_client old why s)" and k: "\<not> dead t k" "name_of t k = Some name"
  shows "k = c"
proof -
  have keeps: "later s t"
    using keepsD [OF drop_client_keeps inv, of old why] t by (simp add: good_def)
  have bn: "by_name_ok s" using inv by (simp add: winv_def)
  have "\<not> dead s k" "name_of s k = Some name"
    using k laterD(1,2) [OF keeps, of k] by auto
  then have "(name, k) \<in> set (sv_by_name s)" by (rule by_name_okD(3) [OF bn])
  then have "dict_get (sv_by_name s) name = Some k"
    using dict_get_in [OF by_name_okD(1) [OF bn]] by simp
  then have "k = old" using old by simp
  with k(1) t drop_client_kills [OF inv, of old why] show ?thesis by simp
qed

text \<open>The first statement of \<open>on_hello\<close>: whoever else held the name is dropped.\<close>

definition evict_name :: "cid \<Rightarrow> pystr \<Rightarrow> sstmt" where
  "evict_name c name s =
     (case dict_get (sv_by_name s) name of
        None \<Rightarrow> skip
      | Some old \<Rightarrow> if old \<noteq> c then drop_client old Replaced else skip) s"

lemma evict_name_frees:
  assumes inv: "winv {} s"
  obtains t where "evict_name c name s = (t, None)" "winv {} t" "later s t"
    "\<And>k. \<not> dead t k \<Longrightarrow> name_of t k = Some name \<Longrightarrow> k = c"
proof (cases "\<exists>old. dict_get (sv_by_name s) name = Some old \<and> old \<noteq> c")
  case True
  then obtain old where old: "dict_get (sv_by_name s) name = Some old" "old \<noteq> c" by blast
  obtain t where t: "drop_client old Replaced s = (t, None)" "winv {} t" "later s t"
    using keeps_fst [OF drop_client_keeps inv] by blast
  have "evict_name c name s = (t, None)" using old t(1) by (simp add: evict_name_def)
  moreover have "k = c" if "\<not> dead t k" "name_of t k = Some name" for k
    using drop_old_name [OF inv old, of t Replaced k] that t(1) by simp
  ultimately show thesis using that t(2,3) by blast
next
  case False
  have bn: "by_name_ok s" using inv by (simp add: winv_def)
  have "evict_name c name s = (s, None)"
    using False by (auto simp: evict_name_def skip_def split: option.split)
  moreover have "k = c" if "\<not> dead s k" "name_of s k = Some name" for k
    using by_name_okD(3) [OF bn that] False dict_get_in [OF by_name_okD(1) [OF bn], of name k]
    by blast
  ultimately show thesis using that [of s] inv by simp
qed

lemma on_hello_eq:
  "on_hello c payload s =
     (if length payload < 3 then (s, Some (ProtocolError ShortHello))
      else if unat (payload ! 0) \<noteq> PROTO_VER
      then (s, Some (ProtocolError (BadVersion (unat (payload ! 0)))))
      else if \<not> valid_name (name_of_payload (tl payload))
      then (s, Some (ProtocolError (BadName (name_of_payload (tl payload)))))
      else seq (evict_name c (name_of_payload (tl payload)))
             (seq (update (set_name c (name_of_payload (tl payload)))) (on_list c)) s)"
  by (simp add: on_hello_def Let_def evict_name_def seq_def)

text \<open>
  What the handlers need to know of the client they serve: it is an object of the server.
\<close>

definition allocated :: "cid \<Rightarrow> server \<Rightarrow> bool" where
  "allocated c s \<longleftrightarrow> c < sv_next_cl s"

lemma later_allocated: "later s t \<Longrightarrow> allocated c t = allocated c s"
  by (simp add: later_def allocated_def)

lemma hello_accept:
  assumes inv: "winv {} s" and al: "allocated c s" and v: "valid_name name"
  obtains t u where "evict_name c name s = (t, None)" "winv {} t" "later s t"
    "winv {} (set_name c name t)"
    "seq (evict_name c name) (seq (update (set_name c name)) (on_list c)) s = (u, None)"
    "on_list c (set_name c name t) = (u, None)" "winv {} u" "later (set_name c name t) u"
proof -
  obtain t where t: "evict_name c name s = (t, None)" "winv {} t" "later s t"
      "\<And>k. \<not> dead t k \<Longrightarrow> name_of t k = Some name \<Longrightarrow> k = c"
    using evict_name_frees [OF inv] by blast
  have "c < sv_next_cl t"
    using al later_allocated [OF t(3), of c] by (simp add: allocated_def)
  then have inv': "winv {} (set_name c name t)" using t(2,4) v by (intro set_name_inv)
  obtain u where u: "on_list c (set_name c name t) = (u, None)" "winv {} u"
      "later (set_name c name t) u"
    using keeps_fst [OF on_list_keeps inv'] by blast
  have "seq (evict_name c name) (seq (update (set_name c name)) (on_list c)) s = (u, None)"
    by (simp add: stmt_simps t(1) seq_def u(1))
  with t inv' u that show thesis by blast
qed

definition tame_for :: "cid \<Rightarrow> sstmt \<Rightarrow> bool" where
  "tame_for c f \<longleftrightarrow> (\<forall>s. winv {} s \<and> allocated c s \<longrightarrow>
     winv {} (fst (f s)) \<and> sv_next_cl s \<le> sv_next_cl (fst (f s)) \<and>
     (snd (f s) = None \<or> (\<exists>e. snd (f s) = Some (ProtocolError e))))"

lemma keeps_tame_for: "keeps f \<Longrightarrow> tame_for c f"
  using keepsD by (fastforce simp: tame_for_def good_def later_def)

lemma set_name_next [simp]: "sv_next_cl (set_name c name s) = sv_next_cl s"
  by (auto simp: set_name_def Let_def store_simps split: option.split)

lemma on_hello_tame: "tame_for c (on_hello c payload)"
  unfolding tame_for_def
proof (intro allI impI)
  fix s assume s: "winv {} s \<and> allocated c s"
  let ?n = "name_of_payload (tl payload)"
  show "winv {} (fst (on_hello c payload s)) \<and> sv_next_cl s \<le> sv_next_cl (fst (on_hello c payload s)) \<and>
    (snd (on_hello c payload s) = None \<or> (\<exists>e. snd (on_hello c payload s) = Some (ProtocolError e)))"
  proof (cases "length payload < 3 \<or> unat (payload ! 0) \<noteq> PROTO_VER \<or> \<not> valid_name ?n")
    case True
    with s show ?thesis by (auto simp: on_hello_eq)
  next
    case False
    then have "valid_name ?n" by simp
    then obtain t u where "later s t" "winv {} u" "later (set_name c ?n t) u"
        "seq (evict_name c ?n) (seq (update (set_name c ?n)) (on_list c)) s = (u, None)"
      using hello_accept s by blast
    with False show ?thesis by (simp add: on_hello_eq later_def)
  qed
qed

section \<open>JOIN\<close>

text \<open>A client joining a client that is alone: the room comes into being with both.\<close>

lemma join_solo_inv:
  assumes inv: "winv {} s" and c: "allocated c s" "name_of s c \<noteq> None" "room_of s c = None"
    and t: "target \<noteq> c" "name_of s target \<noteq> None" "room_of s target = None"
    and st: "target_room target s = (r, s1)"
  shows "winv {} (enter_room c r s1)"
proof -
  let ?t = "enter_room c r s1"
  have r: "r = sv_next_rm s" using st t(3) by (simp add: target_room_def Let_def)
  have s1: "s1 = upd_cl target (\<lambda>k. k\<lparr>cl_room := Some r\<rparr>)
      (s\<lparr>sv_next_rm := Suc r, sv_rm := (sv_rm s)(r := room_init target)\<rparr>)"
    using st t(3) by (auto simp: target_room_def Let_def)
  have cl: "dead ?t k = dead s k" "name_of ?t k = name_of s k"
      "cl_tx (sv_cl ?t k) = cl_tx (sv_cl s k)" "cl_addr (sv_cl ?t k) = cl_addr (sv_cl s k)"
      "room_of ?t k = (if k = c \<or> k = target then Some r else room_of s k)"
      "k \<noteq> c \<Longrightarrow> k \<noteq> target \<Longrightarrow> sv_cl ?t k = sv_cl s k" for k
    by (auto simp: enter_room_def Let_def s1 store_simps)
  have sv: "sv_clients ?t = sv_clients s" "sv_next_cl ?t = sv_next_cl s"
      "sv_next_rm ?t = Suc r" "sv_delay ?t = sv_delay s" "sv_sel ?t = sv_sel s"
      "sv_by_name ?t = sv_by_name s" "sv_lobby ?t = sv_lobby s"
      "sv_rm ?t q = (if q = r then (room_init target)\<lparr>rm_members := [target, c]\<rparr> else sv_rm s q)" for q
    by (simp_all add: enter_room_def Let_def s1 store_simps room_init_def)
  have named: "k < sv_next_cl s" if "name_of s k \<noteq> None" for k
  proof (rule ccontr)
    assume "\<not> k < sv_next_cl s"
    then have "sv_cl s k = no_client" using inv by (simp add: winv_def clients_ok_def)
    with that show False by (simp add: no_client_def)
  qed
  have old: "members s r = []" using inv roomsD(4) [of s r] by (simp add: winv_def r no_room_def room_init_def)
  have "names_ok ?t = names_ok s" "by_name_ok ?t = by_name_ok s" "tx_ok {} ?t = tx_ok {} s"
      "lobby_ok ?t = lobby_ok s"
    by (simp_all only: names_ok_def by_name_ok_def tx_ok_def lobby_ok_def cl sv)
  moreover have "clients_ok ?t"
  proof -
    have "per_ip ?t ip = per_ip s ip" for ip
      by (rule per_ip_addr) (simp_all add: sv cl)
    moreover have "sv_cl ?t k = no_client" if "k \<ge> sv_next_cl s" for k
    proof -
      have "k \<noteq> c" "k \<noteq> target"
        using that named [of c] named [of target] c(2) t(2) by auto
      then show ?thesis using inv that by (simp add: winv_def clients_ok_def cl)
    qed
    ultimately show ?thesis using inv by (simp add: winv_def clients_ok_def sv cl)
  qed
  moreover have "rooms_ok ?t"
    unfolding rooms_ok_def
  proof (intro conjI allI impI)
    have rs: "rooms_ok s" using inv by (simp add: winv_def)
    fix q k
    show "members ?t q = [] \<or> length (members ?t q) = 2 \<and> distinct (members ?t q)"
      using roomsD(1) [OF rs, of q] t(1) by (simp add: sv)
    show "k \<in> set (members ?t q) \<longleftrightarrow> room_of ?t k = Some q"
      using roomsD(2) [OF rs, of k q] roomsD(2) [OF rs, of k r] old c(3) t(3) by (auto simp: sv cl)
    show "name_of ?t k \<noteq> None" if "room_of ?t k \<noteq> None"
      using roomsD(3) [OF rs, of k] that c(2) t(2) by (auto simp: cl split: if_splits)
    show "sv_rm ?t q = no_room" if "sv_next_rm ?t \<le> q"
      using roomsD(4) [OF rs, of q] that by (simp only: sv) (simp add: r)
  qed
  moreover have "crcs_ok ?t"
    using inv by (auto simp: winv_def crcs_ok_def crc_table_ok_def sv room_init_def dict_keys_def
        dict_values_def)
  ultimately show ?thesis using inv by (simp add: winv_def)
qed

text \<open>With two seats a room that is not empty is full, so every join makes a room.\<close>

lemma joinable_solo:
  assumes inv: "winv {} s" and j: "joinable s c target"
  shows "room_of s target = None"
proof (rule ccontr)
  assume "room_of s target \<noteq> None"
  then obtain r where r: "room_of s target = Some r" by blast
  have rs: "rooms_ok s" using inv by (simp add: winv_def)
  have "target \<in> set (members s r)" using r roomsD(2) [OF rs] by simp
  then have "length (members s r) = 2" using roomsD(1) [OF rs, of r] by auto
  with j r show False by (simp add: joinable_def MAX_SEATS_def)
qed

section \<open>Starting a match\<close>

text \<open>The state a match starts in: everything of \<open>start_room\<close> before its messages.\<close>

definition begin_match :: "rid \<Rightarrow> server \<Rightarrow> server" where
  "begin_match r s =
     upd_rm r (\<lambda>k. k\<lparr>rm_started := True, rm_seed := randrange (sv_rng s (sv_rng_pos s)),
                    rm_crc := [], rm_crc_ok := 0\<rparr>) (s\<lparr>sv_rng_pos := Suc (sv_rng_pos s)\<rparr>)"

lemma begin_match_fields [simp]:
  "sv_cl (begin_match r s) = sv_cl s" "members (begin_match r s) q = members s q"
  "sv_next_cl (begin_match r s) = sv_next_cl s" "sv_delay (begin_match r s) = sv_delay s"
  "sv_by_name (begin_match r s) = sv_by_name s" "sv_clients (begin_match r s) = sv_clients s"
  "sv_next_rm (begin_match r s) = sv_next_rm s" "sv_sel (begin_match r s) = sv_sel s"
  "sv_lobby (begin_match r s) = sv_lobby s"
  "rm_started (sv_rm (begin_match r s) r)"
  "rm_seed (sv_rm (begin_match r s) r) = randrange (sv_rng s (sv_rng_pos s))"
  "q \<noteq> r \<Longrightarrow> sv_rm (begin_match r s) q = sv_rm s q"
  by (simp_all add: begin_match_def store_simps)

lemma begin_match_inv:
  assumes inv: "winv {} s" and r: "r < sv_next_rm s"
  shows "winv {} (begin_match r s)"
proof -
  let ?t = "begin_match r s"
  have rs: "rooms_ok s" using inv by (simp add: winv_def)
  have "names_ok ?t = names_ok s" "by_name_ok ?t = by_name_ok s" "tx_ok {} ?t = tx_ok {} s"
      "lobby_ok ?t = lobby_ok s"
    by (simp_all only: names_ok_def by_name_ok_def tx_ok_def lobby_ok_def begin_match_fields)
  moreover have "clients_ok ?t = clients_ok s"
    by (simp add: clients_ok_def per_ip_def)
  moreover have "rooms_ok ?t"
    unfolding rooms_ok_def
  proof (intro conjI allI impI)
    fix q k
    show "sv_rm ?t q = no_room" if "sv_next_rm ?t \<le> q"
    proof -
      have "sv_rm s q = no_room" using that roomsD(4) [OF rs, of q] by simp
      moreover have "q \<noteq> r" using r that by auto
      ultimately show ?thesis by simp
    qed
  qed (use roomsD [OF rs] in simp_all)
  moreover have "crcs_ok ?t"
    using inv by (auto simp: winv_def crcs_ok_def crc_table_ok_def begin_match_def store_simps
        dict_keys_def dict_values_def)
  ultimately show ?thesis using inv by (simp add: winv_def)
qed

lemma randrange_bounds: "1 \<le> randrange raw" "randrange raw < 65536"
  by (simp_all add: randrange_def)

text \<open>The part of START that is the same for every seat.\<close>

definition start_common :: "rid \<Rightarrow> server \<Rightarrow> byte list" where
  "start_common r s =
     [word_of_nat (length (members s r)), word_of_nat (lo8 (rm_seed (sv_rm s r))),
      word_of_nat (hi8 (rm_seed (sv_rm s r))), word_of_int (sv_delay s)] @ roster_bytes s r"

lemma length_start_common: "winv {} s \<Longrightarrow> length (start_common r s) = 36"
  by (simp add: start_common_def length_roster_bytes)

lemma start_room_eq:
  assumes inv: "winv {} s" and r: "r < sv_next_rm s"
  defines "t \<equiv> begin_match r s"
  shows "start_room r s =
    seq (for_members r (\<lambda>i m. bind_val (bytes_of [int i]) (\<lambda>st.
           send_frame m T_START (st @ start_common r t))))
        (\<lambda>x. update lobby_update
           (log_it (LMatch (room_repr x r) (length (members x r)) (rm_seed (sv_rm x r))) x)) t"
proof -
  have inv': "winv {} t" unfolding t_def by (rule begin_match_inv [OF inv r])
  have len: "length (members t r) \<le> 2" using members_le [OF inv'] by (simp add: MAX_SEATS_def)
  have seed: "lo8 (rm_seed (sv_rm t r)) < 256" "hi8 (rm_seed (sv_rm t r)) < 256"
    using randrange_bounds [of "sv_rng s (sv_rng_pos s)"] by (simp_all add: t_def lo8_eq hi8_eq)
  have del: "0 \<le> sv_delay t" "sv_delay t < 256"
    using inv' by (simp_all add: winv_def lobby_ok_def)
  have hdr: "bytes_of [int (length (members t r)), int (lo8 (rm_seed (sv_rm t r))),
      int (hi8 (rm_seed (sv_rm t r))), sv_delay t] =
      Inr [word_of_nat (length (members t r)), word_of_nat (lo8 (rm_seed (sv_rm t r))),
        word_of_nat (hi8 (rm_seed (sv_rm t r))), word_of_int (sv_delay t)]"
    using len seed del by (simp add: bytes_of_def)
  have t: "upd_rm r (\<lambda>k. k\<lparr>rm_started := True, rm_seed := randrange (sv_rng s (sv_rng_pos s)),
                    rm_crc := [], rm_crc_ok := 0\<rparr>) (s\<lparr>sv_rng_pos := Suc (sv_rng_pos s)\<rparr>) = t"
    by (simp add: t_def begin_match_def)
  show ?thesis
    by (simp only: start_room_def Let_def t hdr roster_eq [OF inv'] bind_val_Inr start_common_def
        append.simps append_assoc)
qed

lemma start_frame_keeps:
  assumes "length common = 36" and "i < MAX_SEATS"
  shows "keeps (bind_val (bytes_of [int i]) (\<lambda>st. send_frame m T_START (st @ common)))"
  using assms by (simp add: bytes_of_def MAX_SEATS_def send_frame_keeps)

lemma start_room_good:
  assumes inv: "winv {} s" and r: "r < sv_next_rm s"
  shows "good (begin_match r s) (start_room r s)"
  unfolding start_room_eq [OF assms]
proof (rule good_seq)
  have inv': "winv {} (begin_match r s)" by (rule begin_match_inv [OF assms])
  show "good (begin_match r s) (for_members r (\<lambda>i m. bind_val (bytes_of [int i])
      (\<lambda>st. send_frame m T_START (st @ start_common r (begin_match r s)))) (begin_match r s))"
    by (intro keepsD [OF keeps_for_members inv'] start_frame_keeps length_start_common [OF inv'])
  fix t assume "winv {} t"
  then show "good t (update lobby_update
      (log_it (LMatch (room_repr t r) (length (members t r)) (rm_seed (sv_rm t r))) t))"
    by (auto simp: update_def good_pair lobby_update_inv
        intro: later_trans [OF later_log_it later_lobby_update])
qed

lemma start_room_tame:
  assumes "winv {} s" and "r < sv_next_rm s"
  shows "snd (start_room r s) = None \<and> winv {} (fst (start_room r s)) \<and>
    sv_next_cl (fst (start_room r s)) = sv_next_cl s"
  using start_room_good [OF assms] by (simp add: good_def later_def)

section \<open>JOIN and GO\<close>

lemma join_next [simp]:
  "sv_next_cl (enter_room c r s1) = sv_next_cl s1"
  by (simp add: enter_room_def Let_def store_simps)

lemma target_room_next: "target_room target s = (r, s1) \<Longrightarrow> sv_next_cl s1 = sv_next_cl s"
  by (auto simp: target_room_def Let_def store_simps split: option.splits)

text \<open>The end of \<open>on_join\<close>: the room is announced, and the rig's automatic start.\<close>

definition announce :: "rid \<Rightarrow> sstmt" where
  "announce r =
     seq (room_broadcast r)
     (seq (update lobby_update)
          (\<lambda>x. if sv_auto_go x \<noteq> 0 \<and> int (length (members x r)) \<ge> sv_auto_go x
               then start_room r x else (x, None)))"

lemma announce_tame:
  assumes inv: "winv {} s" and r: "r < sv_next_rm s"
  shows "snd (announce r s) = None \<and> winv {} (fst (announce r s)) \<and>
    sv_next_cl (fst (announce r s)) = sv_next_cl s"
proof -
  obtain t where t: "seq (room_broadcast r) (update lobby_update) s = (t, None)" "winv {} t" "later s t"
    using keeps_fst [OF keeps_seq [OF room_broadcast_keeps keeps_lobby_update] inv] by blast
  let ?g = "\<lambda>x. if sv_auto_go x \<noteq> 0 \<and> int (length (members x r)) \<ge> sv_auto_go x
               then start_room r x else (x, None)"
  have "announce r s = seq (seq (room_broadcast r) (update lobby_update)) ?g s"
    by (simp only: announce_def seq_assoc)
  then have eq: "announce r s = ?g t" by (simp add: stmt_simps t(1))
  have next_cl: "sv_next_cl t = sv_next_cl s" using t(3) by (simp add: later_def)
  show ?thesis
  proof (cases "sv_auto_go t \<noteq> 0 \<and> int (length (members t r)) \<ge> sv_auto_go t")
    case True
    have "r < sv_next_rm t" using r t(3) by (simp add: later_def)
    from start_room_tame [OF t(2) this] True show ?thesis by (simp add: eq next_cl)
  next
    case False
    then have "?g t = (t, None)" by auto
    with t(2) show ?thesis by (simp add: eq next_cl)
  qed
qed

lemma on_join_eq:
  "on_join c payload s =
     (if name_of s c = None then (s, Some (ProtocolError JoinBeforeHello))
      else if room_of s c \<noteq> None then (s, None)
      else
        (case dict_get (sv_by_name s) (name_of_payload payload) of
           None \<Rightarrow> on_list c s
         | Some target \<Rightarrow>
             if \<not> joinable s c target then on_list c s
             else (case target_room target s of (r, s1) \<Rightarrow> announce r (enter_room c r s1))))"
  by (simp only: on_join_def announce_def)

lemma occupied_allocated:
  assumes "winv X s" and "room_of s c = Some r"
  shows "r < sv_next_rm s"
proof (rule ccontr)
  assume "\<not> r < sv_next_rm s"
  then have "members s r = []"
    using assms(1) roomsD(4) [of s r] by (simp add: winv_def no_room_def)
  then show False using assms roomsD(2) [of s c r] by (simp add: winv_def)
qed

lemma on_join_tame: "tame_for c (on_join c payload)"
  unfolding tame_for_def
proof (intro allI impI)
  fix s assume s: "winv {} s \<and> allocated c s"
  then have inv: "winv {} s" and al: "allocated c s" by simp_all
  let ?tame = "\<lambda>res. winv {} (fst res) \<and> sv_next_cl s \<le> sv_next_cl (fst res) \<and>
    (snd res = None \<or> (\<exists>e. snd res = Some (ProtocolError e)))"
  have list: "?tame (on_list c s)"
    using keepsD [OF on_list_keeps inv, of c] by (simp add: good_def later_def)
  have join: "?tame (case target_room target s of (r, s1) \<Rightarrow> announce r (enter_room c r s1))"
    if c: "name_of s c \<noteq> None" "room_of s c = None" and j: "joinable s c target" for target
  proof -
    obtain r s1 where st: "target_room target s = (r, s1)" by fastforce
    have solo: "room_of s target = None" by (rule joinable_solo [OF inv j])
    have t: "target \<noteq> c" "name_of s target \<noteq> None" using j by (simp_all add: joinable_def)
    have inv': "winv {} (enter_room c r s1)"
      by (rule join_solo_inv [OF inv al c t solo st])
    have r: "r < sv_next_rm (enter_room c r s1)"
      using st solo by (auto simp: target_room_def Let_def enter_room_def store_simps)
    show ?thesis
      using announce_tame [OF inv' r] target_room_next [OF st] by (simp add: st)
  qed
  show "?tame (on_join c payload s)"
    unfolding on_join_eq using inv list join by (auto split: option.split)
qed

lemma on_go_tame: "tame_for c (on_go c)"
  unfolding tame_for_def
proof (intro allI impI)
  fix s assume s: "winv {} s \<and> allocated c s"
  then have inv: "winv {} s" by simp
  show "winv {} (fst (on_go c s)) \<and> sv_next_cl s \<le> sv_next_cl (fst (on_go c s)) \<and>
    (snd (on_go c s) = None \<or> (\<exists>e. snd (on_go c s) = Some (ProtocolError e)))"
  proof (cases "room_of s c")
    case None
    with inv show ?thesis by (simp add: on_go_def)
  next
    case (Some r)
    obtain i where i: "seat s c = Inr (Some i)" by (rule seat_member [OF inv Some])
    show ?thesis
      using start_room_tame [OF inv occupied_allocated [OF inv Some]] inv Some
      by (simp add: on_go_def i skip_def)
  qed
qed

section \<open>The CRC table\<close>

lemma length_dict_set: "length (dict_set d k v) \<le> Suc (length d)"
  by (induction d k v rule: dict_set.induct) auto

lemma length_dict_del_le: "length (dict_del d k) \<le> length d"
  by (simp add: dict_del_def)

lemma length_dict_del_less: "k \<in> set (dict_keys d) \<Longrightarrow> length (dict_del d k) < length d"
  by (auto simp: dict_del_def dict_keys_def intro: length_filter_less)

lemma values_dict_set: "set (dict_values (dict_set d k v)) \<subseteq> insert v (set (dict_values d))"
  by (induction d k v rule: dict_set.induct) (auto simp: dict_values_def)

lemma values_dict_del: "set (dict_values (dict_del d k)) \<subseteq> set (dict_values d)"
  by (auto simp: dict_del_def dict_values_def)

lemma dict_get_values: "dict_get d k = Some v \<Longrightarrow> v \<in> set (dict_values d)"
  using imageI [OF map_of_SomeD, of d k v snd] by (simp add: dict_get_def dict_values_def)

lemma crc_evict_ok:
  assumes "length d \<le> 65" and "distinct (dict_keys d)"
  shows "length (crc_evict d) \<le> 64" and "distinct (dict_keys (crc_evict d))"
    and "set (dict_values (crc_evict d)) \<subseteq> set (dict_values d)"
proof -
  show "distinct (dict_keys (crc_evict d))" using assms(2) by (simp add: crc_evict_def pydict.distinct_del)
  show "set (dict_values (crc_evict d)) \<subseteq> set (dict_values d)"
    by (simp add: crc_evict_def values_dict_del)
  show "length (crc_evict d) \<le> 64"
  proof (cases "length d > 64")
    case True
    then have "dict_keys d \<noteq> []" by (auto simp: dict_keys_def)
    then have "Min (set (dict_keys d)) \<in> set (dict_keys d)" by (intro Min_in) auto
    from length_dict_del_less [OF this] assms(1) True show ?thesis by (simp add: crc_evict_def)
  qed (simp add: crc_evict_def)
qed

lemma crc_entry_distinct:
  assumes "crc_table_ok k"
  shows "distinct (dict_keys (crc_entry k tick))"
  using assms dict_get_values [of "rm_crc k" tick]
  by (auto simp: crc_entry_def crc_table_ok_def dict_keys_def split: option.split)

lemma crc_store_ok:
  assumes ok: "crc_table_ok k"
  shows "crc_table_ok (crc_store k tick seat_no crc)"
proof -
  let ?e = "dict_set (crc_entry k tick) seat_no crc"
  let ?d = "dict_set (rm_crc k) tick ?e"
  have e: "distinct (dict_keys ?e)"
    using crc_entry_distinct [OF ok] by (rule pydict.distinct_put)
  have len: "length ?d \<le> 65"
    using ok length_dict_set [of "rm_crc k" tick ?e] by (simp add: crc_table_ok_def)
  have dist: "distinct (dict_keys ?d)"
    using ok by (simp add: crc_table_ok_def pydict.distinct_put)
  show ?thesis
    using crc_evict_ok [OF len dist] values_dict_set [of "rm_crc k" tick ?e] e ok
    by (auto simp: crc_table_ok_def crc_store_def)
qed

lemma crc_verdict_ok:
  assumes "crc_table_ok k"
  shows "crc_table_ok (fst (crc_verdict k tick entry))"
  using assms values_dict_del [of "rm_crc k" tick] length_dict_del_le [of "rm_crc k" tick]
  by (auto simp: crc_verdict_def Let_def crc_table_ok_def pydict.distinct_del)

lemma crc_round_ok:
  "crc_table_ok k \<Longrightarrow> crc_table_ok (fst (crc_round k tick seat_no crc))"
  by (simp add: crc_round_def Let_def crc_store_ok crc_verdict_ok)

lemma crc_round_frame:
  "rm_members (fst (crc_round k tick seat_no crc)) = rm_members k"
  "rm_started (fst (crc_round k tick seat_no crc)) = rm_started k"
  "rm_seed (fst (crc_round k tick seat_no crc)) = rm_seed k"
  by (simp_all add: crc_round_def crc_verdict_def crc_store_def Let_def)

lemma log_crc_inv:
  assumes inv: "winv {} s" and r: "r < sv_next_rm s"
  shows "winv {} (log_crc r payload s) \<and> sv_next_cl (log_crc r payload s) = sv_next_cl s"
proof -
  let ?res = "crc_round (sv_rm s r) (le16 (payload ! 1) (payload ! 2)) (unat (payload ! 0))
             (le16 (payload ! 3) (payload ! 4))"
  let ?t = "upd_rm r (\<lambda>_. fst ?res) s"
  have rs: "rooms_ok s" using inv by (simp add: winv_def)
  have sv: "sv_cl ?t = sv_cl s" "sv_clients ?t = sv_clients s" "sv_next_cl ?t = sv_next_cl s"
      "sv_by_name ?t = sv_by_name s" "sv_next_rm ?t = sv_next_rm s" "sv_delay ?t = sv_delay s"
      "sv_lobby ?t = sv_lobby s" "sv_sel ?t = sv_sel s" "members ?t q = members s q"
      "q \<noteq> r \<Longrightarrow> sv_rm ?t q = sv_rm s q" for q
    by (simp_all add: store_simps crc_round_frame)
  have "names_ok ?t = names_ok s" "by_name_ok ?t = by_name_ok s" "tx_ok {} ?t = tx_ok {} s"
      "lobby_ok ?t = lobby_ok s"
    by (simp_all only: names_ok_def by_name_ok_def tx_ok_def lobby_ok_def sv)
  moreover have "clients_ok ?t = clients_ok s"
    by (simp only: clients_ok_def per_ip_def sv)
  moreover have "rooms_ok ?t"
    unfolding rooms_ok_def
  proof (intro conjI allI impI)
    fix q
    show "sv_rm ?t q = no_room" if "sv_next_rm ?t \<le> q"
      using that r roomsD(4) [OF rs, of q] by (simp add: store_simps)
  qed (use roomsD [OF rs] in \<open>simp_all only: sv\<close>)
  moreover have "crcs_ok ?t"
    using inv by (auto simp: winv_def crcs_ok_def store_simps crc_round_ok)
  ultimately have t: "winv {} ?t" using inv by (simp add: winv_def)
  show ?thesis
    by (cases ?res; cases "snd ?res") (use t sv(3) in \<open>simp_all add: log_crc_def\<close>)
qed

section \<open>Relayed frames and the dispatch\<close>

lemma relay_loop_keeps:
  "keeps (for_members r (\<lambda>_ m. if m \<noteq> c then send m data else skip))"
  by (intro keeps_for_members) (simp add: send_keeps keeps_skip)

lemma relay_frame_tame:
  assumes len: "length payload \<le> 199"
  shows "tame_for c (relay_frame c ftype payload)"
  unfolding tame_for_def
proof (intro allI impI)
  fix s assume s: "winv {} s \<and> allocated c s"
  then have inv: "winv {} s" by simp
  show "winv {} (fst (relay_frame c ftype payload s)) \<and>
    sv_next_cl s \<le> sv_next_cl (fst (relay_frame c ftype payload s)) \<and>
    (snd (relay_frame c ftype payload s) = None \<or>
     (\<exists>e. snd (relay_frame c ftype payload s) = Some (ProtocolError e)))"
  proof (cases "\<exists>r. room_of s c = Some r \<and> rm_started (sv_rm s r)")
    case False
    with inv show ?thesis by (auto simp: relay_frame_def split: option.split)
  next
    case True
    then obtain r where r: "room_of s c = Some r" "rm_started (sv_rm s r)" by blast
    let ?t = "(if ftype = T_CRC \<and> length payload = 5 then log_crc r payload else id) s"
    have t: "winv {} ?t" "sv_next_cl ?t = sv_next_cl s"
      using log_crc_inv [OF inv occupied_allocated [OF inv r(1)]] inv by simp_all
    have "relay_frame c ftype payload s =
        for_members r (\<lambda>_ m. if m \<noteq> c then send m (enframe ftype payload) else skip) ?t"
      using r len by (simp add: relay_frame_def seq_def update_def frame_enframe)
    with keepsD [OF relay_loop_keeps t(1), of r c "enframe ftype payload"] t(2) show ?thesis
      by (simp add: good_def later_def)
  qed
qed

lemma handle_tame:
  assumes "length payload \<le> 199"
  shows "tame_for c (handle c ftype payload)"
proof -
  have "tame_for c (raise (ProtocolError (UnknownType ftype)))"
    by (simp add: tame_for_def raise_def)
  then show ?thesis
    unfolding handle_def
    using relay_frame_tame [OF assms] on_hello_tame on_join_tame on_go_tame
      keeps_tame_for [OF on_list_keeps] keeps_tame_for [OF drop_client_keeps]
      keeps_tame_for [OF send_frame_keeps]
    by (auto split: if_splits)
qed

end
