(* ===== verification/RunInv.thy ===== *)
theory RunInv
  imports Handlers
begin

text \<open>
  The read path and the event loop: the invariant holds between any two events of any
  run, and no exception but a failing \<^verbatim>\<open>accept\<close> reaches the loop.
\<close>

section \<open>The read path\<close>

text \<open>\<open>sound c s res\<close>: no exception, the invariant, and no object has gone.\<close>

definition sound :: "server \<Rightarrow> server \<times> exn option \<Rightarrow> bool" where
  "sound s res \<longleftrightarrow> snd res = None \<and> winv {} (fst res) \<and> sv_next_cl s \<le> sv_next_cl (fst res)"

lemma good_sound: "good s res \<Longrightarrow> sound s res"
  by (simp add: good_def sound_def later_def)

lemma sound_trans: "sound s (t, None) \<Longrightarrow> sound t res \<Longrightarrow> sound s res"
  by (auto simp: sound_def)

lemma sound_drop:
  assumes "sound s (t, None)"
  shows "sound s (drop_client c why t)"
proof -
  have "winv {} t" using assms by (simp add: sound_def)
  then show ?thesis
    by (rule sound_trans [OF assms good_sound [OF keepsD [OF drop_client_keeps]]])
qed

lemma body_length: "length (tl (take (unat l) rest)) \<le> 199 \<or> unat (l :: byte) > 200"
  by auto

lemma service_loop_sound:
  "winv {} s \<Longrightarrow> allocated c s \<Longrightarrow>
   sound s (fst (service_loop c rx s), snd (snd (service_loop c rx s)))"
proof (induction c rx s rule: service_loop.induct)
  case (1 c rx s)
  have s0: "sound s (s, None)" using "1.prems" by (simp add: sound_def)
  show ?case
  proof (cases rx)
    case Nil
    with s0 show ?thesis by (simp add: service_loop.simps)
  next
    case (Cons l rest)
    consider (bad) "unat l + 1 < 2 \<or> unat l > 200"
      | (wait) "\<not> (unat l + 1 < 2 \<or> unat l > 200)" "length rx < unat l + 1"
      | (go) "\<not> (unat l + 1 < 2 \<or> unat l > 200)" "\<not> length rx < unat l + 1"
      by blast
    then show ?thesis
    proof cases
      case bad
      with Cons sound_drop [OF s0, of c "BadFrameLength (unat l)"] show ?thesis
        by (simp add: service_loop.simps [of c "l # rest"] Let_def case_prod_unfold)
    next
      case wait
      with Cons s0 show ?thesis by (simp add: service_loop.simps [of c "l # rest"] Let_def)
    next
      case go
      let ?t = "hd (take (unat l) rest)" and ?p = "tl (take (unat l) rest)"
      let ?rx = "drop (unat l + 1) rx"
      have "tame_for c (handle c ?t ?p)"
        using go(1) by (intro handle_tame) auto
      with "1.prems" have h: "winv {} (fst (handle c ?t ?p s))"
          "sv_next_cl s \<le> sv_next_cl (fst (handle c ?t ?p s))"
          "snd (handle c ?t ?p s) = None \<or> (\<exists>e. snd (handle c ?t ?p s) = Some (ProtocolError e))"
        by (simp_all add: tame_for_def)
      obtain u e where u: "handle c ?t ?p s = (u, e)" by fastforce
      have su: "sound s (u, None)" using h u by (simp add: sound_def)
      have loop: "service_loop c rx s =
          (case e of
             Some (ProtocolError x) \<Rightarrow> (case drop_client c (Protocol x) u of (v, y) \<Rightarrow> (v, ?rx, y))
           | Some x \<Rightarrow> (u, ?rx, Some x)
           | None \<Rightarrow> if dead u c then (u, ?rx, None) else service_loop c ?rx u)"
        using Cons go u by (simp add: service_loop.simps [of c "l # rest"] Let_def split: option.split exn.split)
      show ?thesis
      proof (cases e)
        case (Some x)
        with h(3) u obtain y where "x = ProtocolError y" by auto
        with Some loop sound_drop [OF su, of c "Protocol y"] show ?thesis
          by (simp add: case_prod_unfold)
      next
        case None
        show ?thesis
        proof (cases "dead u c")
          case True
          with None loop su show ?thesis by simp
        next
          case False
          have al: "allocated c u" using "1.prems"(2) su by (simp add: sound_def allocated_def)
          have "winv {} u" using su by (simp add: sound_def)
          from "1.IH" [OF Cons refl _ _ refl refl u [symmetric, unfolded None]] go False this al None
          have "sound u (fst (service_loop c ?rx u), snd (snd (service_loop c ?rx u)))"
            using Cons by simp
          with None loop False su show ?thesis by (auto intro: sound_trans)
        qed
      qed
    qed
  qed
qed

definition rsound :: "relay \<Rightarrow> relay \<times> exn option \<Rightarrow> bool" where
  "rsound x res \<longleftrightarrow> sound (rl_server x) (rl_server (fst res), snd res)"

lemma rsound_on_server: "sound (rl_server x) (f (rl_server x)) \<Longrightarrow> rsound x (on_server f x)"
  by (simp add: rsound_def on_server_def case_prod_unfold)

lemma rsound_skip: "winv {} (rl_server x) \<Longrightarrow> rsound x (x, None)"
  by (simp add: rsound_def sound_def)

lemma alive_is_allocated: "winv X s \<Longrightarrow> \<not> dead s c \<Longrightarrow> allocated c s"
  by (simp add: winv_def alive_allocated allocated_def)

lemma service_sound:
  assumes inv: "winv {} (rl_server x)" and alive: "\<not> dead (rl_server x) c"
  shows "rsound x (service c res x)"
proof (cases res)
  case RecvBlock
  with inv show ?thesis by (simp add: service_def rsound_skip)
next
  case RecvFail
  with inv show ?thesis
    by (auto simp: service_def intro!: rsound_on_server good_sound keepsD [OF drop_client_keeps])
next
  case (RecvData data)
  show ?thesis
  proof (cases "data = []")
    case True
    with RecvData inv show ?thesis
      by (auto simp: service_def intro!: rsound_on_server good_sound keepsD [OF drop_client_keeps])
  next
    case False
    have "sound (rl_server x) (fst (service_loop c (rl_rx x c @ data) (rl_server x)),
        snd (snd (service_loop c (rl_rx x c @ data) (rl_server x))))"
      by (rule service_loop_sound [OF inv alive_is_allocated [OF inv alive]])
    with RecvData False show ?thesis
      by (simp add: service_def rsound_def case_prod_unfold)
  qed
qed

lemma rsound_seq:
  assumes "rsound x (f x)" and "\<And>y. winv {} (rl_server y) \<Longrightarrow> rsound y (g y)"
  shows "rsound x (seq f g x)"
proof -
  obtain y where y: "f x = (y, None)" "winv {} (rl_server y)"
      "sv_next_cl (rl_server x) \<le> sv_next_cl (rl_server y)"
    using assms(1) by (cases "f x") (auto simp: rsound_def sound_def)
  from assms(2) [OF y(2)] y(3) show ?thesis
    by (simp add: stmt_simps y(1) rsound_def sound_def)
qed

lemma serve_body_sound:
  assumes inv: "winv {} (rl_server x)"
  shows "rsound x (serve_body c writable readable x)"
  unfolding serve_body_def
proof (rule rsound_seq)
  show "rsound x (if writable \<and> \<not> dead (rl_server x) c then on_server (flush c) x else (x, None))"
    using inv by (auto intro!: rsound_on_server good_sound flush_keeps rsound_skip)
  show "rsound y (case readable of None \<Rightarrow> (y, None)
      | Some res \<Rightarrow> if \<not> dead (rl_server y) c then service c res y else (y, None))"
    if "winv {} (rl_server y)" for y
    using that by (auto simp: service_sound rsound_skip split: option.split)
qed

text \<open>The handler of unexpected exceptions in \<open>run\<close> is never entered.\<close>

lemma serve_eq_body:
  assumes "winv {} (rl_server x)"
  shows "serve c writable readable x = serve_body c writable readable x"
proof -
  have "snd (serve_body c writable readable x) = None"
    using serve_body_sound [OF assms, of c writable readable] by (simp add: rsound_def sound_def)
  then show ?thesis by (cases "serve_body c writable readable x") (simp add: serve_def)
qed

section \<open>Connections, sweep\<close>

lemma reject_inv [simp]: "winv X (reject e s) = winv X s"
  by (simp add: reject_def)

lemma accept_cases:
  obtains (full) e where "accept addr now script s = reject e s"
  | (new) "length (sv_clients s) < MAX_CLIENTS" "per_ip s (fst addr) < MAX_CONNECTIONS_PER_IP"
      "accept addr now script s = log_it (LConnect addr)
        (s\<lparr>sv_next_cl := Suc (sv_next_cl s),
           sv_cl := (sv_cl s)(sv_next_cl s := client_init addr now script),
           sv_clients := sv_clients s @ [sv_next_cl s],
           sv_sel := (sv_sel s)(sv_next_cl s := Some False)\<rparr>)"
proof (cases "length (sv_clients s) \<ge> MAX_CLIENTS")
  case True
  then show ?thesis by (intro full) (simp add: accept_def)
next
  case False
  show ?thesis
  proof (cases "per_ip s (fst addr) \<ge> MAX_CONNECTIONS_PER_IP")
    case True
    with False show ?thesis by (intro full) (simp add: accept_def)
  next
    case few: False
    with False show ?thesis by (intro new) (simp_all add: accept_def Let_def)
  qed
qed

lemma accept_inv:
  assumes inv: "winv {} s"
  shows "winv {} (accept addr now script s)"
proof (cases addr now script s rule: accept_cases)
  case (full e)
  with inv show ?thesis by simp
next
  case new
  let ?c = "sv_next_cl s"
  let ?t = "s\<lparr>sv_next_cl := Suc ?c, sv_cl := (sv_cl s)(?c := client_init addr now script),
           sv_clients := sv_clients s @ [?c], sv_sel := (sv_sel s)(?c := Some False)\<rparr>"
  have free: "sv_cl s ?c = no_client" using inv by (simp add: winv_def clients_ok_def)
  have cl: "name_of ?t k = name_of s k" "room_of ?t k = room_of s k"
      "dead ?t k = (if k = ?c then False else dead s k)" for k
    by (simp_all add: free client_init_def no_client_def)
  have notin: "?c \<notin> set (sv_clients s)"
    using inv free by (simp add: winv_def clients_ok_def no_client_def)
  have sv: "sv_by_name ?t = sv_by_name s" "sv_rm ?t = sv_rm s" "sv_next_rm ?t = sv_next_rm s"
      "sv_lobby ?t = sv_lobby s" "sv_delay ?t = sv_delay s"
    by simp_all
  have "names_ok ?t = names_ok s" "lobby_ok ?t = lobby_ok s" "crcs_ok ?t = crcs_ok s"
    by (simp_all only: names_ok_def lobby_ok_def crcs_ok_def cl sv)
  moreover have "by_name_ok ?t"
  proof -
    have bn: "by_name_ok s" using inv by (simp add: winv_def)
    show ?thesis
    proof (rule by_name_okI, unfold cl sv)
      show "distinct (dict_keys (sv_by_name s))" by (rule by_name_okD [OF bn])
      show "name_of s k = Some n" if "(n, k) \<in> set (sv_by_name s)" for n k
        using that by (rule by_name_okD [OF bn])
      show "(n, k) \<in> set (sv_by_name s)"
        if "\<not> (if k = ?c then False else dead s k)" "name_of s k = Some n" for n k
      proof (rule by_name_okD(3) [OF bn _ that(2)])
        show "\<not> dead s k"
          using that by (cases "k = ?c") (simp_all add: free no_client_def)
      qed
    qed
  qed
  moreover have "rooms_ok ?t"
    unfolding rooms_ok_def cl sv using inv by (simp add: winv_def rooms_ok_def)
  moreover have "tx_ok {} ?t"
    using inv by (auto simp: winv_def tx_ok_def client_init_def)
  moreover have "clients_ok ?t"
    unfolding clients_ok_def
  proof (intro conjI allI impI)
    have ok: "clients_ok s" using inv by (simp add: winv_def)
    show "distinct (sv_clients ?t)" using ok notin by (simp add: clients_ok_def)
    show "length (sv_clients ?t) \<le> MAX_CLIENTS" using new(1) by simp
    fix k
    show "k \<in> set (sv_clients ?t) \<longleftrightarrow> \<not> dead ?t k"
      using ok by (auto simp: clients_ok_def client_init_def)
    show "sv_cl ?t k = no_client" if "sv_next_cl ?t \<le> k"
      using ok that by (simp add: clients_ok_def)
  next
    fix ip
    have old: "filter (\<lambda>k. fst (cl_addr (sv_cl ?t k)) = ip) (sv_clients s) =
        filter (\<lambda>k. fst (cl_addr (sv_cl s k)) = ip) (sv_clients s)"
      using notin by (auto intro!: filter_cong)
    have "per_ip s ip \<le> MAX_CONNECTIONS_PER_IP" using inv by (simp add: winv_def clients_ok_def)
    with new(2) old show "per_ip ?t ip \<le> MAX_CONNECTIONS_PER_IP"
      by (auto simp: per_ip_def client_init_def)
  qed
  ultimately have "winv {} ?t" using inv by (simp add: winv_def)
  with new(3) show ?thesis by simp
qed

lemma sweep_over_keeps: "keeps (sweep_over order now)"
  unfolding sweep_over_def
proof (rule keeps_for_each, rule keepsI)
  fix c s assume inv: "winv {} s"
  let ?t = "s\<lparr>sv_stats := (sv_stats s)\<lparr>hello_timeouts := Suc (hello_timeouts (sv_stats s))\<rparr>\<rparr>"
  have "good ?t (drop_client c NoHello ?t)"
    using inv by (intro keepsD [OF drop_client_keeps]) simp
  then have "good s (drop_client c NoHello ?t)" by (rule good_later) simp
  with inv show "good s (sweep_one now c s)" by (simp add: sweep_one_def good_pair)
qed

lemma sweep_keeps: "keeps (sweep now)"
  using sweep_over_keeps by (simp add: keeps_def sweep_def)

lemma log_stats_inv: "winv {} s \<Longrightarrow> winv {} (log_stats s)"
proof -
  have "winv {} (s\<lparr>sv_last_stats := z\<rparr>) = winv {} s" for z
    by (simp add: winv_def winv_parts per_ip_def)
  then show "winv {} s \<Longrightarrow> winv {} (log_stats s)" by (simp add: log_stats_def Let_def)
qed

section \<open>Runs\<close>

lemma lobby_moves_inv:
  assumes inv: "winv {} s" and p: "sv_lobby s = Some p" and w: "worker_action a"
    and st: "pub_step a p = Some q"
  shows "winv {} (s\<lparr>sv_lobby := Some q\<rparr>)"
proof -
  have "a \<noteq> Update n" "a \<noteq> Shutdown" for n using w by auto
  then have "pb_payload q = pb_payload p \<and> pb_stopping q = pb_stopping p"
    by (intro pub_step_payload [OF st])
  moreover have "pub_inv q" using inv p st by (auto simp: winv_def lobby_ok_def intro: pub_step_inv)
  ultimately have "lobby_ok (s\<lparr>sv_lobby := Some q\<rparr>)"
    using inv p by (simp add: winv_def lobby_ok_def)
  moreover have "names_ok (s\<lparr>sv_lobby := Some q\<rparr>) = names_ok s"
      "by_name_ok (s\<lparr>sv_lobby := Some q\<rparr>) = by_name_ok s"
      "clients_ok (s\<lparr>sv_lobby := Some q\<rparr>) = clients_ok s" "tx_ok {} (s\<lparr>sv_lobby := Some q\<rparr>) = tx_ok {} s"
      "rooms_ok (s\<lparr>sv_lobby := Some q\<rparr>) = rooms_ok s" "crcs_ok (s\<lparr>sv_lobby := Some q\<rparr>) = crcs_ok s"
    by (simp_all add: winv_parts per_ip_def)
  ultimately show ?thesis using inv by (simp add: winv_def)
qed

lemma on_event_inv:
  assumes inv: "winv {} (rl_server x)"
  shows "winv {} (rl_server (fst (on_event e x)))"
    and "snd (on_event e x) = (if e = AcceptFails then Some OSError else None)"
proof -
  have "winv {} (rl_server (fst (on_event e x))) \<and>
      snd (on_event e x) = (if e = AcceptFails then Some OSError else None)"
  proof (cases e)
    case (Ready c w r)
    with serve_body_sound [OF inv, of c w r] show ?thesis
      by (simp add: serve_eq_body [OF inv] rsound_def sound_def)
  next
    case (LobbyMoves a)
    with inv show ?thesis
      by (auto intro: lobby_moves_inv split: option.split)
  qed (use inv in \<open>simp_all add: accept_inv\<close>)
  then show "winv {} (rl_server (fst (on_event e x)))"
    and "snd (on_event e x) = (if e = AcceptFails then Some OSError else None)" by simp_all
qed

definition linv :: "loop \<Rightarrow> bool" where
  "linv x \<longleftrightarrow> winv {} (rl_server (lp_relay x))"

lemma events_inv:
  "winv {} (rl_server x) \<Longrightarrow> winv {} (rl_server (fst (for_each on_event es x))) \<and>
   (AcceptFails \<notin> set es \<longrightarrow> snd (for_each on_event es x) = None)"
proof (induction es arbitrary: x)
  case (Cons e es)
  obtain y z where y: "on_event e x = (y, z)" by fastforce
  have "winv {} (rl_server y)" "z = (if e = AcceptFails then Some OSError else None)"
    using on_event_inv [OF Cons.prems, of e] y by simp_all
  with Cons.IH [of y] y show ?case by (auto simp: seq_def)
qed (simp add: skip_def)

definition lkeeps :: "(loop, exn) stmt \<Rightarrow> bool" where
  "lkeeps f \<longleftrightarrow> (\<forall>x. linv x \<longrightarrow> linv (fst (f x)) \<and> snd (f x) = None)"

lemma lkeeps_seq: "lkeeps f \<Longrightarrow> lkeeps g \<Longrightarrow> lkeeps (seq f g)"
  unfolding lkeeps_def seq_def by (metis (no_types, lifting) case_prod_beta option.simps(4))

lemma lkeeps_sweep:
  "lkeeps (\<lambda>x. if now - lp_last_sweep x \<ge> 1
     then on_relay (on_server (sweep now)) (x\<lparr>lp_last_sweep := now\<rparr>) else (x, None))"
  unfolding lkeeps_def
proof (intro allI impI)
  fix x assume "linv x"
  with keepsD [OF sweep_keeps, of "rl_server (lp_relay x)" now]
  show "linv (fst (if now - lp_last_sweep x \<ge> 1
      then on_relay (on_server (sweep now)) (x\<lparr>lp_last_sweep := now\<rparr>) else (x, None))) \<and>
    snd (if now - lp_last_sweep x \<ge> 1
      then on_relay (on_server (sweep now)) (x\<lparr>lp_last_sweep := now\<rparr>) else (x, None)) = None"
    by (simp add: linv_def on_relay_def on_server_def case_prod_unfold good_def)
qed

lemma lkeeps_stats:
  "lkeeps (\<lambda>x. if now - lp_last_stats x \<ge> STATS_INTERVAL
     then on_relay (on_server (update log_stats)) (x\<lparr>lp_last_stats := now\<rparr>) else (x, None))"
  by (simp add: lkeeps_def linv_def on_relay_def on_server_def update_def log_stats_inv)

lemma timers_inv: "linv x \<Longrightarrow> linv (fst (timers now x)) \<and> snd (timers now x) = None"
  using lkeeps_seq [OF lkeeps_sweep [of now] lkeeps_stats [of now]]
  by (simp add: lkeeps_def timers_def)

lemma turn_inv:
  assumes x: "linv x"
  shows "linv (fst (turn (es, now) x))"
    and "AcceptFails \<notin> set es \<Longrightarrow> snd (turn (es, now) x) = None"
proof -
  obtain y z where y: "for_each on_event es (lp_relay x) = (y, z)" by fastforce
  have inv: "winv {} (rl_server y)" and z: "AcceptFails \<notin> set es \<Longrightarrow> z = None"
    using events_inv [of "lp_relay x" es] x y by (simp_all add: linv_def)
  let ?x = "x\<lparr>lp_relay := y\<rparr>"
  have "linv ?x" using inv by (simp add: linv_def)
  note t = timers_inv [OF this, of now]
  have "turn (es, now) x = (if z = None then timers now ?x else (?x, z))"
    by (cases z) (simp_all add: turn_def on_relay_def seq_def y)
  with t z \<open>linv ?x\<close> show "linv (fst (turn (es, now) x))"
    and "AcceptFails \<notin> set es \<Longrightarrow> snd (turn (es, now) x) = None"
    by simp_all
qed

lemma run_inv:
  "linv x \<Longrightarrow> linv (fst (run ts x)) \<and>
   ((\<forall>t \<in> set ts. AcceptFails \<notin> set (fst t)) \<longrightarrow> snd (run ts x) = None)"
proof (induction ts arbitrary: x)
  case (Cons t ts)
  obtain es now where t: "t = (es, now)" by fastforce
  obtain y z where y: "turn t x = (y, z)" by fastforce
  have "linv y" "AcceptFails \<notin> set es \<Longrightarrow> z = None"
    using turn_inv [OF Cons.prems, of es now] y t by simp_all
  with Cons.IH [of y] y t show ?case
    by (auto simp: run_def seq_def split: option.split)
qed (simp add: run_def skip_def)

lemma server_init_inv:
  assumes "0 \<le> delay" and "delay < 256"
    and "\<And>p. lobby = Some p \<Longrightarrow> pub_inv p \<and> (\<not> pb_stopping p \<longrightarrow> pl_curplayers (pb_payload p) = 0)"
  shows "winv {} (server_init delay lobby auto_go rng)"
  using assms
  by (auto simp: winv_def winv_parts server_init_def no_client_def no_room_def room_init_def per_ip_def
      dict_keys_def dict_values_def crc_table_ok_def MAX_CLIENTS_def MAX_CONNECTIONS_PER_IP_def)

end
