(* ===== verification/Delivery.thy ===== *)
theory Delivery
  imports RunInv
begin

text \<open>
  What clients are sent. \<open>out_of s c\<close> is every byte the server has accepted for a
  client: what the kernel took and what is still buffered, in order. \<open>wrote W s t\<close> says
  that a step appended exactly \<open>W k\<close> to the stream of every client \<open>k\<close> and changed
  nothing else; \<open>streams\<close> says that a step only appends whole frames.
\<close>

section \<open>Streams\<close>

definition out_of :: "server \<Rightarrow> cid \<Rightarrow> byte list" where
  "out_of s c = cl_wire (sv_cl s c) @ cl_tx (sv_cl s c)"

text \<open>A client without the fields of its transmit path.\<close>

definition apart :: "client \<Rightarrow> client" where
  "apart k = k\<lparr>cl_tx := [], cl_script := [], cl_wire := []\<rparr>"

definition wrote :: "(cid \<Rightarrow> byte list) \<Rightarrow> server \<Rightarrow> server \<Rightarrow> bool" where
  "wrote W s t \<longleftrightarrow>
     (\<forall>k. out_of t k = out_of s k @ W k \<and> apart (sv_cl t k) = apart (sv_cl s k)) \<and>
     t\<lparr>sv_cl := sv_cl s, sv_sel := sv_sel s\<rparr> = s"

lemma apart_eq:
  assumes "apart k = apart j"
  shows "cl_name k = cl_name j" "cl_room k = cl_room j" "cl_dead k = cl_dead j"
    "cl_addr k = cl_addr j" "cl_connected_at k = cl_connected_at j"
proof -
  have "f (apart k) = f (apart j)" for f :: "client \<Rightarrow> 'x" using assms by simp
  note this [of cl_name] this [of cl_room] this [of cl_dead] this [of cl_addr] this [of cl_connected_at]
  then show "cl_name k = cl_name j" "cl_room k = cl_room j" "cl_dead k = cl_dead j"
    "cl_addr k = cl_addr j" "cl_connected_at k = cl_connected_at j"
    by (simp_all add: apart_def)
qed

lemma wroteD:
  assumes "wrote W s t"
  shows "out_of t k = out_of s k @ W k" and "name_of t k = name_of s k"
    and "room_of t k = room_of s k" and "dead t k = dead s k"
    and "sv_rm t = sv_rm s" and "sv_by_name t = sv_by_name s" and "sv_clients t = sv_clients s"
    and "sv_lobby t = sv_lobby s" and "sv_log t = sv_log s" and "sv_auto_go t = sv_auto_go s"
    and "sv_next_rm t = sv_next_rm s" and "sv_next_cl t = sv_next_cl s" and "sv_stats t = sv_stats s"
proof -
  have a: "apart (sv_cl t k) = apart (sv_cl s k)" for k using assms by (simp add: wrote_def)
  have e: "t\<lparr>sv_cl := sv_cl s, sv_sel := sv_sel s\<rparr> = s" using assms by (simp add: wrote_def)
  show "out_of t k = out_of s k @ W k" using assms by (simp add: wrote_def)
  show "name_of t k = name_of s k" "room_of t k = room_of s k" "dead t k = dead s k"
    by (rule apart_eq [OF a])+
  show "sv_rm t = sv_rm s" "sv_by_name t = sv_by_name s" "sv_clients t = sv_clients s"
    "sv_lobby t = sv_lobby s" "sv_log t = sv_log s" "sv_auto_go t = sv_auto_go s"
    "sv_next_rm t = sv_next_rm s" "sv_next_cl t = sv_next_cl s" "sv_stats t = sv_stats s"
    by (subst e [symmetric], simp)+
qed

lemma wrote_refl: "wrote (\<lambda>_. []) s s"
  by (simp add: wrote_def)

lemma wrote_trans:
  assumes "wrote V s t" and "wrote W t u"
  shows "wrote (\<lambda>k. V k @ W k) s u"
proof -
  have "u\<lparr>sv_cl := sv_cl s, sv_sel := sv_sel s\<rparr> =
      (u\<lparr>sv_cl := sv_cl t, sv_sel := sv_sel t\<rparr>)\<lparr>sv_cl := sv_cl s, sv_sel := sv_sel s\<rparr>" by simp
  also have "\<dots> = s" using assms by (simp add: wrote_def)
  finally show ?thesis using assms by (simp add: wrote_def)
qed

section \<open>Sockets that keep up\<close>

text \<open>
  A client whose socket does not fail and whose buffer has room for \<open>n\<close> more bytes:
  the script may take any positive number of bytes per call, and block.
\<close>

definition healthy :: "server \<Rightarrow> cid \<Rightarrow> nat \<Rightarrow> bool" where
  "healthy s c n \<longleftrightarrow>
     \<not> dead s c \<and> length (cl_tx (sv_cl s c)) + n \<le> MAX_TX_BACKLOG \<and>
     list_all (\<lambda>r. r \<noteq> SendFail \<and> r \<noteq> SendN 0) (cl_script (sv_cl s c))"

lemma flush_loop_healthy:
  "flush_loop tx sc = (sent, rest, sc', e) \<Longrightarrow>
   list_all (\<lambda>r. r \<noteq> SendFail \<and> r \<noteq> SendN 0) sc \<Longrightarrow>
   e = FlushDone \<and> list_all (\<lambda>r. r \<noteq> SendFail \<and> r \<noteq> SendN 0) sc'"
proof (induction tx sc arbitrary: sent rest sc' e rule: flush_loop.induct)
  case (5 t tx n sc)
  then show ?case by (auto simp: Let_def split: if_splits prod.splits)
qed auto

lemma send_healthy:
  assumes h: "healthy s c (length data + n)"
  obtains t where "send c data s = (t, None)" "wrote (\<lambda>k. if k = c then data else []) s t"
    "healthy t c n" "\<forall>k. k \<noteq> c \<longrightarrow> sv_cl t k = sv_cl s k"
proof -
  let ?k = "sv_cl s c"
  obtain sent rest sc e where
    fl: "flush_loop (cl_tx ?k @ data) (cl_script ?k) = (sent, rest, sc, e)"
    by (metis prod_cases4)
  have ok: "e = FlushDone" "list_all (\<lambda>r. r \<noteq> SendFail \<and> r \<noteq> SendN 0) sc"
    using flush_loop_healthy [OF fl] h by (simp_all add: healthy_def)
  have split: "cl_tx ?k @ data = sent @ rest" by (rule flush_loop_split [OF fl])
  then have len: "length rest \<le> length (cl_tx ?k) + length data"
    by (metis le_add2 length_append)
  let ?u = "upd_cl c (\<lambda>k. k\<lparr>cl_tx := rest, cl_script := sc, cl_wire := cl_wire k @ sent\<rparr>) s"
  let ?t = "update_events c ?u"
  have small: "\<not> length (cl_tx ?k) + length data > MAX_TX_BACKLOG" and alive: "\<not> dead s c"
    using h by (simp_all add: healthy_def)
  have cl: "sv_cl ?t = sv_cl ?u"
    by (simp add: update_events_def split: option.split)
  have "send c data s = (?t, None)"
    using small alive fl ok(1)
    by (simp add: send_def send_with_def flush_with_def store_simps Let_def)
  moreover have "wrote (\<lambda>k. if k = c then data else []) s ?t"
    using split by (auto simp: wrote_def out_of_def apart_def cl update_events_def store_simps
        split: option.split)
  moreover have "healthy ?t c n"
  proof -
    have c: "sv_cl ?t c = ?k\<lparr>cl_tx := rest, cl_script := sc, cl_wire := cl_wire ?k @ sent\<rparr>"
      unfolding cl by (simp add: store_simps)
    show ?thesis using h len ok(2) unfolding healthy_def c by simp
  qed
  moreover have "\<forall>k. k \<noteq> c \<longrightarrow> sv_cl ?t k = sv_cl s k"
    unfolding cl by (simp add: store_simps)
  ultimately show thesis by (rule that)
qed

lemma healthy_same: "sv_cl t c = sv_cl s c \<Longrightarrow> healthy t c n = healthy s c n"
  by (simp add: healthy_def)

lemma healthy_less: "healthy s c n \<Longrightarrow> m \<le> n \<Longrightarrow> healthy s c m"
  by (simp add: healthy_def)

text \<open>One message to each of the two members of a room.\<close>

lemma two_sends:
  assumes m: "members s r = [a, b]" "a \<noteq> b"
    and h: "healthy s a (length (data 0))" "healthy s b (length (data 1))"
  obtains t where "for_members r (\<lambda>i k. send k (data i)) s = (t, None)"
    "wrote (\<lambda>k. if k = a then data 0 else if k = b then data 1 else []) s t"
proof -
  have "healthy s a (length (data 0) + 0)" using h(1) by simp
  then obtain u where u: "send a (data 0) s = (u, None)"
      "wrote (\<lambda>k. if k = a then data 0 else []) s u" "healthy u a 0"
      "\<forall>k. k \<noteq> a \<longrightarrow> sv_cl u k = sv_cl s k"
    by (rule send_healthy)
  have "healthy u b (length (data 1) + 0)"
    using h(2) healthy_same [of u b s] u(4) m(2) by simp
  then obtain t where t: "send b (data 1) u = (t, None)"
      "wrote (\<lambda>k. if k = b then data 1 else []) u t" "healthy t b 0"
      "\<forall>k. k \<noteq> b \<longrightarrow> sv_cl t k = sv_cl u k"
    by (rule send_healthy)
  have mu: "members u r = [a, b]" using wroteD(5) [OF u(2)] m(1) by simp
  have two: "length (members s r) = Suc (Suc 0)" using m(1) by simp
  have "for_members r (\<lambda>i k. send k (data i)) s = (t, None)"
    unfolding for_members_def two for_members_from.simps
    by (simp add: seq_def m(1) mu u(1) t(1) [unfolded One_nat_def])
  moreover have "wrote (\<lambda>k. if k = a then data 0 else if k = b then data 1 else []) s t"
  proof -
    have "(\<lambda>k. (if k = a then data 0 else []) @ (if k = b then data 1 else [])) =
        (\<lambda>k. if k = a then data 0 else if k = b then data 1 else [])"
      using m(2) by (intro ext) simp
    then show ?thesis using wrote_trans [OF u(2) t(2)] by simp
  qed
  ultimately show thesis by (rule that)
qed

section \<open>The handlers, when the sockets keep up\<close>

lemma two_members:
  assumes "winv X s" and "room_of s c = Some r" and "room_of s k = Some r" and "k \<noteq> c"
  shows "members s r = [c, k] \<or> members s r = [k, c]"
proof -
  have rs: "rooms_ok s" using assms(1) by (simp add: winv_def)
  have in_r: "c \<in> set (members s r)" "k \<in> set (members s r)"
    using roomsD(2) [OF rs] assms(2,3) by simp_all
  then have "length (members s r) = 2" using roomsD(1) [OF rs, of r] by auto
  then obtain x y where "members s r = [x, y]"
    by (auto simp: length_Suc_conv numeral_2_eq_2)
  with in_r assms(4) show ?thesis by auto
qed

lemma relay_one:
  assumes m: "members s r = [c, k] \<or> members s r = [k, c]" "k \<noteq> c"
    and h: "healthy s k (length data)"
  obtains t where "for_members r (\<lambda>_ m. if m \<noteq> c then send m data else skip) s = (t, None)"
    "wrote (\<lambda>j. if j = k then data else []) s t"
proof -
  have "healthy s k (length data + 0)" using h by simp
  then obtain t where t: "send k data s = (t, None)" "wrote (\<lambda>j. if j = k then data else []) s t"
      "healthy t k 0" "\<forall>j. j \<noteq> k \<longrightarrow> sv_cl t j = sv_cl s j"
    by (rule send_healthy)
  have mt: "members t r = members s r" using wroteD(5) [OF t(2)] by simp
  have two: "length (members s r) = Suc (Suc 0)" using m(1) by auto
  from m(1) have "for_members r (\<lambda>_ m. if m \<noteq> c then send m data else skip) s = (t, None)"
    unfolding for_members_def two for_members_from.simps
    by (rule disjE) (use m(2) mt t(1) in \<open>simp_all add: seq_def skip_def\<close>)
  then show thesis using t(2) by (rule that)
qed

text \<open>A roster of two names.\<close>

lemma roster_two:
  "members s r = [a, b] \<Longrightarrow>
   roster_bytes s r = name8 (the (name_of s a)) @ name8 (the (name_of s b)) @ replicate 16 0"
  by (simp add: roster_bytes_def ROSTER_SLOTS_def)

lemma room_broadcast_eq:
  assumes inv: "winv {} s"
  shows "room_broadcast r s =
    for_members r (\<lambda>_ m. send m (enframe T_ROOM (word_of_nat (length (members s r)) # roster_bytes s r))) s"
proof -
  have "bytes_of [int (length (members s r))] = Inr [word_of_nat (length (members s r))]"
    using members_le [OF inv, of r] by (simp add: bytes_of_def MAX_SEATS_def)
  then show ?thesis
    by (simp add: room_broadcast_def room_broadcast_with_def roster_eq [OF inv] send_frame_with_def
        frame_enframe length_roster_bytes [OF inv] send_def)
qed

lemma enter_room_fields:
  assumes "target_room target s = (r, s1)" and "room_of s target = None"
    and t_def: "t = enter_room c r s1"
  shows "r = sv_next_rm s" "members t r = [target, c]" "rm_started (sv_rm t r) = False"
    "out_of t k = out_of s k" "name_of t k = name_of s k"
    "room_of t k = (if k = c \<or> k = target then Some r else room_of s k)"
    "healthy t k n = healthy s k n" "sv_by_name t = sv_by_name s" "sv_auto_go t = sv_auto_go s"
    "q \<noteq> r \<Longrightarrow> sv_rm t q = sv_rm s q"
proof -
  show r: "r = sv_next_rm s" using assms by (simp add: target_room_def Let_def)
  have s1: "s1 = upd_cl target (\<lambda>k. k\<lparr>cl_room := Some r\<rparr>)
      (s\<lparr>sv_next_rm := Suc r, sv_rm := (sv_rm s)(r := room_init target)\<rparr>)"
    using assms by (auto simp: target_room_def Let_def)
  show "members t r = [target, c]" "rm_started (sv_rm t r) = False" "sv_by_name t = sv_by_name s"
    "sv_auto_go t = sv_auto_go s" "q \<noteq> r \<Longrightarrow> sv_rm t q = sv_rm s q"
    by (simp_all add: t_def enter_room_def Let_def s1 store_simps room_init_def)
  have cl: "sv_cl t k = (if k = c \<or> k = target then (sv_cl s k)\<lparr>cl_room := Some r\<rparr> else sv_cl s k)"
    by (simp add: t_def enter_room_def Let_def s1 store_simps)
  show "out_of t k = out_of s k" "name_of t k = name_of s k"
    "room_of t k = (if k = c \<or> k = target then Some r else room_of s k)"
    "healthy t k n = healthy s k n"
    by (simp_all add: cl out_of_def healthy_def)
qed

lemma out_lobby_update [simp]: "out_of (lobby_update s) = out_of s"
  by (rule ext) (simp add: out_of_def)

lemma out_log_it [simp]: "out_of (log_it e s) = out_of s"
  by (rule ext) (simp add: out_of_def)

lemma out_begin_match [simp]: "out_of (begin_match r s) = out_of s"
  by (rule ext) (simp add: out_of_def)

text \<open>What the announcement of a new room of two does.\<close>

lemma announce_two:
  assumes inv: "winv {} s" and m: "members s r = [a, b]" "a \<noteq> b"
    and h: "healthy s a 35" "healthy s b 35" and auto: "sv_auto_go s = 0"
  obtains t where "announce r s = (lobby_update t, None)"
    "wrote (\<lambda>k. if k = a \<or> k = b then enframe T_ROOM (2 # roster_bytes s r) else []) s t"
proof -
  let ?f = "enframe T_ROOM (2 # roster_bytes s r)"
  have len: "length ?f = 35" by (simp add: length_roster_bytes [OF inv])
  have two: "word_of_nat (length (members s r)) = (2 :: byte)" by (simp add: m)
  obtain t where t: "for_members r (\<lambda>_ k. send k ?f) s = (t, None)"
      "wrote (\<lambda>k. if k = a then ?f else if k = b then ?f else []) s t"
    by (rule two_sends [OF m, of "\<lambda>_. ?f"]) (use h in \<open>simp_all add: length_roster_bytes [OF inv]\<close>)
  have "room_broadcast r s = (t, None)"
    using t(1) by (simp only: room_broadcast_eq [OF inv] two)
  then have "announce r s = (lobby_update t, None)"
    using auto wroteD(10) [OF t(2)] by (simp add: announce_def seq_def update_def)
  moreover have "(\<lambda>k. if k = a then ?f else if k = b then ?f else []) =
      (\<lambda>k. if k = a \<or> k = b then ?f else [])" by auto
  ultimately show thesis using t(2) that by simp
qed

text \<open>Starting a match of two: every seat gets its own number and the common part.\<close>

lemma start_room_two:
  assumes inv: "winv {} s" and m: "members s r = [a, b]" "a \<noteq> b" and r: "r < sv_next_rm s"
    and h: "healthy s a 39" "healthy s b 39"
  obtains t where "snd (start_room r s) = None"
    "fst (start_room r s) = lobby_update (log_it (LMatch (room_repr t r) 2 (rm_seed (sv_rm t r))) t)"
    "wrote (\<lambda>k. if k = a then enframe T_START (0 # start_common r (begin_match r s))
             else if k = b then enframe T_START (1 # start_common r (begin_match r s)) else [])
       (begin_match r s) t"
proof -
  let ?s = "begin_match r s"
  let ?c = "start_common r ?s"
  have inv': "winv {} ?s" by (rule begin_match_inv [OF inv r])
  have len: "length ?c = 36" by (rule length_start_common [OF inv'])
  let ?f = "\<lambda>i. enframe T_START (word_of_nat i # ?c)"
  have mem: "members ?s r = [a, b]" using m by simp
  have "healthy ?s a (length (?f 0))" "healthy ?s b (length (?f 1))"
    using h len by (simp_all add: healthy_same [of ?s _ s])
  then obtain t where t: "for_members r (\<lambda>i k. send k (?f i)) ?s = (t, None)"
      "wrote (\<lambda>k. if k = a then ?f 0 else if k = b then ?f 1 else []) ?s t"
    by (rule two_sends [OF mem m(2)])
  have step: "bind_val (bytes_of [int i]) (\<lambda>st. send_frame k T_START (st @ ?c)) = send k (?f i)"
    if "i < 2" for i k
    using that len by (simp add: bytes_of_def send_frame_def send_frame_with_def frame_enframe send_def)
  have "for_members r (\<lambda>i k. bind_val (bytes_of [int i]) (\<lambda>st. send_frame k T_START (st @ ?c))) ?s =
      for_members r (\<lambda>i k. send k (?f i)) ?s"
  proof -
    have two: "length (members ?s r) = Suc (Suc 0)" using mem by simp
    have lt: "0 < (2 :: nat)" "Suc 0 < (2 :: nat)" by simp_all
    show ?thesis
      unfolding for_members_def two for_members_from.simps 
      by (simp only: step [of 0, OF lt(1)] step [of "Suc 0", OF lt(2)])
  qed
  with t(1) have eq: "start_room r s = update lobby_update
      (log_it (LMatch (room_repr t r) (length (members t r)) (rm_seed (sv_rm t r))) t)"
    by (simp add: start_room_eq [OF inv r] seq_def)
  have mt: "length (members t r) = 2" using wroteD(5) [OF t(2)] mem by simp
  show thesis
  proof (rule that [of t])
    show "wrote (\<lambda>k. if k = a then enframe T_START (0 # ?c)
        else if k = b then enframe T_START (1 # ?c) else []) ?s t"
      using t(2) by (simp only: semiring_1_class.of_nat_0 of_nat_1)
  qed (simp_all only: eq mt update_def fst_conv snd_conv)
qed

end
