(* ===== verification/Streams.thy ===== *)
theory Streams
  imports Delivery
begin

text \<open>
  Two facts about the byte streams. Downstream: every operation appends whole frames to
  what a client is sent, so each stream is a sequence of complete frames at all times.
  Upstream: the read path of \<^verbatim>\<open>service\<close> refines the specification \<open>deframe\<close>: it
  serves the frames of the received bytes in order, however TCP has cut them up.
\<close>

section \<open>Downstream: whole frames\<close>

definition frames_out :: "(byte \<times> byte list) list \<Rightarrow> byte list" where
  "frames_out fs = concat (map (\<lambda>(t, p). enframe t p) fs)"

text \<open>
  The frames the server sends: a listing with its entries, a room or a start with its
  roster, the notice of a seat, a pong, or what a client relays. Counts announce lengths.
\<close>

fun well_typed :: "byte \<times> byte list \<Rightarrow> bool" where
  "well_typed (t, p) \<longleftrightarrow> length p \<le> 254 \<and>
     (t \<in> set RELAY_TYPES \<or>
      t = T_LOBBY \<and> p \<noteq> [] \<and> unat (hd p) \<le> 8 \<and> length p = 1 + 9 * unat (hd p) \<or>
      t = T_ROOM \<and> p \<noteq> [] \<and> length p = 1 + 8 * max 4 (unat (hd p)) \<or>
      t = T_START \<and> length p \<ge> 5 \<and> length p = 5 + 8 * max 4 (unat (p ! 1)) \<or>
      t = T_PEER_LEFT \<and> length p = 9 \<or>
      t = T_PONG \<and> p = [])"

declare well_typed.simps [simp del]

lemma well_typed_length: "well_typed f \<Longrightarrow> length (snd f) \<le> 254"
  by (cases f) (simp add: well_typed.simps)

lemma well_typed_lengths: "list_all well_typed fs \<Longrightarrow> list_all (\<lambda>f. length (snd f) \<le> 254) fs"
  by (auto simp: list_all_iff well_typed_length)

definition whole_frames :: "byte list \<Rightarrow> bool" where
  "whole_frames bs \<longleftrightarrow> (\<exists>fs. list_all well_typed fs \<and> bs = frames_out fs)"

text \<open>
  A socket that takes all it is given or nothing, with whole frames on the wire and in the
  buffer: then no frame is ever cut on the wire.
\<close>

definition takes_all :: "send_res \<Rightarrow> bool" where
  "takes_all r \<longleftrightarrow> r = SendBlock \<or> (\<exists>n \<ge> MAX_TX_BACKLOG. r = SendN n)"

definition tidy :: "client \<Rightarrow> bool" where
  "tidy c \<longleftrightarrow> whole_frames (cl_wire c) \<and> whole_frames (cl_tx c) \<and>
     length (cl_tx c) \<le> MAX_TX_BACKLOG \<and> list_all takes_all (cl_script c)"

text \<open>
  \<open>grows s t\<close>: from \<open>s\<close> to \<open>t\<close> every client is sent whole frames only, and the clients
  there are keep their address, lose no byte from the wire and stay tidy; one that was
  dropped stays so, and its streams stay as they are. In \<open>streams s t\<close> no client is
  accepted. \<open>links\<close> is what they depend on; in \<open>quiet s t\<close> it is the same and nobody
  comes back.
\<close>

definition grows :: "server \<Rightarrow> server \<Rightarrow> bool" where
  "grows s t \<longleftrightarrow>
     (\<forall>k. \<exists>fs. list_all well_typed fs \<and> out_of t k = out_of s k @ frames_out fs) \<and>
     sv_next_cl s \<le> sv_next_cl t \<and>
     (\<forall>k < sv_next_cl s. cl_addr (sv_cl t k) = cl_addr (sv_cl s k) \<and>
        (\<exists>ws. cl_wire (sv_cl t k) = cl_wire (sv_cl s k) @ ws) \<and>
        (tidy (sv_cl s k) \<longrightarrow> tidy (sv_cl t k)) \<and>
        (dead s k \<longrightarrow> dead t k \<and> cl_wire (sv_cl t k) = cl_wire (sv_cl s k) \<and>
           cl_tx (sv_cl t k) = cl_tx (sv_cl s k)))"

definition streams :: "server \<Rightarrow> server \<Rightarrow> bool" where
  "streams s t \<longleftrightarrow> grows s t \<and> sv_next_cl t = sv_next_cl s"

definition links :: "server \<Rightarrow> (cid \<Rightarrow> (nat \<times> nat) \<times> byte list \<times> byte list \<times> send_res list) \<times> cid" where
  "links s = ((\<lambda>k. (cl_addr (sv_cl s k), cl_tx (sv_cl s k), cl_wire (sv_cl s k), cl_script (sv_cl s k))),
     sv_next_cl s)"

definition quiet :: "server \<Rightarrow> server \<Rightarrow> bool" where
  "quiet s t \<longleftrightarrow> links t = links s \<and> (\<forall>k. dead s k \<longrightarrow> dead t k)"

definition streaming :: "sstmt \<Rightarrow> bool" where
  "streaming f \<longleftrightarrow> (\<forall>s. streams s (fst (f s)))"

definition is_frame :: "byte list \<Rightarrow> bool" where
  "is_frame d \<longleftrightarrow> (\<exists>t p. well_typed (t, p) \<and> d = enframe t p)"

lemma frames_out_append: "frames_out (fs @ gs) = frames_out fs @ frames_out gs"
  by (simp add: frames_out_def)

lemma whole_frames_append: "whole_frames a \<Longrightarrow> whole_frames b \<Longrightarrow> whole_frames (a @ b)"
  unfolding whole_frames_def by (metis frames_out_append list_all_append)

lemma whole_frames_Nil [simp]: "whole_frames []"
  by (simp add: whole_frames_def frames_out_def exI [of _ "[]"])

lemma is_frame_whole:
  assumes "is_frame d"
  shows "whole_frames d"
proof -
  obtain t p where "well_typed (t, p)" "d = enframe t p" using assms by (auto simp: is_frame_def)
  then show ?thesis unfolding whole_frames_def
    by (intro exI [of _ "[(t, p)]"]) (simp add: frames_out_def)
qed

lemma links_eq:
  "links t = links s \<longleftrightarrow> sv_next_cl t = sv_next_cl s \<and>
     (\<forall>k. cl_addr (sv_cl t k) = cl_addr (sv_cl s k) \<and> cl_tx (sv_cl t k) = cl_tx (sv_cl s k) \<and>
        cl_wire (sv_cl t k) = cl_wire (sv_cl s k) \<and> cl_script (sv_cl t k) = cl_script (sv_cl s k))"
  by (auto simp: links_def fun_eq_iff)

lemma links_out: "links t = links s \<Longrightarrow> out_of t = out_of s"
  by (simp add: links_eq out_of_def fun_eq_iff)

lemma links_tidy: "links t = links s \<Longrightarrow> tidy (sv_cl t k) = tidy (sv_cl s k)"
  by (simp add: links_eq tidy_def)

lemma streams_same:
  assumes "quiet s t"
  shows "streams s t"
proof -
  have l: "links t = links s" using assms by (simp add: quiet_def)
  have "\<exists>fs. list_all well_typed fs \<and> out_of t k = out_of s k @ frames_out fs" for k
    using links_out [OF l] by (intro exI [of _ "[]"]) (simp add: frames_out_def)
  then show ?thesis
    using assms by (simp add: streams_def grows_def links_tidy [OF l]) (simp add: quiet_def links_eq)
qed

lemma quiet_refl [simp]: "quiet s s"
  by (simp add: quiet_def)

lemma quiet_trans: "quiet s t \<Longrightarrow> quiet t u \<Longrightarrow> quiet s u"
  by (simp add: quiet_def)

lemma streams_refl [simp]: "streams s s"
  by (rule streams_same) simp

lemma grows_trans:
  assumes "grows s t" and "grows t u"
  shows "grows s u"
proof -
  have "\<exists>fs. list_all well_typed fs \<and> out_of u k = out_of s k @ frames_out fs" for k
  proof -
    obtain fs gs where "list_all well_typed fs" "out_of t k = out_of s k @ frames_out fs"
        "list_all well_typed gs" "out_of u k = out_of t k @ frames_out gs"
      using assms unfolding grows_def by meson
    then show ?thesis by (intro exI [of _ "fs @ gs"]) (simp add: frames_out_append)
  qed
  moreover have "\<exists>ws. cl_wire (sv_cl u k) = cl_wire (sv_cl s k) @ ws" if "k < sv_next_cl s" for k
    using assms that unfolding grows_def by (metis append.assoc order.strict_trans2)
  ultimately show ?thesis using assms by (auto simp: grows_def)
qed

lemma streams_trans: "streams s t \<Longrightarrow> streams t u \<Longrightarrow> streams s u"
  by (auto simp: streams_def intro: grows_trans)

lemma streams_grows: "streams s t \<Longrightarrow> grows s t"
  by (simp add: streams_def)

lemma streamingI: "(\<And>s. streams s (fst (f s))) \<Longrightarrow> streaming f"
  by (simp add: streaming_def)

lemma streamingD: "streaming f \<Longrightarrow> streams s (fst (f s))"
  by (simp add: streaming_def)

lemma streaming_update: "(\<And>s. quiet s (f s)) \<Longrightarrow> streaming (update f)"
  by (simp add: streaming_def update_def streams_same)

lemma streaming_skip [simp]: "streaming skip"
  by (simp add: streaming_def skip_def)

lemma streaming_raise [simp]: "streaming (raise e)"
  by (simp add: streaming_def raise_def)

lemma streams_seq:
  "streams s (fst (f s)) \<Longrightarrow> (\<And>t. streams t (fst (g t))) \<Longrightarrow> streams s (fst (seq f g s))"
  by (cases "f s"; cases "snd (f s)") (auto simp: seq_def intro: streams_trans)

lemma streaming_seq [intro]: "streaming f \<Longrightarrow> streaming g \<Longrightarrow> streaming (seq f g)"
  by (auto simp: streaming_def intro: streams_seq)

lemma streaming_bind: "(\<And>a. r = Inr a \<Longrightarrow> streaming (f a)) \<Longrightarrow> streaming (bind_val r f)"
  by (cases r) simp_all

lemma streaming_for_each: "(\<And>x. x \<in> set xs \<Longrightarrow> streaming (f x)) \<Longrightarrow> streaming (for_each f xs)"
  by (induction xs) auto

lemma streaming_for_members_from:
  assumes "\<And>i m. streaming (f i m)"
  shows "streaming (for_members_from k i r f)"
proof (induction k arbitrary: i)
  case (Suc k)
  then show ?case
    using assms by (intro streamingI) (auto intro!: streams_seq simp: streaming_def)
qed (simp add: streaming_def)

lemma streaming_for_members: "(\<And>i m. streaming (f i m)) \<Longrightarrow> streaming (for_members r f)"
  using streaming_for_members_from [of f] by (simp add: streaming_def for_members_def)

lemma is_frame_frame: "frame t p = Inr d \<Longrightarrow> (length p \<le> 254 \<Longrightarrow> well_typed (t, p)) \<Longrightarrow> is_frame d"
  by (auto simp: frame_def is_frame_def enframe_def Let_def split: if_splits)

text \<open>The payloads the server builds.\<close>

lemma bytes_of_length: "bytes_of [int n] = Inr bs \<Longrightarrow> \<exists>b. bs = [b] \<and> unat b = n"
  by (auto simp: bytes_of_def split: if_splits)

lemma pads_length: "map_val (\<lambda>m. pad_name (f m)) ms = Inr pads \<Longrightarrow> length (concat pads) = 8 * length ms"
proof (induction ms arbitrary: pads)
  case (Cons m ms)
  have "length bs = 8" if "pad_name (f m) = Inr bs" for bs
    using that by (auto simp: pad_name_def split: option.splits sum.splits)
  with Cons show ?case by (auto split: sum.splits)
qed simp

lemma roster_length: "roster s r = Inr ros \<Longrightarrow> length ros = 8 * max 4 (length (members s r))"
  using pads_length [of "name_of s" "members s r"]
  by (auto simp: roster_def ROSTER_SLOTS_def max_def split: sum.splits)

lemma entries_length: "map_val (lobby_entry s) ks = Inr es \<Longrightarrow> length (concat es) = 9 * length ks"
proof (induction ks arbitrary: es)
  case (Cons k ks)
  have "length bs = 9" if "lobby_entry s k = Inr bs" for bs
    using that bytes_of_length [of "status s k"]
    by (auto simp: lobby_entry_def pad_name_def split: option.splits sum.splits)
  with Cons show ?case by (auto split: sum.splits)
qed simp

text \<open>What a flush and a new message do to one client.\<close>

lemma flush_loop_all:
  "list_all takes_all sc \<Longrightarrow> length tx \<le> MAX_TX_BACKLOG \<Longrightarrow> flush_loop tx sc = (sent, rest, sc', e) \<Longrightarrow>
   list_all takes_all sc' \<and> (sent = tx \<and> rest = [] \<or> sent = [] \<and> rest = tx)"
proof (cases sc)
  case (Cons r rs)
  moreover assume "list_all takes_all sc" "length tx \<le> MAX_TX_BACKLOG" "flush_loop tx sc = (sent, rest, sc', e)"
  ultimately show ?thesis
    by (cases tx; cases r) (auto simp: takes_all_def Let_def min_def split: if_splits)
qed (cases tx; auto)+

lemma flushed_streams:
  assumes alive: "\<not> dead s c" and fl: "flush_loop (cl_tx (sv_cl s c)) (cl_script (sv_cl s c)) = (sent, rest, sc, e)"
  shows "streams s (upd_cl c (\<lambda>k. k\<lparr>cl_tx := rest, cl_script := sc, cl_wire := cl_wire k @ sent\<rparr>) s)"
proof -
  let ?t = "upd_cl c (\<lambda>k. k\<lparr>cl_tx := rest, cl_script := sc, cl_wire := cl_wire k @ sent\<rparr>) s"
  have "\<exists>fs. list_all well_typed fs \<and> out_of ?t k = out_of s k @ frames_out fs" for k
    by (intro exI [of _ "[]"]) (simp add: out_of_def frames_out_def store_simps flush_loop_split [OF fl])
  moreover have "tidy (sv_cl s c) \<longrightarrow> tidy (sv_cl ?t c)"
    using flush_loop_all [OF _ _ fl]
    by (auto simp: tidy_def store_simps whole_frames_append)
  ultimately show ?thesis using alive by (auto simp: streams_def grows_def store_simps)
qed

lemma queued_streams:
  assumes alive: "\<not> dead s c" and "is_frame data" and "length (cl_tx (sv_cl s c)) + length data \<le> MAX_TX_BACKLOG"
  shows "streams s (upd_cl c (\<lambda>k. k\<lparr>cl_tx := cl_tx k @ data\<rparr>) s)"
proof -
  let ?t = "upd_cl c (\<lambda>k. k\<lparr>cl_tx := cl_tx k @ data\<rparr>) s"
  obtain t p where d: "well_typed (t, p)" "data = enframe t p" using assms(2) by (auto simp: is_frame_def)
  have "\<exists>fs. list_all well_typed fs \<and> out_of ?t k = out_of s k @ frames_out fs" for k
    using d by (intro exI [of _ "if k = c then [(t, p)] else []"]) (simp add: out_of_def store_simps frames_out_def)
  moreover have "tidy (sv_cl s c) \<longrightarrow> tidy (sv_cl ?t c)"
    using assms by (simp add: tidy_def store_simps whole_frames_append is_frame_whole)
  ultimately show ?thesis using alive by (auto simp: streams_def grows_def store_simps)
qed

text \<open>The transmit path, for any way of dropping a client that appends whole frames.\<close>

locale streaming_dropper =
  fixes d :: dropper
  assumes drop_streams: "streaming (d c why)"
begin

lemma flush_with_streams:
  assumes "\<not> dead s c"
  shows "streams s (fst (flush_with d c s))"
proof -
  obtain sent rest sc e where
    fl: "flush_loop (cl_tx (sv_cl s c)) (cl_script (sv_cl s c)) = (sent, rest, sc, e)"
    by (metis prod_cases4)
  let ?t = "upd_cl c (\<lambda>k. k\<lparr>cl_tx := rest, cl_script := sc, cl_wire := cl_wire k @ sent\<rparr>) s"
  have s: "streams s ?t" by (rule flushed_streams [OF assms fl])
  have "streams ?t (update_events c ?t)"
    by (rule streams_same) (simp add: quiet_def links_eq update_events_def split: option.split)
  with s streamingD [OF drop_streams, of ?t] show ?thesis
    by (cases e) (auto simp: flush_with_def fl Let_def intro: streams_trans)
qed

lemma send_with_streams:
  assumes "is_frame data"
  shows "streaming (send_with d c data)"
proof (rule streamingI)
  fix s
  let ?t = "upd_cl c (\<lambda>k. k\<lparr>cl_tx := cl_tx k @ data\<rparr>) s"
  let ?u = "s\<lparr>sv_stats := (sv_stats s)\<lparr>tx_backlog_drops := Suc (tx_backlog_drops (sv_stats s))\<rparr>\<rparr>"
  have "streams s ?t" if "\<not> dead s c" "length (cl_tx (sv_cl s c)) + length data \<le> MAX_TX_BACKLOG"
    by (rule queued_streams [OF that(1) assms that(2)])
  moreover have "streams s ?u" by (rule streams_same) (simp add: quiet_def links_eq)
  ultimately show "streams s (fst (send_with d c data s))"
    using flush_with_streams [of ?t c] streamingD [OF drop_streams, of ?u c TxBacklog]
    by (auto simp: send_with_def not_less store_simps intro: streams_trans)
qed

lemma send_frame_with_streams:
  "(length p \<le> 254 \<Longrightarrow> well_typed (t, p)) \<Longrightarrow> streaming (send_frame_with d c t p)"
  unfolding send_frame_with_def by (intro streaming_bind send_with_streams is_frame_frame)

lemma room_broadcast_with_streams: "streaming (room_broadcast_with d r)"
proof (rule streamingI)
  fix s
  have "streaming (bind_val (bytes_of [int (length (members s r))]) (\<lambda>n. bind_val (roster s r)
      (\<lambda>ros. for_members r (\<lambda>_ m. send_frame_with d m T_ROOM (n @ ros)))))"
    by (intro streaming_bind streaming_for_members send_frame_with_streams)
      (auto simp: well_typed.simps roster_length dest!: bytes_of_length)
  then show "streams s (fst (room_broadcast_with d r s))"
    by (simp add: room_broadcast_with_def streamingD)
qed

lemma dissolve_streams: "streaming (dissolve_with d r ms)"
proof (rule streamingI)
  fix s
  have "sv_next_cl (fold leave_room ks t) = sv_next_cl t" for ks t
    by (induction ks arbitrary: t) (simp_all add: store_simps)
  then have "quiet t (fold leave_room ks t)" for ks t
    using fold_leave_room [of ks t] by (simp add: quiet_def links_eq)
  then have "streaming (seq (update (fold leave_room (members s r)))
     (seq (for_each (\<lambda>m. send_frame_with d m T_ROOM (0 # replicate 32 0)) ms) (update (clear_members r))))"
    by (intro streaming_seq streaming_update streaming_for_each send_frame_with_streams)
      (simp_all add: quiet_def links_eq store_simps well_typed.simps)
  then show "streams s (fst (dissolve_with d r ms s))"
    by (simp add: dissolve_with_def streamingD)
qed

end

lemma quiet_step [intro!]:
  "quiet s t \<Longrightarrow> quiet s (drop_unhook c why t)" "quiet s t \<Longrightarrow> quiet s (upd_rm r f t)"
  "quiet s t \<Longrightarrow> quiet s (leave_room c t)" "quiet s t \<Longrightarrow> quiet s (log_it e t)"
  "quiet s t \<Longrightarrow> quiet s (lobby_update t)"
  by (simp_all add: quiet_def links_eq store_simps)

lemma quiet_part [simp]:
  "quiet s (drop_unhook c why s)" "quiet s (upd_rm r f s)" "quiet s (leave_room c s)"
  "quiet s (log_it e s)" "quiet s (lobby_update s)"
  by (rule quiet_step, rule quiet_refl)+

lemma streaming_lobby_update: "streaming (update lobby_update)"
  by (rule streaming_update) simp

lemma streams_if:
  "streams s (fst a) \<Longrightarrow> streams s (fst b) \<Longrightarrow> streams s (fst (if P then a else b))"
  by simp

lemma streams_from: "streaming f \<Longrightarrow> quiet s x \<Longrightarrow> streams s (fst (f x))"
  by (rule streams_trans [OF streams_same streamingD])

context streaming_dropper
begin

lemma leaver_streams:
  "streaming (bind_val (bytes_of [int i]) (\<lambda>sb. bind_val (pad_name nm) (\<lambda>nm.
     bind_val (frame T_PEER_LEFT (sb @ nm)) (\<lambda>pl.
       seq (dissolve_with d r [])
         (seq (for_each (\<lambda>m. seq (send_with d m pl)
                 (\<lambda>x. update (log_it (LBackToLobby (client_repr x m))) x)) ms)
              (update lobby_update))))))"
proof -
  have "streaming (\<lambda>x. update (log_it (LBackToLobby (client_repr x m))) x)" for m
    by (simp add: streaming_def update_def streams_same)
  moreover have "length bs = 8" if "pad_name nm = Inr bs" for bs
    using that by (auto simp: pad_name_def split: option.splits sum.splits)
  ultimately show ?thesis
    by (intro streaming_bind streaming_seq streaming_for_each dissolve_streams send_with_streams
        is_frame_frame streaming_lobby_update) (auto simp: well_typed.simps dest!: bytes_of_length)
qed

lemma drop_body_streams: "streaming (drop_body d c why)"
proof (rule streamingI)
  fix s
  let ?s1 = "drop_unhook c why s"
  show "streams s (fst (drop_body d c why s))"
  proof (cases "dead s c \<or> room_of ?s1 c = None")
    case True
    then show ?thesis
      by (auto simp: drop_body_def Let_def simp del: drop_unhook_fields intro: streams_same)
  next
    case False
    then obtain r where r: "\<not> dead s c" "room_of ?s1 c = Some r" by auto
    show ?thesis
    proof (cases "seat ?s1 c")
      case (Inl e)
      with r show ?thesis
        by (simp add: drop_body_def Let_def raise_def streams_same del: drop_unhook_fields)
    next
      case (Inr st)
      have x: "streams s (fst (f x))" if "quiet s x" "streaming f" for f x
        using that by (simp add: streams_from)
      have end_it: "streaming (seq (dissolve_with d r ms) (update lobby_update))"
          "streaming (seq (room_broadcast_with d r) (update lobby_update))" for ms
        by (intro streaming_seq dissolve_streams room_broadcast_with_streams streaming_lobby_update)+
      show ?thesis
        unfolding drop_body_def Let_def if_not_P [OF r(1)] r(2) Inr option.case bind_val_Inr
        by (intro streams_if; rule x [OF _ leaver_streams] x [OF _ end_it(1)] x [OF _ end_it(2)];
            intro quiet_step quiet_refl)
    qed
  qed
qed

end

lemma drop_fuel_streams: "streaming (drop_fuel n c why)"
proof (induction n arbitrary: c why)
  case 0
  show ?case by (simp add: streaming_def)
next
  case (Suc n)
  then have "streaming_dropper (drop_fuel n)" by unfold_locales
  from streaming_dropper.drop_body_streams [OF this] show ?case
    by (simp add: streaming_def)
qed

interpretation relay_stream: streaming_dropper drop_client
  by unfold_locales (simp add: drop_client_def drop_fuel_streams)

lemma send_streams: "is_frame data \<Longrightarrow> streaming (send c data)"
  unfolding send_def by (rule relay_stream.send_with_streams)

lemma send_frame_streams: "(length p \<le> 254 \<Longrightarrow> well_typed (t, p)) \<Longrightarrow> streaming (send_frame c t p)"
  unfolding send_frame_def by (rule relay_stream.send_frame_with_streams)

lemma flush_streams: "\<not> dead s c \<Longrightarrow> streams s (fst (flush c s))"
  unfolding flush_def by (rule relay_stream.flush_with_streams)

lemma room_broadcast_streams: "streaming (room_broadcast r)"
  unfolding room_broadcast_def by (rule relay_stream.room_broadcast_with_streams)

section \<open>The handlers append whole frames\<close>

lemma streams_after: "streaming (f s) \<Longrightarrow> streams s (fst (f s s))"
  by (simp add: streaming_def)

lemma list_typed:
  assumes "bytes_of [int (length (listed s c))] = Inr n"
    and "map_val (lobby_entry s) (listed s c) = Inr es" and "length (n @ concat es) \<le> 254"
  shows "well_typed (T_LOBBY, n @ concat es)"
proof -
  obtain b where b: "n = [b]" "unat b = length (listed s c)" using bytes_of_length [OF assms(1)] by blast
  have "length (listed s c) \<le> 8" by (simp add: listed_def)
  with b assms(3) entries_length [OF assms(2)] show ?thesis by (simp add: well_typed.simps)
qed

lemma on_list_streams: "streaming (on_list c)"
proof (rule streamingI)
  fix s
  have "streaming (bind_val (bytes_of [int (length (listed s c))]) (\<lambda>n.
      bind_val (map_val (lobby_entry s) (listed s c)) (\<lambda>es. send_frame c T_LOBBY (n @ concat es))))"
    by (intro streaming_bind send_frame_streams list_typed)
  then show "streams s (fst (on_list c s))" by (simp add: on_list_def streamingD)
qed

lemma quiet_set_name [simp]: "quiet s (set_name c n s)"
  by (auto simp: quiet_def links_eq set_name_def Let_def store_simps split: option.split)

lemma on_hello_streams: "streaming (on_hello c payload)"
proof -
  have "streaming (evict_name c n)" for n
    by (intro streamingI) (auto simp: evict_name_def streamingD [OF relay_stream.drop_streams]
        skip_def split: option.split)
  then show ?thesis
    by (intro streamingI) (auto simp: on_hello_eq intro!: streamingD streaming_seq streaming_update
        on_list_streams)
qed

lemma start_typed:
  assumes "bytes_of [int (length (members s r)), a, b, c] = Inr hdr" and "roster s r = Inr ros"
    and "bytes_of [int i] = Inr st" and "length (st @ hdr @ ros) \<le> 254"
  shows "well_typed (T_START, st @ hdr @ ros)"
  using assms bytes_of_length [OF assms(3)] roster_length [OF assms(2)]
  by (auto simp: bytes_of_def well_typed.simps split: if_splits)

lemma start_room_streams: "streaming (start_room r)"
proof (rule streamingI)
  fix s
  let ?logged = "\<lambda>x. update lobby_update
      (log_it (LMatch (room_repr x r) (length (members x r)) (rm_seed (sv_rm x r))) x)"
  have "streaming ?logged"
    by (simp add: streaming_def update_def) (intro allI streams_same quiet_step quiet_refl)
  moreover have "streaming (for_members r (\<lambda>i m. bind_val (bytes_of [int i]) (\<lambda>sn.
      send_frame m T_START (sn @ hdr @ ros))))"
    if "bytes_of [int (length (members t r)), a, b, c] = Inr hdr" "roster t r = Inr ros" for t a b c hdr ros
    by (intro streaming_for_members streaming_bind send_frame_streams start_typed [OF that])
  ultimately have "streaming (bind_val (bytes_of [int (length (members t r)), a, b, c]) (\<lambda>hdr.
      bind_val (roster t r) (\<lambda>ros. seq (for_members r (\<lambda>i m. bind_val (bytes_of [int i]) (\<lambda>sn.
        send_frame m T_START (sn @ hdr @ ros)))) ?logged)))" for t a b c
    by (intro streaming_bind streaming_seq)
  then show "streams s (fst (start_room r s))"
    unfolding start_room_def Let_def by (rule streams_from) (simp add: quiet_def links_eq store_simps)
qed

lemma on_join_streams: "streaming (on_join c payload)"
proof (rule streamingI)
  fix s
  have ann: "streaming (announce r)" for r
    unfolding announce_def
    by (intro streaming_seq room_broadcast_streams streaming_lobby_update)
      (auto intro: streamingI simp: streamingD [OF start_room_streams])
  have "quiet s (enter_room c r s1)" if "target_room k s = (r, s1)" for k r s1
    using that by (auto simp: target_room_def enter_room_def Let_def quiet_def links_eq store_simps
        split: option.splits)
  with ann show "streams s (fst (on_join c payload s))"
    by (auto simp: on_join_eq streamingD [OF on_list_streams] intro: streams_from
        split: option.split prod.split)
qed

lemma on_go_streams: "streaming (on_go c)"
proof (rule streamingI)
  fix s
  have "streams s (fst (bind_val (seat s c) f s))" if "\<And>i. streaming (f i)" for f
    using that by (intro streamingD streaming_bind)
  then show "streams s (fst (on_go c s))"
    by (simp add: on_go_def start_room_streams split: option.split)
qed

lemma relay_frame_streams:
  assumes "t \<in> set RELAY_TYPES"
  shows "streaming (relay_frame c t p)"
proof (rule streamingI)
  fix s
  have "quiet x ((if t = T_CRC \<and> length p = 5 then log_crc r p else id) x)" for r x
    by (auto simp: log_crc_def split: prod.split option.split)
  moreover have "streaming (send m d)" if "frame t p = Inr d" for m d
    using assms by (intro send_streams is_frame_frame [OF that]) (simp add: well_typed.simps)
  ultimately have "streaming (seq (update (if t = T_CRC \<and> length p = 5 then log_crc r p else id))
      (bind_val (frame t p) (\<lambda>data. for_members r (\<lambda>_ m. if m \<noteq> c then send m data else skip))))" for r
    by (intro streaming_seq streaming_update streaming_bind streaming_for_members) simp_all
  note all = streamingD [OF this, of s]
  show "streams s (fst (relay_frame c t p s))"
  proof (cases "\<exists>r. room_of s c = Some r \<and> rm_started (sv_rm s r)")
    case True
    then obtain r where "room_of s c = Some r" "rm_started (sv_rm s r)" by blast
    then show ?thesis by (simp add: relay_frame_def all split del: if_split)
  next
    case False
    then show ?thesis by (auto simp: relay_frame_def split: option.split)
  qed
qed

lemma handle_streams: "streaming (handle c t p)"
  unfolding handle_def
  by (simp add: relay_frame_streams on_hello_streams on_list_streams on_join_streams on_go_streams
      relay_stream.drop_streams send_frame_streams well_typed.simps)

end
