(* ===== verification/ReadPath.thy ===== *)
theory ReadPath
  imports Streams
begin

text \<open>
  The read path refines a specification without a buffer: \<open>serve_frames\<close> handles the
  frames of the received bytes in order and ends as the scan ends. The cuts TCP makes are
  invisible. At the end, the streams of whole runs.
\<close>

section \<open>The specification of the read path\<close>

fun serve_frames ::
    "cid \<Rightarrow> (byte \<times> byte list) list \<Rightarrow> scan_end \<Rightarrow> server \<Rightarrow> server \<times> exn option" where
  "serve_frames c [] (Waiting _) s = (s, None)"
| "serve_frames c [] (BadLen n _) s = drop_client c (BadFrameLength n) s"
| "serve_frames c ((t, p) # fs) e s =
     (case handle c t p s of
        (s', Some (ProtocolError x)) \<Rightarrow> drop_client c (Protocol x) s'
      | (s', Some x) \<Rightarrow> (s', Some x)
      | (s', None) \<Rightarrow> if dead s' c then (s', None) else serve_frames c fs e s')"

definition without_rx :: "server \<times> byte list \<times> exn option \<Rightarrow> server \<times> exn option" where
  "without_rx res = (fst res, snd (snd res))"

lemma service_loop_frames:
  "without_rx (service_loop c rx s) =
     serve_frames c (fst (deframe rx)) (snd (deframe rx)) s"
proof (induction c rx s rule: service_loop.induct)
  case (1 c rx s)
  show ?case
  proof (cases rx)
    case Nil
    then show ?thesis by (simp add: service_loop.simps without_rx_def)
  next
    case (Cons l rest)
    consider (bad) "unat l + 1 < 2 \<or> unat l > 200"
      | (wait) "\<not> (unat l + 1 < 2 \<or> unat l > 200)" "length rx < unat l + 1"
      | (go) "\<not> (unat l + 1 < 2 \<or> unat l > 200)" "\<not> length rx < unat l + 1"
      by blast
    then show ?thesis
    proof cases
      case bad
      with Cons show ?thesis
        by (simp add: service_loop.simps [of c "l # rest"] deframe.simps [of "l # rest"] Let_def
            without_rx_def case_prod_unfold)
    next
      case wait
      with Cons show ?thesis
        by (simp add: service_loop.simps [of c "l # rest"] deframe.simps [of "l # rest"] Let_def
            without_rx_def)
    next
      case go
      let ?t = "hd (take (unat l) rest)" and ?p = "tl (take (unat l) rest)"
      let ?rx = "drop (unat l + 1) rx"
      obtain u e where u: "handle c ?t ?p s = (u, e)" by fastforce
      have loop: "service_loop c rx s =
          (case e of
             Some (ProtocolError x) \<Rightarrow> (case drop_client c (Protocol x) u of (v, y) \<Rightarrow> (v, ?rx, y))
           | Some x \<Rightarrow> (u, ?rx, Some x)
           | None \<Rightarrow> if dead u c then (u, ?rx, None) else service_loop c ?rx u)"
        using Cons go u
        by (simp add: service_loop.simps [of c "l # rest"] Let_def split: option.split exn.split)
      have rx: "drop (unat l) rest = ?rx" using Cons by simp
      have de: "deframe rx = ((?t, ?p) # fst (deframe ?rx), snd (deframe ?rx))"
        using Cons go by (simp add: deframe.simps [of "l # rest"] Let_def case_prod_unfold)
      show ?thesis
      proof (cases e)
        case None
        have "without_rx (service_loop c ?rx u) =
            serve_frames c (fst (deframe ?rx)) (snd (deframe ?rx)) u" if "\<not> dead u c"
          using "1.IH" [OF Cons refl _ _ refl refl u [symmetric, unfolded None]] go that Cons None
          by simp
        with None show ?thesis
          by (simp add: loop de u) (simp add: without_rx_def)
      next
        case (Some x)
        then show ?thesis
          by (cases x) (simp_all add: loop de u without_rx_def case_prod_unfold)
      qed
    qed
  qed
qed

text \<open>What stays in the buffer of a client that is still there is an incomplete frame.\<close>

lemma service_loop_rest:
  "winv {} s \<Longrightarrow> allocated c s \<Longrightarrow> \<not> dead (fst (service_loop c rx s)) c \<Longrightarrow>
   snd (deframe rx) = Waiting (fst (snd (service_loop c rx s)))"
proof (induction c rx s rule: service_loop.induct)
  case (1 c rx s)
  show ?case
  proof (cases rx)
    case Nil
    then show ?thesis by (simp add: service_loop.simps)
  next
    case (Cons l rest)
    consider (bad) "unat l + 1 < 2 \<or> unat l > 200"
      | (wait) "\<not> (unat l + 1 < 2 \<or> unat l > 200)" "length rx < unat l + 1"
      | (go) "\<not> (unat l + 1 < 2 \<or> unat l > 200)" "\<not> length rx < unat l + 1"
      by blast
    then show ?thesis
    proof cases
      case bad
      with Cons "1.prems"(3) drop_client_kills [OF "1.prems"(1), of c "BadFrameLength (unat l)"]
      show ?thesis
        by (simp add: service_loop.simps [of c "l # rest"] Let_def case_prod_unfold)
    next
      case wait
      with Cons show ?thesis
        by (simp add: service_loop.simps [of c "l # rest"] deframe.simps [of "l # rest"] Let_def)
    next
      case go
      let ?t = "hd (take (unat l) rest)" and ?p = "tl (take (unat l) rest)"
      let ?rx = "drop (unat l + 1) rx"
      have "tame_for c (handle c ?t ?p)" using go(1) by (intro handle_tame) auto
      with "1.prems" have h: "winv {} (fst (handle c ?t ?p s))"
          "sv_next_cl s \<le> sv_next_cl (fst (handle c ?t ?p s))"
          "snd (handle c ?t ?p s) = None \<or> (\<exists>e. snd (handle c ?t ?p s) = Some (ProtocolError e))"
        by (simp_all add: tame_for_def)
      obtain u e where u: "handle c ?t ?p s = (u, e)" by fastforce
      have loop: "service_loop c rx s =
          (case e of
             Some (ProtocolError x) \<Rightarrow> (case drop_client c (Protocol x) u of (v, y) \<Rightarrow> (v, ?rx, y))
           | Some x \<Rightarrow> (u, ?rx, Some x)
           | None \<Rightarrow> if dead u c then (u, ?rx, None) else service_loop c ?rx u)"
        using Cons go u
        by (simp add: service_loop.simps [of c "l # rest"] Let_def split: option.split exn.split)
      have de: "snd (deframe rx) = snd (deframe ?rx)"
        using Cons go by (simp add: deframe.simps [of "l # rest"] Let_def case_prod_unfold)
      have None: "e = None"
      proof (rule ccontr)
        assume "e \<noteq> None"
        then obtain x where "e = Some (ProtocolError x)" using h(3) u by auto
        then have "dead (fst (service_loop c rx s)) c"
          using drop_client_kills [of u c "Protocol x"] h(1) u by (simp add: loop case_prod_unfold)
        with "1.prems"(3) show False by simp
      qed
      have alive: "\<not> dead u c" using "1.prems"(3) None by (auto simp: loop)
      have "winv {} u" "allocated c u" using h(1,2) u "1.prems"(2) by (auto simp: allocated_def)
      moreover have "\<not> dead (fst (service_loop c ?rx u)) c"
        using "1.prems"(3) None alive by (simp add: loop)
      ultimately have "snd (deframe ?rx) = Waiting (fst (snd (service_loop c ?rx u)))"
        using "1.IH" [OF Cons refl _ _ refl refl u [symmetric, unfolded None]] go alive Cons by simp
      with None alive de show ?thesis by (simp add: loop)
    qed
  qed
qed

lemma serve_frames_append:
  assumes "winv {} s" and "allocated c s" and "list_all (\<lambda>f. length (snd f) \<le> 199) fs"
  shows "serve_frames c (fs @ gs) e s =
    (case serve_frames c fs (Waiting []) s of
       (t, None) \<Rightarrow> if dead t c \<and> (fs \<noteq> []) then (t, None) else serve_frames c gs e t
     | (t, Some x) \<Rightarrow> (t, Some x))"
  using assms
proof (induction fs arbitrary: s)
  case (Cons f fs)
  obtain t p where f: "f = (t, p)" by fastforce
  obtain u x where u: "handle c t p s = (u, x)" by fastforce
  have "tame_for c (handle c t p)" using Cons.prems(3) f by (intro handle_tame) simp
  then have h: "winv {} u" "allocated c u" "x = None \<or> (\<exists>e. x = Some (ProtocolError e))"
    using Cons.prems(1,2) u by (force simp: tame_for_def allocated_def)+
  show ?case
  proof (cases x)
    case None
    show ?thesis
      using Cons.IH [OF h(1,2)] Cons.prems(3)
      by (cases fs) (auto simp: f u None split: prod.split option.split)
  next
    case (Some y)
    with h(3) obtain z where y: "y = ProtocolError z" by auto
    obtain v where "drop_client c (Protocol z) u = (v, None)" "dead v c"
      using keeps_fst [OF drop_client_keeps h(1), of c "Protocol z"] drop_client_kills [OF h(1), of c "Protocol z"]
      by fastforce
    then show ?thesis by (simp add: f u Some y)
  qed
qed simp

lemma deframe_payloads: "list_all (\<lambda>f. length (snd f) \<le> 199) (fst (deframe rx))"
proof (induction rx rule: deframe.induct)
  case (1 rx)
  show ?case
  proof (cases rx)
    case (Cons l bs)
    then show ?thesis
      using "1.IH" by (subst deframe.simps) (auto simp: Let_def case_prod_unfold)
  qed simp
qed

section \<open>Cuts\<close>

lemma serve_frames_waiting: "serve_frames c fs (Waiting r) s = serve_frames c fs (Waiting q) s"
proof (induction fs arbitrary: s)
  case (Cons f fs)
  then show ?case
    by (cases f) (simp split: prod.split option.split exn.split)
qed simp

lemma serve_frames_bad: "serve_frames c fs (BadLen n r) s = serve_frames c fs (BadLen n q) s"
proof (induction fs arbitrary: s)
  case (Cons f fs)
  then show ?case
    by (cases f) (simp split: prod.split option.split exn.split)
qed simp

lemma service_loop_cut:
  assumes inv: "winv {} s" and al: "allocated c s" and alive: "\<not> dead s c"
  shows "dead (fst (service_loop c r s)) c \<Longrightarrow>
      without_rx (service_loop c (r @ b) s) = without_rx (service_loop c r s)"
    and "\<not> dead (fst (service_loop c r s)) c \<Longrightarrow>
      without_rx (service_loop c (r @ b) s) =
      without_rx (service_loop c (fst (snd (service_loop c r s)) @ b) (fst (service_loop c r s)))"
proof -
  let ?fs = "fst (deframe r)"
  obtain t where t: "fst (service_loop c r s) = t" by simp
  have no_exn: "snd (snd (service_loop c r s)) = None"
    using service_loop_sound [OF inv al, of r] by (simp add: sound_def)
  have sf: "serve_frames c ?fs (snd (deframe r)) s = (t, None)"
    using service_loop_frames [of c r s] no_exn t by (simp add: without_rx_def)
  have wr: "without_rx (service_loop c r s) = (t, None)" using no_exn t by (simp add: without_rx_def)
  note pay = deframe_payloads [of r]
  show "without_rx (service_loop c (r @ b) s) = without_rx (service_loop c r s)"
    if "dead (fst (service_loop c r s)) c"
  proof (cases "snd (deframe r)")
    case (Waiting rest)
    have "deframe (r @ b) = (?fs @ fst (deframe (rest @ b)), snd (deframe (rest @ b)))"
      using Waiting by (simp add: deframe_append [of r b] case_prod_unfold)
    moreover have "serve_frames c ?fs (Waiting []) s = (t, None)"
      using sf Waiting serve_frames_waiting by metis
    moreover have "?fs \<noteq> []" using sf Waiting alive that t by auto
    ultimately show ?thesis
      using serve_frames_append [OF inv al pay] that t
      by (simp add: service_loop_frames [of c "r @ b"] wr)
  next
    case (BadLen n rest)
    then have "deframe (r @ b) = (?fs, BadLen n (rest @ b))"
      by (simp add: deframe_append [of r b] case_prod_unfold)
    then show ?thesis
      using sf BadLen serve_frames_bad [of c ?fs n rest s "rest @ b"]
      by (simp add: service_loop_frames [of c "r @ b"] wr)
  qed
  show "without_rx (service_loop c (r @ b) s) =
      without_rx (service_loop c (fst (snd (service_loop c r s)) @ b) (fst (service_loop c r s)))"
    if live: "\<not> dead (fst (service_loop c r s)) c"
  proof -
    let ?rest = "fst (snd (service_loop c r s))"
    have w: "snd (deframe r) = Waiting ?rest" by (rule service_loop_rest [OF inv al live])
    then have "deframe (r @ b) = (?fs @ fst (deframe (?rest @ b)), snd (deframe (?rest @ b)))"
      by (simp add: deframe_append [of r b] case_prod_unfold)
    moreover have "serve_frames c ?fs (Waiting []) s = (t, None)"
      using sf w serve_frames_waiting by metis
    ultimately show ?thesis
      using serve_frames_append [OF inv al pay] live t
      by (simp add: service_loop_frames [of c "r @ b"] service_loop_frames [of c "?rest @ b"])
  qed
qed

text \<open>The buffer of a client that is still there does not depend on the cut either.\<close>

lemma service_loop_cut_rx:
  assumes inv: "winv {} s" and al: "allocated c s" and alive: "\<not> dead s c"
    and live: "\<not> dead (fst (service_loop c r s)) c"
    and live2: "\<not> dead (fst (service_loop c (r @ b) s)) c"
  shows "fst (snd (service_loop c (r @ b) s)) =
    fst (snd (service_loop c (fst (snd (service_loop c r s)) @ b) (fst (service_loop c r s))))"
proof -
  let ?t = "fst (service_loop c r s)" and ?rest = "fst (snd (service_loop c r s))"
  have snd: "sound s (?t, snd (snd (service_loop c r s)))" by (rule service_loop_sound [OF inv al])
  then have t: "winv {} ?t" "allocated c ?t" using al by (simp_all add: sound_def allocated_def)
  have "fst (service_loop c (r @ b) s) = fst (service_loop c (?rest @ b) ?t)"
    using service_loop_cut(2) [OF inv al alive live, of b] by (simp add: without_rx_def)
  then have "\<not> dead (fst (service_loop c (?rest @ b) ?t)) c" using live2 by simp
  from service_loop_rest [OF t this]
  have "snd (deframe (?rest @ b)) = Waiting (fst (snd (service_loop c (?rest @ b) ?t)))" .
  moreover have "snd (deframe (r @ b)) = snd (deframe (?rest @ b))"
    using service_loop_rest [OF inv al live] by (simp add: deframe_append [of r b] case_prod_unfold)
  moreover have "snd (deframe (r @ b)) = Waiting (fst (snd (service_loop c (r @ b) s)))"
    by (rule service_loop_rest [OF inv al live2])
  ultimately show ?thesis by simp
qed

section \<open>Streams of whole runs\<close>

definition lstreams :: "loop \<Rightarrow> loop \<Rightarrow> bool" where
  "lstreams x y \<longleftrightarrow> grows (rl_server (lp_relay x)) (rl_server (lp_relay y))"

lemma serve_frames_streams: "streaming (serve_frames c fs e)"
proof (induction fs)
  case Nil
  show ?case
    by (cases e) (simp_all add: streaming_def streamingD [OF relay_stream.drop_streams])
next
  case (Cons f fs)
  obtain t p where f: "f = (t, p)" by fastforce
  show ?case
  proof (rule streamingI)
    fix s
    obtain u x where u: "handle c t p s = (u, x)" by fastforce
    have "streams s u" using streamingD [OF handle_streams, of s c t p] u by simp
    then show "streams s (fst (serve_frames c (f # fs) e s))"
      using streamingD [OF Cons.IH, of u] streamingD [OF relay_stream.drop_streams, of u c]
      by (auto simp: f u intro: streams_trans split: option.split exn.split)
  qed
qed

lemma service_loop_streams: "streams s (fst (service_loop c rx s))"
proof -
  have "fst (service_loop c rx s) = fst (without_rx (service_loop c rx s))"
    by (simp add: without_rx_def)
  then show ?thesis
    using streamingD [OF serve_frames_streams, of s c "fst (deframe rx)" "snd (deframe rx)"]
    by (simp add: service_loop_frames)
qed

lemma on_server_streams: "streaming f \<Longrightarrow> streams (rl_server x) (rl_server (fst (on_server f x)))"
  by (simp add: on_server_def case_prod_unfold streaming_def)

lemma service_streams: "streams (rl_server x) (rl_server (fst (service c res x)))"
  using service_loop_streams
  by (auto simp: service_def on_server_streams relay_stream.drop_streams case_prod_unfold
      split: recv_res.split)

lemma serve_streams:
  assumes inv: "winv {} (rl_server x)"
  shows "streams (rl_server x) (rl_server (fst (serve c w r x)))"
proof -
  let ?a = "\<lambda>x. if w \<and> \<not> dead (rl_server x) c then on_server (flush c) x else (x, None)"
  obtain y where y: "fst (?a x) = y" by simp
  have xy: "streams (rl_server x) (rl_server y)"
    using y flush_streams [of "rl_server x" c] by (auto simp: on_server_def case_prod_unfold)
  have "fst (serve_body c w r x) = y \<or> (\<exists>res. fst (serve_body c w r x) = fst (service c res y))"
    using y by (cases "snd (?a x)") (auto simp: serve_body_def seq_def split: option.split prod.splits)
  then show ?thesis
    using xy service_streams [of y] by (auto simp: serve_eq_body [OF inv] intro: streams_trans)
qed

lemma accept_grows:
  assumes inv: "winv {} s"
  shows "grows s (accept addr now script s)"
proof -
  have fresh: "sv_cl s (sv_next_cl s) = no_client" using inv by (simp add: winv_def clients_ok_def)
  have same: "grows s (reject e s)" for e
    by (intro streams_grows streams_same) (simp add: reject_def quiet_def links_eq)
  have "\<exists>fs. list_all well_typed fs \<and>
      out_of (accept addr now script s) k = out_of s k @ frames_out fs" for k
    using fresh by (intro exI [of _ "[]"]) (cases addr now script s rule: accept_cases,
      auto simp: out_of_def frames_out_def reject_def client_init_def no_client_def)
  then show ?thesis using same
    by (cases addr now script s rule: accept_cases) (simp_all add: grows_def)
qed

lemma on_event_streams:
  assumes inv: "winv {} (rl_server x)" and "\<And>a n sc. e \<noteq> Accepted a n sc"
  shows "streams (rl_server x) (rl_server (fst (on_event e x)))"
proof (cases e)
  case (LobbyMoves a)
  then show ?thesis by (auto simp: quiet_def links_eq intro: streams_same split: option.split)
qed (use assms(2) in \<open>simp_all add: serve_streams inv\<close>)

lemma on_event_grows:
  assumes inv: "winv {} (rl_server x)"
  shows "grows (rl_server x) (rl_server (fst (on_event e x)))"
proof (cases "\<exists>a n sc. e = Accepted a n sc")
  case False
  then show ?thesis by (intro streams_grows on_event_streams [OF inv]) blast
qed (auto simp: accept_grows inv)

lemma events_grows:
  "winv {} (rl_server x) \<Longrightarrow> grows (rl_server x) (rl_server (fst (for_each on_event es x)))"
proof (induction es arbitrary: x)
  case (Cons e es)
  obtain y z where y: "on_event e x = (y, z)" by fastforce
  have "winv {} (rl_server y)" "grows (rl_server x) (rl_server y)"
    using on_event_inv(1) [OF Cons.prems, of e] on_event_grows [OF Cons.prems, of e] y by simp_all
  with Cons.IH [of y] y show ?case
    by (auto simp: seq_def intro: grows_trans split: option.split)
qed (simp add: skip_def streams_grows)

lemma sweep_streams: "streaming (sweep now)"
proof -
  have "streaming (sweep_one now c)" for c
  proof (rule streamingI)
    fix s
    show "streams s (fst (sweep_one now c s))"
      by (simp add: sweep_one_def) (intro impI streams_from relay_stream.drop_streams,
          simp add: quiet_def links_eq)
  qed
  then have "streaming (sweep_over order now)" for order
    unfolding sweep_over_def by (rule streaming_for_each)
  then show ?thesis by (simp add: streaming_def sweep_def)
qed

lemma timers_streams: "streams (rl_server (lp_relay x)) (rl_server (lp_relay (fst (timers now x))))"
proof -
  let ?S = "\<lambda>x y :: loop. streams (rl_server (lp_relay x)) (rl_server (lp_relay y))"
  have a: "streams (rl_server (lp_relay x)) (rl_server (lp_relay (fst (on_relay (on_server f) y))))"
    if "lp_relay y = lp_relay x" "streaming f" for y f and x :: loop
    using that by (simp add: on_relay_def on_server_def case_prod_unfold streamingD)
  have "quiet s (log_stats s)" for s
    by (simp add: log_stats_def Let_def quiet_def links_eq)
  then have st: "streaming (update log_stats)" by (intro streaming_update) simp
  let ?f = "\<lambda>x. if now - lp_last_sweep x \<ge> 1
     then on_relay (on_server (sweep now)) (x\<lparr>lp_last_sweep := now\<rparr>) else (x, None)"
  let ?g = "\<lambda>x. if now - lp_last_stats x \<ge> STATS_INTERVAL
     then on_relay (on_server (update log_stats)) (x\<lparr>lp_last_stats := now\<rparr>) else (x, None)"
  have f: "?S x (fst (?f x))" for x
    using a [OF _ sweep_streams [of now]] by simp
  have g: "?S x (fst (?g x))" for x
    using a [OF _ st] by simp
  obtain y e where y: "?f x = (y, e)" by fastforce
  have "?S x y" using f [of x] y by simp
  moreover have "timers now x = (case e of None \<Rightarrow> ?g y | Some z \<Rightarrow> (y, Some z))"
    using y by (simp add: timers_def seq_def split: option.split)
  ultimately show ?thesis
    using g [of y] by (cases e) (auto intro: streams_trans)
qed

lemma turn_streams:
  assumes x: "linv x"
  shows "lstreams x (fst (turn (es, now) x))"
proof -
  obtain y z where y: "for_each on_event es (lp_relay x) = (y, z)" by fastforce
  let ?x = "x\<lparr>lp_relay := y\<rparr>"
  have s: "lstreams x ?x"
    using events_grows [of "lp_relay x" es] x y by (simp add: linv_def lstreams_def)
  have "turn (es, now) x = (if z = None then timers now ?x else (?x, z))"
    by (cases z) (simp_all add: turn_def on_relay_def seq_def y)
  with s streams_grows [OF timers_streams [of ?x now]] show ?thesis
    unfolding lstreams_def by (auto intro: grows_trans)
qed

lemma run_streams: "linv x \<Longrightarrow> lstreams x (fst (run ts x))"
proof (induction ts arbitrary: x)
  case (Cons t ts)
  obtain es now where t: "t = (es, now)" by fastforce
  obtain y z where y: "turn t x = (y, z)" by fastforce
  have "linv y" "lstreams x y"
    using turn_inv(1) [OF Cons.prems, of es now] turn_streams [OF Cons.prems, of es now] y t by simp_all
  with Cons.IH [of y] y show ?case
    unfolding lstreams_def
    by (auto simp: run_def seq_def intro: grows_trans split: option.split)
qed (simp add: run_def skip_def lstreams_def streams_grows)

end
