(* ===== verification/Scenario.thy ===== *)
theory Scenario
  imports ReadPath
begin

text \<open>
  Concrete states for the instances of the properties: two named clients, \<open>AA\<close> and
  \<open>BB\<close>, alone, in a room together or in a match, and a third that has not said HELLO.
  Sockets without a script block, so everything stays in the transmit buffers.
\<close>

definition name_AA :: pystr where "name_AA = [65, 65]"
definition name_BB :: pystr where "name_BB = [66, 66]"

definition demo_client :: "pystr \<Rightarrow> rid option \<Rightarrow> send_res list \<Rightarrow> client" where
  "demo_client n r sc = (client_init (1, 1000) 0 sc)\<lparr>cl_name := Some n, cl_room := r\<rparr>"

text \<open>\<open>demo_world r on sc\<close>: the two are in room \<open>r\<close>, the match is on, and the socket of
  \<open>BB\<close> follows the script \<open>sc\<close>.\<close>

definition demo_world :: "rid option \<Rightarrow> bool \<Rightarrow> send_res list \<Rightarrow> server" where
  "demo_world r on sc = (server_init 3 None 0 (\<lambda>_. 4660))
     \<lparr>sv_by_name := [(name_AA, 0), (name_BB, 1)], sv_clients := [0, 1, 2],
      sv_sel := (\<lambda>c. if c < 3 then Some False else None),
      sv_cl := (\<lambda>_. no_client)(0 := demo_client name_AA r [], 1 := demo_client name_BB r sc,
         2 := client_init (2, 2000) 0 []),
      sv_next_cl := 3,
      sv_rm := (\<lambda>_. no_room)(0 := (if r = None then no_room
         else (room_init 0)\<lparr>rm_members := [0, 1], rm_started := on\<rparr>)),
      sv_next_rm := (if r = None then 0 else 1)\<rparr>"

definition demo_lobby :: server where "demo_lobby = demo_world None False []"
definition demo_room :: server where "demo_room = demo_world (Some 0) False []"
definition demo_match :: server where "demo_match = demo_world (Some 0) True []"

text \<open>The match, with \<open>BB\<close>'s connection about to fail.\<close>

definition demo_failing :: server where "demo_failing = demo_world (Some 0) True [SendFail]"

lemmas demo_defs = demo_lobby_def demo_room_def demo_match_def demo_failing_def

lemma demo_fields [simp]:
  "sv_by_name (demo_world r on sc) = [(name_AA, 0), (name_BB, 1)]"
  "sv_clients (demo_world r on sc) = [0, 1, 2]"
  "sv_sel (demo_world r on sc) c = (if c < 3 then Some False else None)"
  "sv_cl (demo_world r on sc) 0 = demo_client name_AA r []"
  "sv_cl (demo_world r on sc) (Suc 0) = demo_client name_BB r sc"
  "sv_cl (demo_world r on sc) 2 = client_init (2, 2000) 0 []"
  "3 \<le> c \<Longrightarrow> sv_cl (demo_world r on sc) c = no_client"
  "sv_next_cl (demo_world r on sc) = 3"
  "sv_rm (demo_world None on sc) = (\<lambda>_. no_room)"
  "sv_rm (demo_world (Some q) on sc) =
     (\<lambda>_. no_room)(0 := (room_init 0)\<lparr>rm_members := [0, 1], rm_started := on\<rparr>)"
  "sv_next_rm (demo_world r on sc) = (if r = None then 0 else 1)"
  "sv_delay (demo_world r on sc) = 3" "sv_lobby (demo_world r on sc) = None"
  "sv_auto_go (demo_world r on sc) = 0" "sv_log (demo_world r on sc) = []"
  by (simp_all add: demo_world_def server_init_def fun_eq_iff)

lemma demo_client_fields [simp]:
  "cl_name (demo_client n r sc) = Some n" "cl_room (demo_client n r sc) = r"
  "cl_dead (demo_client n r sc) = False" "cl_tx (demo_client n r sc) = []"
  "cl_wire (demo_client n r sc) = []" "cl_script (demo_client n r sc) = sc"
  "cl_addr (demo_client n r sc) = (1, 1000)"
  by (simp_all add: demo_client_def client_init_def)

lemma init_client_fields [simp]:
  "cl_name (client_init a now sc) = None" "cl_room (client_init a now sc) = None"
  "cl_dead (client_init a now sc) = False" "cl_tx (client_init a now sc) = []"
  "cl_wire (client_init a now sc) = []" "cl_script (client_init a now sc) = sc"
  "cl_addr (client_init a now sc) = a" "cl_connected_at (client_init a now sc) = now"
  by (simp_all add: client_init_def)

lemma demo_valid [simp]: "valid_name name_AA" "valid_name name_BB" "name_AA \<noteq> name_BB"
  by (simp_all add: valid_name_def NAME_CHARS_def str_of_def name_AA_def name_BB_def)

text \<open>The clients of a demo state, one by one.\<close>

lemma cid_cases:
  obtains "c = 0" | "c = Suc 0" | "c = (2 :: cid)" | "3 \<le> c"
  by linarith

lemma demo_inv:
  assumes r: "r = None \<or> r = Some 0"
  shows "winv {} (demo_world r on sc)"
proof -
  let ?s = "demo_world r on sc"
  have "names_ok ?s" "tx_ok {} ?s"
    unfolding names_ok_def tx_ok_def
    by (intro allI; case_tac c rule: cid_cases; simp add: no_client_def)+
  moreover have "by_name_ok ?s"
  proof (rule by_name_okI)
    show "distinct (dict_keys (sv_by_name ?s))"
      by (simp add: dict_keys_def)
    show "name_of ?s c = Some n" if "(n, c) \<in> set (sv_by_name ?s)" for n c
      using that by auto
    show "(n, c) \<in> set (sv_by_name ?s)" if "\<not> dead ?s c" "name_of ?s c = Some n" for n c
      using that by (cases c rule: cid_cases) (auto simp: no_client_def)
  qed
  moreover have "clients_ok ?s"
  proof -
    have "c \<in> {0, 1, 2} \<longleftrightarrow> \<not> dead ?s c" for c
      by (cases c rule: cid_cases) (auto simp: no_client_def)
    then show ?thesis
      by (auto simp: clients_ok_def MAX_CLIENTS_def MAX_CONNECTIONS_PER_IP_def per_ip_def)
  qed
  moreover have "rooms_ok ?s"
    unfolding rooms_ok_def
  proof (intro conjI allI impI)
    fix q c
    show "members ?s q = [] \<or> length (members ?s q) = 2 \<and> distinct (members ?s q)"
      using r by (cases "q = 0") (auto simp: no_room_def)
    show "c \<in> set (members ?s q) \<longleftrightarrow> room_of ?s c = Some q"
      using r by (cases c rule: cid_cases; cases "q = 0") (auto simp: no_room_def no_client_def)
    show "name_of ?s c \<noteq> None" if "room_of ?s c \<noteq> None"
      using that by (cases c rule: cid_cases) (auto simp: no_client_def)
    show "sv_rm ?s q = no_room" if "sv_next_rm ?s \<le> q"
      using r that by auto
  qed
  moreover have "crcs_ok ?s"
  proof -
    have "rm_crc (sv_rm ?s q) = []" for q
      using r by (cases "q = 0") (auto simp: no_room_def room_init_def)
    then show ?thesis by (simp add: crcs_ok_def crc_table_ok_def dict_keys_def dict_values_def)
  qed
  moreover have "lobby_ok ?s" by (simp add: lobby_ok_def)
  ultimately show ?thesis by (simp add: winv_def)
qed

lemma demo_invs: "winv {} demo_lobby" "winv {} demo_room" "winv {} demo_match" "winv {} demo_failing"
  unfolding demo_defs by (simp_all add: demo_inv)

end
