(* ===== verification/RelayProps.thy ===== *)
theory RelayProps
  imports Scenario
begin

text \<open>
  What a client sees of the relay: the properties of the handlers, each with a concrete
  instance.
\<close>

lemmas demo_eval = demo_defs healthy_def MAX_TX_BACKLOG_def RELAY_TYPES_def T_defs

text \<open>The listing a client is sent when it asks, or says HELLO.\<close>

lemma list_sends:
  assumes inv: "winv {} s" and h: "healthy s c 75"
  shows "\<exists>t. handle c T_LIST payload s = (t, None) \<and>
    wrote (\<lambda>k. if k = c then enframe T_LOBBY (lobby_payload s c) else []) s t"
proof -
  let ?f = "enframe T_LOBBY (lobby_payload s c)"
  have len: "length (lobby_payload s c) \<le> 73"
    using length_lobby_payload [OF inv, of c] length_listed [of s c] by simp
  then have "healthy s c (length ?f + 0)" using healthy_less [OF h] by simp
  then obtain t where t: "send c ?f s = (t, None)" "wrote (\<lambda>k. if k = c then ?f else []) s t"
    by (rule send_healthy)
  have "handle c T_LIST payload s = (t, None)"
    using t(1) len by (simp add: handle_def RELAY_TYPES_def T_defs on_list_eq [OF inv] send_frame_def
        send_frame_with_def frame_enframe send_def)
  with t(2) show ?thesis by blast
qed

section \<open>The match\<close>

text \<open>C1. A frame of a relay type from a player in a running match is sent, byte for
  byte, to the other player and to nobody else, provided the other player's socket does not
  fail and its transmit buffer has room for the frame (\<open>healthy\<close>: otherwise the send drops
  that player); apart from the bookkeeping of a CRC report nothing else changes.\<close>

theorem relay_delivers:
  assumes inv: "winv {} s" and c: "room_of s c = Some r" and k: "room_of s k = Some r" "k \<noteq> c"
    and on: "rm_started (sv_rm s r)" and t: "ftype \<in> set RELAY_TYPES"
    and len: "length payload \<le> 199" and h: "healthy s k (length payload + 2)"
  shows "\<exists>t. handle c ftype payload s = (t, None) \<and>
    wrote (\<lambda>j. if j = k then enframe ftype payload else [])
      (if ftype = T_CRC \<and> length payload = 5 then log_crc r payload s else s) t"
proof -
  let ?u = "if ftype = T_CRC \<and> length payload = 5 then log_crc r payload s else s"
  have cl: "sv_cl (log_crc r payload s) = sv_cl s"
    "members (log_crc r payload s) r = members s r"
    using crc_round_frame(1)
    by (simp_all add: log_crc_def store_simps split: prod.split option.split)
      (metis crc_round_frame(1) fst_conv)
  have m: "members ?u r = [c, k] \<or> members ?u r = [k, c]"
    using two_members [OF inv c k] cl(2) by simp
  have "healthy ?u k (length (enframe ftype payload))"
    using h cl(1) by (simp add: healthy_def)
  then obtain t where u: "for_members r (\<lambda>_ m. if m \<noteq> c then send m (enframe ftype payload) else skip) ?u = (t, None)"
      "wrote (\<lambda>j. if j = k then enframe ftype payload else []) ?u t"
    by (rule relay_one [OF m k(2)])
  have "handle c ftype payload s =
      for_members r (\<lambda>_ m. if m \<noteq> c then send m (enframe ftype payload) else skip) ?u"
    using c on t len by (simp add: handle_def relay_frame_def seq_def update_def frame_enframe)
  with u show ?thesis by (intro exI [of _ t]) simp
qed

theorem relay_delivers_witness:
  "\<exists>t. handle 0 T_INPUT [7, 1] demo_match = (t, None) \<and>
     wrote (\<lambda>j. if j = 1 then enframe T_INPUT [7, 1] else [])
      (if T_INPUT = T_CRC \<and> length [7, 1 :: byte] = 5 then log_crc 0 [7, 1] demo_match else demo_match) t"
  by (rule relay_delivers [of demo_match 0 0 1 T_INPUT "[7, 1]"])
    (simp_all add: demo_invs, simp_all add: demo_eval)

text \<open>C3. When a player leaves a running match, for whatever reason, and the other player's
  socket does not fail and its transmit buffer has room for the notice, the room is
  dissolved, the other player is sent exactly one frame, PEER_LEFT with the leaver's seat
  and name, and is back in the lobby; nobody else is sent anything and the leaver's name is
  gone. (If sending the notice fails the other player is dropped as well, see
  \<open>hello_registers_ghost\<close> below.)\<close>

theorem drop_ends_match:
  assumes inv: "winv {} s" and alive: "\<not> dead s c" and c: "room_of s c = Some r"
    and k: "room_of s k = Some r" "k \<noteq> c" and on: "rm_started (sv_rm s r)"
    and n: "name_of s c = Some n" and h: "healthy s k 11"
  shows "\<exists>t i. drop_client c why s = (t, None) \<and> winv {} t \<and>
    i < 2 \<and> members s r ! i = c \<and>
    (\<forall>j. out_of t j = out_of s j @ (if j = k then enframe T_PEER_LEFT (word_of_nat i # name8 n) else [])) \<and>
    members t r = [] \<and> room_of t c = None \<and> room_of t k = None \<and>
    dead t c \<and> \<not> dead t k \<and> c \<notin> set (dict_values (sv_by_name t))"
proof -
  let ?s1 = "drop_unhook c why s"
  have inv1: "winv {} ?s1"
    using drop_unhook_good [OF sending_start [OF inv alive]] by (simp add: good_pair)
  obtain q i m e x where q: "q \<noteq> c" "room_of s q = Some r" "members s r ! i = c" "name_of s c = Some m"
      "valid_name m" "i < MAX_SEATS"
      "x = send_solo q (peer_left_frame i m) (dissolved r (part_room c r (log_it e ?s1)))"
      "\<And>j. drop_fuel (Suc (Suc j)) c why s = (lobby_update (log_it (LBackToLobby (client_repr x q)) x), None)"
    using drop_started [OF alive inv1 c on] by metis
  have "q = k"
  proof -
    have "q \<in> set (members s r)"
      using inv q(2) roomsD(2) [of s q r] by (simp add: winv_def)
    then show ?thesis using two_members [OF inv c k] q(1) by auto
  qed
  have "m = n" using q(4) n by simp
  let ?l = "log_it e ?s1" let ?D = "dissolved r (part_room c r ?l)"
  have linv: "winv {} ?l" "room_of ?l c = Some r" using inv1 c by simp_all
  note d = dissolved_part [OF linv]
  have bn: "sv_by_name ?D = sv_by_name ?s1" by (subst d(3)) simp
  have cl: "out_of ?D j = out_of s j" for j by (auto simp: d(1) out_of_def)
  have "healthy ?D k (length (peer_left_frame i m) + 0)"
    using h k q(5) by (simp add: healthy_def d(1) peer_left_frame_def length_name8 valid_name_def)
  then obtain t where t: "send k (peer_left_frame i m) ?D = (t, None)"
      "wrote (\<lambda>j. if j = k then peer_left_frame i m else []) ?D t" "healthy t k 0"
      "\<forall>j. j \<noteq> k \<longrightarrow> sv_cl t j = sv_cl ?D j"
    by (rule send_healthy)
  have "room_of ?D k = None" using k by (simp add: d(1))
  then have "x = t"
    using t(1) q(7) \<open>q = k\<close> send_solo_eq [of ?D k "Suc 0" "peer_left_frame i m"]
    by (simp add: send_def drop_client_fuel del: drop_fuel.simps)
  let ?t = "lobby_update (log_it (LBackToLobby (client_repr t k)) t)"
  have eq: "drop_client c why s = (?t, None)"
    using q(8) [of 0] \<open>x = t\<close> \<open>q = k\<close> by (simp only: drop_client_fuel)
  have "winv {} ?t" using keepsD [OF drop_client_keeps inv, of c why] by (simp add: eq good_pair)
  moreover have "out_of ?t j = out_of s j @ (if j = k then enframe T_PEER_LEFT (word_of_nat i # name8 n) else [])" for j
    using wroteD(1) [OF t(2), of j] cl \<open>m = n\<close> by (simp add: peer_left_frame_def)
  moreover have "members ?t r = []" using wroteD(5) [OF t(2)] by (simp add: d(2))
  moreover have "room_of ?t c = None" "room_of ?t k = None"
    using wroteD(3) [OF t(2)] c k by (simp_all add: d(1))
  moreover have "dead ?t c" using wroteD(4) [OF t(2)] c by (simp add: d(1))
  moreover have "\<not> dead ?t k" using t(3) by (simp add: healthy_def)
  moreover have "c \<notin> set (dict_values (sv_by_name ?t))"
    using wroteD(6) [OF t(2)] drop_unhook_by_name [of s c why] inv
    by (auto simp: bn winv_def dict_values_def)
  ultimately show ?thesis using eq q(3,6) by (auto simp: MAX_SEATS_def)
qed

theorem drop_ends_match_witness:
  "\<exists>t i. drop_client 1 Bye demo_match = (t, None) \<and> winv {} t \<and>
    i < 2 \<and> members demo_match 0 ! i = 1 \<and>
    (\<forall>j. out_of t j = out_of demo_match j @
       (if j = 0 then enframe T_PEER_LEFT (word_of_nat i # name8 name_BB) else [])) \<and>
    members t 0 = [] \<and> room_of t 1 = None \<and> room_of t 0 = None \<and>
    dead t 1 \<and> \<not> dead t 0 \<and> 1 \<notin> set (dict_values (sv_by_name t))"
  by (rule drop_ends_match [of demo_match 1 0 0 name_BB Bye])
    (simp_all add: demo_invs, simp_all add: demo_eval)

text \<open>C7. GO from the host of a room of two that has not started, both of whose sockets do not
  fail and have room for the frame in their transmit buffers, starts the match: both players
  are sent one START frame of the same seed, in \<open>1..65535\<close>, the same delay and the same
  roster, with their own seat; nobody else is sent anything and the CRC table is empty.\<close>

theorem go_starts_match:
  assumes inv: "winv {} s" and m: "members s r = [c, k]" and off: "\<not> rm_started (sv_rm s r)"
    and h: "healthy s c 39" "healthy s k 39"
  shows "\<exists>t seed. handle c T_GO [] s = (t, None) \<and> winv {} t \<and>
    1 \<le> seed \<and> seed < 65536 \<and> rm_seed (sv_rm t r) = seed \<and>
    rm_started (sv_rm t r) \<and> rm_crc (sv_rm t r) = [] \<and> members t r = [c, k] \<and>
    (\<forall>j. out_of t j = out_of s j @
       (if j = c \<or> j = k
        then enframe T_START ((if j = c then 0 else 1) # 2 # word_of_nat (lo8 seed) #
               word_of_nat (hi8 seed) # word_of_int (sv_delay s) #
               name8 (the (name_of s c)) @ name8 (the (name_of s k)) @ replicate 16 0)
        else []))"
proof -
  have rs: "rooms_ok s" using inv by (simp add: winv_def)
  have c: "room_of s c = Some r" using roomsD(2) [OF rs, of c r] m by simp
  have ck: "c \<noteq> k" using roomsD(1) [OF rs, of r] m by simp
  have r: "r < sv_next_rm s" by (rule occupied_allocated [OF inv c])
  have go: "handle c T_GO [] s = start_room r s"
    using c off m by (simp add: handle_def RELAY_TYPES_def T_defs on_go_def seat_def MAX_SEATS_def)
  obtain t where t: "snd (start_room r s) = None"
      "fst (start_room r s) = lobby_update (log_it (LMatch (room_repr t r) 2 (rm_seed (sv_rm t r))) t)"
      "wrote (\<lambda>j. if j = c then enframe T_START (0 # start_common r (begin_match r s))
             else if j = k then enframe T_START (1 # start_common r (begin_match r s)) else [])
       (begin_match r s) t"
    by (rule start_room_two [OF inv m ck r h])
  let ?t = "fst (start_room r s)" and ?seed = "randrange (sv_rng s (sv_rng_pos s))"
  have ros: "roster_bytes (begin_match r s) r =
      name8 (the (name_of s c)) @ name8 (the (name_of s k)) @ replicate 16 0"
    using m by (simp add: roster_two [of _ _ c k])
  have "out_of ?t j = out_of s j @
       (if j = c \<or> j = k
        then enframe T_START ((if j = c then 0 else 1) # 2 # word_of_nat (lo8 ?seed) #
               word_of_nat (hi8 ?seed) # word_of_int (sv_delay s) #
               name8 (the (name_of s c)) @ name8 (the (name_of s k)) @ replicate 16 0)
        else [])" for j
    using wroteD(1) [OF t(3), of j] ck by (simp add: t(2) start_common_def ros m)
  moreover have "sv_rm ?t = sv_rm (begin_match r s)" using wroteD(5) [OF t(3)] by (simp add: t(2))
  moreover have "rm_crc (sv_rm (begin_match r s) r) = []" by (simp add: begin_match_def store_simps)
  moreover have "winv {} ?t" using start_room_tame [OF inv r] by simp
  moreover have "start_room r s = (?t, None)" using t(1) by (simp add: prod_eq_iff)
  ultimately show ?thesis
    using go m randrange_bounds [of "sv_rng s (sv_rng_pos s)"]
    by (intro exI [of _ ?t] exI [of _ ?seed]) simp
qed

theorem go_starts_match_witness:
  "\<exists>t seed. handle 0 T_GO [] demo_room = (t, None) \<and> winv {} t \<and>
    1 \<le> seed \<and> seed < 65536 \<and> rm_seed (sv_rm t 0) = seed \<and>
    rm_started (sv_rm t 0) \<and> rm_crc (sv_rm t 0) = [] \<and> members t 0 = [0, 1] \<and>
    (\<forall>j. out_of t j = out_of demo_room j @
       (if j = 0 \<or> j = 1
        then enframe T_START ((if j = 0 then 0 else 1) # 2 # word_of_nat (lo8 seed) #
               word_of_nat (hi8 seed) # word_of_int (sv_delay demo_room) #
               name8 (the (name_of demo_room 0)) @ name8 (the (name_of demo_room 1)) @ replicate 16 0)
        else []))"
  by (rule go_starts_match [of demo_room 0 0 1]) (simp_all add: demo_invs, simp_all add: demo_eval)

text \<open>C15. JOIN of a named client on another one, both alone, makes a forming room of the two
  with the target as host, on a server without \<^verbatim>\<open>--auto-go\<close> and when the sockets of both do
  not fail and have room in their transmit buffers; both are sent one ROOM frame with count 2
  and the roster in seat order, and nobody else is sent anything. (With \<^verbatim>\<open>--auto-go 2\<close> the
  room starts at once.)\<close>

theorem join_makes_room:
  assumes inv: "winv {} s" and c: "name_of s c = Some n" "room_of s c = None"
    and k: "dict_get (sv_by_name s) (name_of_payload payload) = Some k" "k \<noteq> c" "room_of s k = None"
    and h: "healthy s c 35" "healthy s k 35" and auto: "sv_auto_go s = 0"
  shows "\<exists>t r. handle c T_JOIN payload s = (t, None) \<and> winv {} t \<and>
    members t r = [k, c] \<and> room_of t c = Some r \<and> room_of t k = Some r \<and>
    \<not> rm_started (sv_rm t r) \<and> sv_by_name t = sv_by_name s \<and>
    (\<forall>j. out_of t j = out_of s j @
       (if j = c \<or> j = k
        then enframe T_ROOM (2 # name8 (name_of_payload payload) @ name8 n @ replicate 16 0)
        else []))"
proof -
  have bn: "by_name_ok s" and al: "allocated c s"
    using inv alive_is_allocated [OF inv, of c] h(1) by (simp_all add: winv_def healthy_def)
  have kn: "name_of s k = Some (name_of_payload payload)"
    using by_name_okD(2) [OF bn] dict_get_in [OF by_name_okD(1) [OF bn]] k(1) by blast
  obtain r s1 where st: "target_room k s = (r, s1)" by fastforce
  let ?u = "enter_room c r s1"
  note f = enter_room_fields [where c = c, OF st k(3) refl]
  have inv1: "winv {} ?u"
    by (rule join_solo_inv [OF inv al _ c(2) k(2) _ k(3) st]) (simp_all add: c kn)
  obtain t where t: "announce r ?u = (lobby_update t, None)"
      "wrote (\<lambda>j. if j = k \<or> j = c then enframe T_ROOM (2 # roster_bytes ?u r) else []) ?u t"
    by (rule announce_two [OF inv1 f(2) k(2)]) (use h auto in \<open>simp_all only: f(7,9)\<close>)
  have "joinable s c k" using k kn by (simp add: joinable_def)
  then have eq: "handle c T_JOIN payload s = (lobby_update t, None)"
    using c k(1) t(1) st by (simp add: handle_def RELAY_TYPES_def T_defs on_join_eq)
  have "tame_for c (on_join c payload)" by (rule on_join_tame)
  then have "winv {} (lobby_update t)"
    using inv al eq by (auto simp: tame_for_def handle_def RELAY_TYPES_def T_defs)
  moreover have "roster_bytes ?u r = name8 (name_of_payload payload) @ name8 n @ replicate 16 0"
    using f(2) by (simp add: roster_two [of _ _ k c] f(5) kn c)
  then have "out_of (lobby_update t) j = out_of s j @
       (if j = c \<or> j = k
        then enframe T_ROOM (2 # name8 (name_of_payload payload) @ name8 n @ replicate 16 0)
        else [])" for j
    using wroteD(1) [OF t(2), of j] by (auto simp: f(4))
  ultimately show ?thesis
    using eq wroteD(3,5,6) [OF t(2)] by (intro exI [of _ "lobby_update t"] exI [of _ r]) (simp add: f(2,3,6,8))
qed

theorem join_makes_room_witness:
  "\<exists>t r. handle 1 T_JOIN [65, 65, 0, 0, 0, 0, 0, 0] demo_lobby = (t, None) \<and> winv {} t \<and>
    members t r = [0, 1] \<and> room_of t 1 = Some r \<and> room_of t 0 = Some r \<and>
    \<not> rm_started (sv_rm t r) \<and> sv_by_name t = sv_by_name demo_lobby \<and>
    (\<forall>j. out_of t j = out_of demo_lobby j @
       (if j = 1 \<or> j = 0
        then enframe T_ROOM (2 # name8 (name_of_payload [65, 65, 0, 0, 0, 0, 0, 0]) @ name8 name_BB @
               replicate 16 0)
        else []))"
  by (rule join_makes_room [of demo_lobby 1 name_BB "[65, 65, 0, 0, 0, 0, 0, 0]" 0])
    (simp_all add: demo_invs, simp_all add: demo_eval name_of_payload_def decode_ascii_def rstrip_def
      dict_get_def name_AA_def)

text \<open>Relay frames outside a running match are dropped without any effect.\<close>

theorem relay_needs_match:
  assumes "ftype \<in> set RELAY_TYPES" and "\<And>r. room_of s c = Some r \<Longrightarrow> \<not> rm_started (sv_rm s r)"
  shows "handle c ftype payload s = (s, None)"
  using assms by (simp add: handle_def relay_frame_def split: option.split)

theorem relay_needs_match_witness: "handle 0 T_STATE [1] demo_room = (demo_room, None)"
  by (rule relay_needs_match) (auto simp: demo_eval)

text \<open>C23. GO has an effect exactly when it comes from the host of a full room that has not
  started.\<close>

theorem go_authority:
  assumes inv: "winv {} s"
  shows "handle c T_GO payload s \<noteq> (s, None) \<longleftrightarrow>
    (\<exists>r k. room_of s c = Some r \<and> members s r = [c, k] \<and> \<not> rm_started (sv_rm s r))"
proof -
  have go: "handle c T_GO payload s = on_go c s"
    by (simp add: handle_def RELAY_TYPES_def T_defs)
  show ?thesis
  proof (cases "room_of s c")
    case None
    then show ?thesis by (simp add: go on_go_def)
  next
    case (Some r)
    obtain k where k: "k \<noteq> c" "room_of s k = Some r"
      using other_member [OF inv Some] by metis
    note r = occupied_allocated [OF inv Some]
    obtain t e where t: "start_room r s = (t, e)" by fastforce
    have "sv_rng_pos t = Suc (sv_rng_pos s)"
      using start_room_good [OF inv r] t by (simp add: good_def later_def begin_match_def store_simps)
    then have "start_room r s \<noteq> (s, None)" using t by auto
    then show ?thesis
      using two_members [OF inv Some k(2,1)] k(1) Some
      by (auto simp: go on_go_def seat_def skip_def MAX_SEATS_def)
  qed
qed

theorem go_authority_witness:
  "(handle 1 T_GO [] demo_room \<noteq> (demo_room, None)) =
    (\<exists>r k. room_of demo_room 1 = Some r \<and> members demo_room r = [1, k] \<and> \<not> rm_started (sv_rm demo_room r))"
  by (rule go_authority) (rule demo_invs)

section \<open>Names\<close>

text \<open>C8. An accepted HELLO gives the client the name and makes it its only living holder:
  whoever held it is dropped, the table maps it to the client, and the client's earlier
  name is gone from the table.\<close>

theorem hello_registers:
  assumes inv: "winv {} s" and alive: "\<not> dead s c"
    and p: "3 \<le> length payload" "unat (payload ! 0) = PROTO_VER"
    and n: "name_of_payload (tl payload) = n" "valid_name n"
    and t: "handle c T_HELLO payload s = (t, e)" "\<not> dead t c"
  shows "e = None \<and> winv {} t \<and> name_of t c = Some n \<and> dict_get (sv_by_name t) n = Some c \<and>
    (\<forall>k m. dict_get (sv_by_name t) m = Some k \<longrightarrow> (k = c) = (m = n)) \<and>
    (\<forall>k. k \<noteq> c \<and> dict_get (sv_by_name s) n = Some k \<longrightarrow> dead t k)"
proof -
  have al: "allocated c s" by (rule alive_is_allocated [OF inv alive])
  obtain u v where u: "evict_name c n s = (u, None)" "winv {} u" "later s u"
    "winv {} (set_name c n u)"
    "seq (evict_name c n) (seq (update (set_name c n)) (on_list c)) s = (v, None)"
    "on_list c (set_name c n u) = (v, None)" "winv {} v" "later (set_name c n u) v"
    by (rule hello_accept [OF inv al n(2)])
  have tv: "t = v" "e = None"
    using t(1) p n u(5) by (simp_all add: handle_def RELAY_TYPES_def T_defs on_hello_eq)
  have nm: "name_of t c = Some n"
    using laterD(2) [OF u(8), of c] tv
    by (auto simp: set_name_def Let_def store_simps split: option.splits)
  have bn: "by_name_ok t" using u(7) tv by (simp add: winv_def)
  note get = dict_get_in [OF by_name_okD(1) [OF bn]]
  have c: "dict_get (sv_by_name t) n = Some c"
    using by_name_okD(3) [OF bn t(2) nm] get by simp
  have "(k = c) = (m = n)" if "dict_get (sv_by_name t) m = Some k" for k m
    using that by_name_okD(2) [OF bn] get nm c by (metis option.inject)
  moreover have "dead t k" if "k \<noteq> c" "dict_get (sv_by_name s) n = Some k" for k
  proof -
    have "dead u k"
      using u(1) that drop_client_kills [OF inv, of k Replaced] by (simp add: evict_name_def)
    then have "dead (set_name c n u) k"
      by (auto simp: set_name_def Let_def store_simps split: option.splits)
    then show ?thesis using laterD(1) [OF u(8), of k] tv by simp
  qed
  ultimately show ?thesis using tv u(7) nm c by blast
qed

theorem hello_registers_witness:
  "\<exists>t e. handle 2 T_HELLO [2, 67, 67] demo_lobby = (t, e) \<and> e = None \<and> winv {} t \<and>
    name_of t 2 = Some [67, 67] \<and> dict_get (sv_by_name t) [67, 67] = Some 2 \<and>
    (\<forall>k m. dict_get (sv_by_name t) m = Some k \<longrightarrow> (k = 2) = (m = [67, 67])) \<and>
    (\<forall>k. k \<noteq> 2 \<and> dict_get (sv_by_name demo_lobby) [67, 67] = Some k \<longrightarrow> dead t k)"
proof -
  let ?n = "[67, 67] :: pystr"
  have n: "name_of_payload (tl [2, 67, 67]) = ?n" "valid_name ?n"
    by (simp_all add: name_of_payload_def decode_ascii_def rstrip_def valid_name_def NAME_CHARS_def str_of_def)
  let ?u = "set_name 2 ?n demo_lobby"
  have ev: "evict_name 2 ?n demo_lobby = (demo_lobby, None)"
    by (simp add: evict_name_def demo_eval dict_get_def name_AA_def name_BB_def skip_def)
  have inv: "winv {} ?u"
  proof (rule set_name_inv [OF demo_invs(1) n(2)])
    show "k = 2" if "\<not> dead demo_lobby k" "name_of demo_lobby k = Some ?n" for k
      using that by (cases k rule: cid_cases) (simp_all add: demo_defs no_client_def name_AA_def name_BB_def)
  qed (simp add: demo_defs)
  have u: "sv_cl ?u 2 = (client_init (2, 2000) 0 [])\<lparr>cl_name := Some ?n\<rparr>"
    by (simp add: set_name_def store_simps demo_defs Let_def)
  have "healthy ?u 2 (length (enframe T_LOBBY (lobby_payload ?u 2)) + 0)"
    using length_lobby_payload [OF inv, of 2] length_listed [of ?u 2]
    by (simp add: healthy_def u MAX_TX_BACKLOG_def)
  then obtain t where t: "send 2 (enframe T_LOBBY (lobby_payload ?u 2)) ?u = (t, None)" "healthy t 2 0"
    by (rule send_healthy)
  have "length (lobby_payload ?u 2) \<le> 254"
    using length_lobby_payload [OF inv, of 2] length_listed [of ?u 2] by simp
  then have "on_list 2 ?u = (t, None)"
    using t(1) by (simp add: on_list_eq [OF inv] send_frame_def send_frame_with_def frame_enframe send_def)
  then have eq: "handle 2 T_HELLO [2, 67, 67] demo_lobby = (t, None)"
    using n ev by (simp add: handle_def RELAY_TYPES_def T_defs on_hello_eq PROTO_VER_def seq_def update_def)
  have alive: "\<not> dead t 2" using t(2) by (simp add: healthy_def)
  have "unat ([2, 67, 67 :: byte] ! 0) = PROTO_VER" by (simp add: PROTO_VER_def)
  from hello_registers [OF demo_invs(1) _ _ this n eq alive] show ?thesis
    using eq by (simp add: demo_defs)
qed

text \<open>C25. HELLO is accepted exactly when it has at least three bytes, carries protocol
  version 2 and a name of two to eight upper-case letters and digits; a refused HELLO
  raises \<open>ProtocolError\<close> before it changes anything.\<close>

theorem hello_verdict:
  assumes inv: "winv {} s" and al: "allocated c s"
  shows "(snd (on_hello c payload s) = None \<longleftrightarrow>
      3 \<le> length payload \<and> unat (payload ! 0) = 2 \<and> valid_name (name_of_payload (tl payload))) \<and>
    (snd (on_hello c payload s) \<noteq> None \<longrightarrow>
      (\<exists>e. on_hello c payload s = (s, Some (ProtocolError e))))"
proof (cases "3 \<le> length payload \<and> unat (payload ! 0) = 2 \<and> valid_name (name_of_payload (tl payload))")
  case True
  let ?n = "name_of_payload (tl payload)"
  obtain v where "seq (evict_name c ?n) (seq (update (set_name c ?n)) (on_list c)) s = (v, None)"
    using hello_accept [OF inv al, of ?n] True by blast
  with True show ?thesis by (simp add: on_hello_eq PROTO_VER_def)
next
  case False
  then show ?thesis by (auto simp: on_hello_eq PROTO_VER_def)
qed

theorem hello_verdict_witness:
  "snd (on_hello 2 [2, 67, 67] demo_lobby) = None \<and>
   (\<exists>e. on_hello 2 [1, 67, 67] demo_lobby = (demo_lobby, Some (ProtocolError e)))"
proof -
  have al: "allocated 2 demo_lobby" by (simp add: allocated_def demo_defs)
  have "valid_name (name_of_payload (tl [2, 67, 67]))"
    by (simp add: name_of_payload_def decode_ascii_def rstrip_def valid_name_def NAME_CHARS_def str_of_def)
  then show ?thesis
    using hello_verdict [OF demo_invs(1) al, of "[2, 67, 67]"]
      hello_verdict [OF demo_invs(1) al, of "[1, 67, 67]"] by simp
qed

text \<open>A name that passes the check survives the wire: padded to eight bytes with NULs
  and decoded by the receiver it is the same name.\<close>

theorem name_roundtrip:
  assumes "valid_name n"
  shows "\<exists>bs. pad_name (Some n) = Inr bs \<and> length bs = 8 \<and> name_of_payload bs = n"
  using assms name_of_payload_name8 [OF assms]
  by (simp add: pad_name_valid length_name8 valid_name_def)

theorem name_roundtrip_witness:
  "\<exists>bs. pad_name (Some name_AA) = Inr bs \<and> length bs = 8 \<and> name_of_payload bs = name_AA"
  by (rule name_roundtrip) simp

lemma rename_keys:
  assumes c: "name_of s c = Some old" "dict_get (sv_by_name s) old = Some c"
    and free: "dict_get (sv_by_name s) n = None"
  shows "dict_keys (sv_by_name (set_name c n s)) = filter (\<lambda>m. m \<noteq> old) (dict_keys (sv_by_name s)) @ [n]"
proof -
  have "old \<noteq> n" using c free by auto
  then have "sv_by_name (set_name c n s) = dict_set (dict_del (sv_by_name s) old) n c"
    using c by (simp add: set_name_def Let_def store_simps)
  then show ?thesis using pydict.keys_rename [OF free, of old c] by simp
qed

text \<open>C14. A client that says HELLO again with another valid name, one that nobody holds, moves to
  the end of the name table, and with it to the end of everyone's lobby list: the old name is
  taken out and the new one appended. Its socket does not fail and its transmit buffer has
  room for the listing that HELLO is answered with.\<close>

theorem rename_moves_to_end:
  assumes inv: "winv {} s" and h: "healthy s c 75" and c: "name_of s c = Some old"
    and p: "3 \<le> length payload" "unat (payload ! 0) = PROTO_VER"
    and n: "name_of_payload (tl payload) = n" "valid_name n" and free: "dict_get (sv_by_name s) n = None"
  shows "\<exists>t. handle c T_HELLO payload s = (t, None) \<and> name_of t c = Some n \<and>
    dict_keys (sv_by_name t) = filter (\<lambda>m. m \<noteq> old) (dict_keys (sv_by_name s)) @ [n]"
proof -
  let ?u = "set_name c n s"
  have alive: "\<not> dead s c" using h by (simp add: healthy_def)
  have bn: "by_name_ok s" using inv by (simp add: winv_def)
  note get = dict_get_in [OF by_name_okD(1) [OF bn]]
  have old: "dict_get (sv_by_name s) old = Some c" using by_name_okD(3) [OF bn alive c] get by simp
  have al: "c < sv_next_cl s" using alive_is_allocated [OF inv alive] by (simp add: allocated_def)
  have "k = c" if "\<not> dead s k" "name_of s k = Some n" for k
    using by_name_okD(3) [OF bn that] get [of n k] free by simp
  then have inv_u: "winv {} ?u" by (intro set_name_inv [OF inv n(2) al])
  have "healthy ?u c 75"
    using h by (auto simp: healthy_def set_name_def Let_def store_simps split: option.split)
  then obtain t where t: "handle c T_LIST [] ?u = (t, None)"
      "wrote (\<lambda>k. if k = c then enframe T_LOBBY (lobby_payload ?u c) else []) ?u t"
    using list_sends [OF inv_u] by blast
  have "evict_name c n s = (s, None)" using free by (simp add: evict_name_def skip_def)
  moreover have "on_list c ?u = (t, None)" using t(1) by (simp add: handle_def RELAY_TYPES_def T_defs)
  ultimately have "handle c T_HELLO payload s = (t, None)"
    using p n by (simp add: handle_def RELAY_TYPES_def T_defs on_hello_eq seq_def update_def)
  moreover have "sv_by_name t = sv_by_name ?u" using wroteD(6) [OF t(2)] by simp
  moreover have "name_of t c = Some n"
    using wroteD(2) [OF t(2), of c] by (simp add: set_name_def Let_def store_simps split: option.split)
  ultimately show ?thesis using rename_keys [OF c old free] by simp
qed

theorem rename_moves_to_end_witness:
  "\<exists>t. handle 0 T_HELLO [2, 67, 67] demo_lobby = (t, None) \<and> name_of t 0 = Some [67, 67] \<and>
     dict_keys (sv_by_name demo_lobby) = [name_AA, name_BB] \<and>
     dict_keys (sv_by_name t) = [name_BB, [67, 67]]"
proof -
  let ?n = "[67, 67] :: pystr"
  have n: "name_of_payload (tl [2, 67, 67]) = ?n" "valid_name ?n"
    by (simp_all add: name_of_payload_def decode_ascii_def rstrip_def valid_name_def NAME_CHARS_def str_of_def)
  have "healthy demo_lobby 0 75" "name_of demo_lobby 0 = Some name_AA"
      "3 \<le> length [2, 67, 67 :: byte]" "unat ([2, 67, 67 :: byte] ! 0) = PROTO_VER"
      "dict_get (sv_by_name demo_lobby) ?n = None"
    by (simp_all add: demo_eval PROTO_VER_def dict_get_def name_AA_def name_BB_def)
  from rename_moves_to_end [OF demo_invs(1) this(1-4) n this(5)] show ?thesis
    by (simp add: demo_defs dict_keys_def demo_valid(3) [THEN not_sym])
qed

lemma evict_failing:
  "\<exists>u. evict_name 1 name_AA demo_failing = (u, None) \<and> dead u 1 \<and> sv_clients u = [2] \<and>
    sv_by_name u = [] \<and> name_of u 1 = Some name_BB"
  by (simp add: evict_name_def demo_failing_def dict_get_def drop_client_fuel drop_body_def Let_def
     drop_unhook_def store_simps seat_def seq_def update_def bytes_of_def pad_name_def name_AA_def
     name_BB_def stale_names_def dict_del_def lobby_update_def dissolve_with_def encode_ascii_def
     frame_def ljust8_def send_with_def flush_with_def MAX_TX_BACKLOG_def skip_def cong: if_cong)

text \<open>C27. A HELLO can register a dead client: in a match of \<open>AA\<close> and \<open>BB\<close>, \<open>BB\<close>
  takes the name \<open>AA\<close>; dropping \<open>AA\<close> ends the match and sends PEER_LEFT to
  \<open>BB\<close>, whose socket fails, so \<open>BB\<close> is dropped inside its own HELLO; the handler
  goes on and enters the closed connection in the name table.\<close>

theorem hello_registers_ghost:
  "\<exists>t. winv {} demo_failing \<and> \<not> dead demo_failing 1 \<and>
     handle 1 T_HELLO [2, 65, 65] demo_failing = (t, None) \<and>
     dead t 1 \<and> 1 \<notin> set (sv_clients t) \<and> dict_get (sv_by_name t) name_AA = Some 1"
proof -
  obtain u where u: "evict_name 1 name_AA demo_failing = (u, None)" "dead u 1" "sv_clients u = [2]"
      "sv_by_name u = []" "name_of u 1 = Some name_BB"
    using evict_failing by blast
  let ?v = "set_name 1 name_AA u"
  have v: "dead ?v 1" "sv_clients ?v = [2]" "sv_by_name ?v = [(name_AA, 1)]"
    using u by (simp_all add: set_name_def Let_def store_simps dict_get_def)
  then have "on_list 1 ?v = (?v, None)"
    by (simp add: on_list_def listed_def dict_values_def bytes_of_def send_frame_def
        send_frame_with_def frame_enframe send_with_def)
  moreover have "name_of_payload [65, 65] = name_AA"
    by (simp add: name_of_payload_def decode_ascii_def rstrip_def name_AA_def)
  ultimately have "handle 1 T_HELLO [2, 65, 65] demo_failing = (?v, None)"
    using u(1) by (simp add: handle_def RELAY_TYPES_def T_defs on_hello_eq PROTO_VER_def seq_def update_def)
  then show ?thesis
    using v demo_invs(4) by (simp add: demo_failing_def dict_get_def)
qed

section \<open>The lobby list\<close>

text \<open>The answer to LIST, when the client's socket does not fail and its buffer has room, is
  one LOBBY frame to the client that asked: the count of at most eight others, then nine
  bytes for each, name and status.\<close>

theorem list_reply:
  assumes inv: "winv {} s" and h: "healthy s c 75"
  shows "\<exists>t. handle c T_LIST payload s = (t, None) \<and>
    wrote (\<lambda>k. if k = c then enframe T_LOBBY (word_of_nat (length (listed s c)) #
        concat (map (\<lambda>k. name8 (the (name_of s k)) @ [word_of_nat (status s k)]) (listed s c)))
      else []) s t \<and>
    length (listed s c) \<le> 8 \<and> c \<notin> set (listed s c) \<and>
    (\<forall>k \<in> set (listed s c). \<exists>n. name_of s k = Some n \<and> valid_name n \<and> dict_get (sv_by_name s) n = Some k)"
proof -
  obtain t where t: "handle c T_LIST payload s = (t, None)"
      "wrote (\<lambda>k. if k = c then enframe T_LOBBY (lobby_payload s c) else []) s t"
    using list_sends [OF inv h] by blast
  have bn: "by_name_ok s" using inv by (simp add: winv_def)
  have "\<exists>n. name_of s k = Some n \<and> valid_name n \<and> dict_get (sv_by_name s) n = Some k"
    if "k \<in> set (listed s c)" for k
  proof -
    have "k \<in> set (dict_values (sv_by_name s))"
      using that by (auto simp: listed_def dest: in_set_takeD)
    then obtain n where n: "(n, k) \<in> set (sv_by_name s)" by (auto simp: dict_values_def)
    then have "name_of s k = Some n" by (rule by_name_okD(2) [OF bn])
    then show ?thesis
      using n inv dict_get_in [OF by_name_okD(1) [OF bn]] by (auto simp: winv_def names_ok_def)
  qed
  moreover have "c \<notin> set (listed s c)" by (auto simp: listed_def dest: in_set_takeD)
  ultimately show ?thesis
    using t length_listed [of s c] unfolding lobby_payload_def by blast
qed

theorem list_reply_witness:
  "\<exists>t. handle 2 T_LIST [] demo_room = (t, None) \<and>
    wrote (\<lambda>k. if k = 2 then enframe T_LOBBY (word_of_nat (length (listed demo_room 2)) #
        concat (map (\<lambda>k. name8 (the (name_of demo_room k)) @ [word_of_nat (status demo_room k)]) (listed demo_room 2)))
      else []) demo_room t \<and>
    length (listed demo_room 2) \<le> 8 \<and> 2 \<notin> set (listed demo_room 2) \<and>
    (\<forall>k \<in> set (listed demo_room 2). \<exists>n. name_of demo_room k = Some n \<and> valid_name n \<and>
       dict_get (sv_by_name demo_room) n = Some k)"
  by (rule list_reply) (rule demo_invs, simp add: demo_eval)

text \<open>C24. The status byte tells the truth about JOIN: bit 7 is clear exactly for the
  clients a JOIN from another client would be accepted on, and the low bits are the
  number of members: one for a client on its own, two in a room.\<close>

theorem status_bit_joinable:
  assumes inv: "winv {} s" and k: "k \<noteq> c" "name_of s k \<noteq> None"
  shows "(joinable s c k \<longleftrightarrow> status s k AND 0x80 = 0) \<and>
    status s k AND 7 = (case room_of s k of None \<Rightarrow> 1 | Some r \<Rightarrow> length (members s r))"
proof (cases "room_of s k")
  case None
  with k show ?thesis by (simp add: joinable_def status_def)
next
  case (Some r)
  have rs: "rooms_ok s" using inv by (simp add: winv_def)
  have "k \<in> set (members s r)" using roomsD(2) [OF rs] Some by simp
  then have "length (members s r) = 2" using roomsD(1) [OF rs, of r] by auto
  with Some show ?thesis by (simp add: joinable_def status_def MAX_SEATS_def)
qed

theorem status_bit_joinable_witness:
  "(joinable demo_room 2 1 \<longleftrightarrow> status demo_room 1 AND 0x80 = 0) \<and>
    status demo_room 1 AND 7 = (case room_of demo_room 1 of None \<Rightarrow> 1 | Some r \<Rightarrow> length (members demo_room r))"
  by (rule status_bit_joinable) (rule demo_invs, simp_all add: demo_defs)

end
