(* ===== verification/ServiceProps.thy ===== *)
theory ServiceProps
  imports Scenario
begin

text \<open>
  Properties of the machinery under the handlers: the read path, \<open>drop\<close>, the CRC
  table, the sweep and the connection limits, each with a concrete instance.
\<close>

section \<open>The read path\<close>

text \<open>C4. The loop of \<open>service\<close> refines the frame-by-frame specification: it hands the
  frames of the buffer, in order and each exactly once, to \<open>handle\<close> until one of them
  drops the client or the buffer ends in an incomplete frame or an invalid length.\<close>

theorem service_loop_refines:
  "without_rx (service_loop c rx s) = serve_frames c (fst (deframe rx)) (snd (deframe rx)) s"
  by (rule service_loop_frames)

text \<open>Serving a client that has sent data: the buffer and the server after the read loop.\<close>

lemma serve_data:
  assumes "winv {} (rl_server u)" and "\<not> dead (rl_server u) c" and "d \<noteq> []"
  shows "serve c False (Some (RecvData d)) u =
      (case service_loop c (rl_rx u c @ d) (rl_server u) of
         (v, rx, g) \<Rightarrow> (u\<lparr>rl_server := v, rl_rx := (rl_rx u)(c := rx)\<rparr>, g))"
  using assms by (simp add: serve_eq_body serve_body_def seq_def service_def)

text \<open>C5. Fragmentation is invisible: receiving the bytes \<open>a @ b\<close> at once or in two
  reads leads to the same server, the same outcome and, while the client is still there,
  the same receive buffers.\<close>

theorem fragmentation_invisible:
  assumes inv: "winv {} (rl_server x)" and ne: "a \<noteq> []" "b \<noteq> []"
    and one: "serve c False (Some (RecvData (a @ b))) x = (y, e)"
    and two: "seq (serve c False (Some (RecvData a))) (serve c False (Some (RecvData b))) x = (z, e')"
  shows "rl_server z = rl_server y \<and> e' = e \<and> (\<not> dead (rl_server y) c \<longrightarrow> rl_rx z = rl_rx y)"
proof (cases "dead (rl_server x) c")
  case True
  then have "serve c False r x = (x, None)" for r
    by (simp add: serve_def serve_body_def seq_def split: option.split)
  with one two show ?thesis by (simp add: seq_def)
next
  case alive: False
  let ?s = "rl_server x" and ?r = "rl_rx x c @ a"
  have al: "allocated c ?s" by (rule alive_is_allocated [OF inv alive])
  obtain t rx f where t: "service_loop c ?r ?s = (t, rx, f)" by (metis prod_cases3)
  have snd: "sound ?s (t, f)" using service_loop_sound [OF inv al, of ?r] t by simp
  then have t_inv: "winv {} t" and f: "f = None" by (simp_all add: sound_def)
  let ?u = "x\<lparr>rl_server := t, rl_rx := (rl_rx x)(c := rx)\<rparr>"
  have first: "serve c False (Some (RecvData a)) x = (?u, None)"
    using serve_data [OF inv alive ne(1)] t f by simp
  obtain v rv g where v: "service_loop c (?r @ b) ?s = (v, rv, g)" by (metis prod_cases3)
  have y: "y = x\<lparr>rl_server := v, rl_rx := (rl_rx x)(c := rv)\<rparr>" "e = g"
    using one serve_data [OF inv alive, of "a @ b"] ne v by simp_all
  show ?thesis
  proof (cases "dead t c")
    case True
    then have "serve c False (Some (RecvData b)) ?u = (?u, None)"
      by (simp add: serve_def serve_body_def seq_def)
    then have z: "z = ?u" "e' = None" using two first by (simp_all add: seq_def)
    have "(v, g) = (t, f)"
      using service_loop_cut(1) [OF inv al alive, of ?r b] True t v by (simp add: without_rx_def)
    with True y z f show ?thesis by simp
  next
    case False
    obtain w rw h where w: "service_loop c (rx @ b) t = (w, rw, h)" by (metis prod_cases3)
    have "serve c False (Some (RecvData b)) ?u =
        (x\<lparr>rl_server := w, rl_rx := (rl_rx x)(c := rw)\<rparr>, h)"
      using serve_data [of ?u c b] t_inv False ne(2) w by simp
    then have z: "z = x\<lparr>rl_server := w, rl_rx := (rl_rx x)(c := rw)\<rparr>" "e' = h"
      using two first by (simp_all add: seq_def)
    have vw: "v = w" "g = h"
      using service_loop_cut(2) [OF inv al alive, of ?r b] False t v w by (simp_all add: without_rx_def)
    have "rv = rw" if "\<not> dead v c"
      using service_loop_cut_rx [OF inv al alive, of ?r b] False that t v w by simp
    with y z vw show ?thesis by simp
  qed
qed

theorem fragmentation_invisible_witness:
  "\<exists>y e z e'.
     serve 2 False (Some (RecvData ([4, 1] @ [2, 67]))) (relay_init demo_lobby) = (y, e) \<and>
     seq (serve 2 False (Some (RecvData [4, 1]))) (serve 2 False (Some (RecvData [2, 67])))
       (relay_init demo_lobby) = (z, e') \<and>
     rl_server z = rl_server y \<and> e' = e \<and> (\<not> dead (rl_server y) 2 \<longrightarrow> rl_rx z = rl_rx y)"
proof -
  obtain y e where y: "serve 2 False (Some (RecvData ([4, 1] @ [2, 67]))) (relay_init demo_lobby) = (y, e)"
    by fastforce
  obtain z e' where z: "seq (serve 2 False (Some (RecvData [4, 1]))) (serve 2 False (Some (RecvData [2, 67])))
       (relay_init demo_lobby) = (z, e')" by fastforce
  have "winv {} (rl_server (relay_init demo_lobby))" by (simp add: relay_init_def demo_invs)
  from fragmentation_invisible [OF this _ _ y z] y z show ?thesis by blast
qed

text \<open>The frames of a stream are recovered from the bytes, however many there are, with
  nothing left over; and an incomplete tail waits.\<close>

theorem deframe_roundtrip:
  assumes "list_all (\<lambda>f. length (snd f) \<le> 199) fs" and "length p \<le> 199"
    and "n < length (enframe t p)"
  shows "deframe (frames_out fs @ take n (enframe t p)) = (fs, Waiting (take n (enframe t p)))"
proof -
  have "deframe (take n (enframe t p)) = ([], Waiting (take n (enframe t p)))"
  proof (cases n)
    case (Suc m)
    have l: "unat (word_of_nat (Suc (length p)) :: byte) = Suc (length p)"
      by (rule byte_of_nat) (use assms(2) in simp)
    show ?thesis
      using assms(2,3) by (subst deframe.simps) (simp add: Suc enframe_def l Let_def del: of_nat_Suc)
  qed simp
  then show ?thesis
    using assms(1) deframe_frames [of fs "take n (enframe t p)"]
    by (simp add: frames_out_def list_all_iff)
qed

theorem deframe_roundtrip_witness:
  "deframe (frames_out [(T_PING, []), (T_INPUT, [1, 2])] @ take 1 (enframe T_GO [])) =
     ([(T_PING, []), (T_INPUT, [1, 2])], Waiting (take 1 (enframe T_GO [])))"
  by (rule deframe_roundtrip) simp_all

section \<open>drop\<close>

text \<open>A dropped client is in no room: telling the others does not seat it again.\<close>

lemma drop_leaves_room:
  assumes inv: "winv {} s" and alive: "\<not> dead s c"
    and t: "drop_client c why s = (t, None)" "later s t"
  shows "room_of t c = None"
proof (cases "room_of s c")
  case None
  then show ?thesis by (rule laterD(3) [OF t(2)])
next
  case (Some r)
  have inv1: "winv {} (drop_unhook c why s)"
    using drop_unhook_good [OF sending_start [OF inv alive]] by (simp add: good_pair)
  have left: "room_of (fst (send_solo k d (dissolved r (part_room c r u)), None :: exn option)) c = None"
    if "u = drop_unhook c why s \<or> (\<exists>e. u = log_it e (drop_unhook c why s))" "room_of s k = Some r" for k d u
  proof -
    have u: "winv {} u" "room_of u c = Some r" "room_of u k = Some r"
      using that inv1 Some by auto
    have "good (dissolved r (part_room c r u)) (send_with drop_client k d (dissolved r (part_room c r u)))"
      using send_keeps [of k d] dissolved_part_inv(1) [OF u(1,2)] by (simp add: keeps_def send_def)
    moreover have "send_with drop_client k d (dissolved r (part_room c r u)) =
        (send_solo k d (dissolved r (part_room c r u)), None)"
      unfolding drop_client_fuel
      by (rule send_solo_eq) (simp add: dissolved_part(1) [OF u(1,2)] u(3))
    ultimately have "later (dissolved r (part_room c r u)) (send_solo k d (dissolved r (part_room c r u)))"
      by (simp add: good_pair)
    from laterD(3) [OF this, of c] show ?thesis
      by (simp add: dissolved_part(1) [OF u(1,2)] u(2))
  qed
  show ?thesis
  proof (cases "rm_started (sv_rm s r)")
    case True
    show ?thesis
      by (rule drop_started [OF alive inv1 Some True])
        (metis drop_client_fuel fst_conv left lobby_update_fields(1) log_it_fields(1) t(1))
  next
    case False
    show ?thesis
      by (rule drop_forming [OF alive inv1 Some False])
        (metis drop_client_fuel fst_conv left lobby_update_fields(1) t(1))
  qed
qed

text \<open>C9. \<open>drop\<close> always completes: no exception, the client is gone from the clients, the
  selector and its room, the room is empty, and the recursion of \<open>drop\<close>
  through \<open>send\<close> never goes deeper than two levels, whatever the sockets do.\<close>

theorem drop_completes:
  assumes inv: "winv {} s" and alive: "\<not> dead s c"
  shows "\<exists>t. drop_client c why s = (t, None) \<and> winv {} t \<and> dead t c \<and>
    c \<notin> set (sv_clients t) \<and> sv_sel t c = None \<and> room_of t c = None \<and>
    (\<forall>r. room_of s c = Some r \<longrightarrow> members t r = []) \<and>
    (\<forall>d. drop_fuel (d + 2) c why s = (t, None))"
proof -
  obtain t where t: "drop_client c why s = (t, None)" "winv {} t" "later s t"
    using keeps_fst [OF drop_client_keeps inv] by blast
  have dead: "dead t c" using drop_client_kills [OF inv, of c why] t(1) by simp
  have "room_of t c = None" by (rule drop_leaves_room [OF inv alive t(1,3)])
  moreover have "members t r = []" if "room_of s c = Some r" for r
  proof -
    have "c \<in> set (members s r)" using inv that by (simp add: winv_def roomsD(2))
    moreover have "c \<notin> set (members t r)"
      using t(2) \<open>room_of t c = None\<close> by (simp add: winv_def roomsD(2))
    ultimately show ?thesis using laterD(4) [OF t(3), of r] by auto
  qed
  moreover have "c \<notin> set (sv_clients t)" "sv_sel t c = None"
    using t(2) dead by (simp_all add: winv_def clients_ok_def tx_ok_def)
  moreover have "drop_fuel (d + 2) c why s = (t, None)" for d
    using drop_depth_enough [OF sending_start [OF inv alive], of d why] t(1)
    by (simp add: numeral_2_eq_2)
  ultimately show ?thesis using t(1,2) dead by blast
qed

theorem drop_completes_witness:
  "\<exists>t. drop_client 0 Closed demo_failing = (t, None) \<and> winv {} t \<and> dead t 0 \<and>
    0 \<notin> set (sv_clients t) \<and> sv_sel t 0 = None \<and> room_of t 0 = None \<and>
    (\<forall>r. room_of demo_failing 0 = Some r \<longrightarrow> members t r = []) \<and>
    (\<forall>d. drop_fuel (d + 2) 0 Closed demo_failing = (t, None))"
  by (rule drop_completes) (rule demo_invs, simp add: demo_defs)

section \<open>CRC rounds\<close>

text \<open>C18. When two distinct seats of a match of two report their CRCs of a tick that is not in
  the table, one right after the other, while fewer than 64 ticks are pending (so that the
  table does not overflow and nothing is evicted), the first report waits and the second
  decides: equal CRCs count one agreed round, logged every fourth time; different ones are
  logged as a mismatch with both values in seat order. Either way the table is as it was
  before.\<close>

theorem crc_round_verdict:
  assumes two: "length (rm_members k) = 2" and fresh: "dict_get (rm_crc k) tick = None"
    and small: "length (rm_crc k) < 64" and seats: "a \<noteq> b"
    and k1: "crc_round k tick a x = (k1, e1)" and k2: "crc_round k1 tick b y = (k2, e2)"
  shows "e1 = None \<and> rm_crc k2 = rm_crc k \<and>
    rm_crc_ok k2 = (if x = y then Suc (rm_crc_ok k) else rm_crc_ok k) \<and>
    e2 = (if x \<noteq> y then Some (LCrcMismatch tick (if a < b then [(a, x), (b, y)] else [(b, y), (a, x)]))
          else if Suc (rm_crc_ok k) mod 4 = 0 then Some (LCrcOk tick (Suc (rm_crc_ok k))) else None)"
proof -
  have entry: "crc_entry k tick = []" using fresh by (simp add: crc_entry_def)
  have st: "crc_store k tick a x = k\<lparr>rm_crc := rm_crc k @ [(tick, [(a, x)])]\<rparr>"
    using small by (simp add: crc_store_def entry dict_set_new [OF fresh] crc_evict_def)
  then have one: "k1 = k\<lparr>rm_crc := rm_crc k @ [(tick, [(a, x)])]\<rparr>" "e1 = None"
    using k1 two by (simp_all add: crc_round_def entry)
  have entry1: "crc_entry k1 tick = [(a, x)]"
    by (simp add: one crc_entry_def dict_get_last [OF fresh])
  have st1: "crc_store k1 tick b y = k\<lparr>rm_crc := rm_crc k @ [(tick, [(a, x), (b, y)])]\<rparr>"
    using small seats by (simp add: crc_store_def entry1)
      (simp add: one dict_set_last [OF fresh] crc_evict_def)
  note del = dict_del_last [OF fresh]
  have "sort_key fst [(a, x), (b, y)] = (if a < b then [(a, x), (b, y)] else [(b, y), (a, x)])"
    using seats by auto
  moreover have "crc_round k1 tick b y =
      crc_verdict (k\<lparr>rm_crc := rm_crc k @ [(tick, [(a, x), (b, y)])]\<rparr>) tick [(a, x), (b, y)]"
    using seats two by (simp add: crc_round_def entry1 st1 Let_def)
  ultimately show ?thesis
    using k2 one(2)
    by (cases "x = y") (auto simp: crc_verdict_def Let_def del dict_values_def simp del: sort_key_simps)
qed

theorem crc_round_verdict_witness:
  "\<exists>k1 e1 k2 e2. crc_round ((room_init 0)\<lparr>rm_members := [0, 1], rm_crc_ok := 3\<rparr>) 128 1 7 = (k1, e1) \<and>
     crc_round k1 128 0 7 = (k2, e2) \<and>
     e1 = None \<and> rm_crc k2 = rm_crc (room_init 0) \<and> rm_crc_ok k2 = 4 \<and> e2 = Some (LCrcOk 128 4)"
proof -
  let ?k = "(room_init 0)\<lparr>rm_members := [0, 1], rm_crc_ok := 3\<rparr>"
  obtain k1 e1 where k1: "crc_round ?k 128 1 7 = (k1, e1)" by fastforce
  obtain k2 e2 where k2: "crc_round k1 128 0 7 = (k2, e2)" by fastforce
  have "length (rm_members ?k) = 2" "dict_get (rm_crc ?k) 128 = None" "length (rm_crc ?k) < 64" "1 \<noteq> (0::nat)"
    by (simp_all add: room_init_def dict_get_def)
  from crc_round_verdict [OF this k1 k2] k1 k2 show ?thesis by (simp add: room_init_def)
qed

section \<open>The sweep\<close>

lemma sweep_one_unhook:
  assumes "winv {} s" and "\<not> dead s c"
  obtains t where "sweep_one now c s = (t, None)" "winv {} t" "later s t"
    "\<And>k. sv_cl t k = (if k = c \<and> name_of s c = None \<and> now - cl_connected_at (sv_cl s c) > HELLO_TIMEOUT
       then (sv_cl s c)\<lparr>cl_dead := True\<rparr> else sv_cl s k)"
proof (cases "name_of s c = None \<and> now - cl_connected_at (sv_cl s c) > HELLO_TIMEOUT")
  case True
  let ?t = "s\<lparr>sv_stats := (sv_stats s)\<lparr>hello_timeouts := Suc (hello_timeouts (sv_stats s))\<rparr>\<rparr>"
  have "room_of s c = None" using clients_unnamed_room [OF assms(1)] True by simp
  then have eq: "sweep_one now c s = (drop_unhook c NoHello ?t, None)"
    using True assms(2) by (simp add: sweep_one_def drop_client_fuel drop_body_solo)
  have "sending c ?t" using assms by (intro sending_start) simp_all
  from drop_unhook_good [OF this, of NoHello] have "winv {} (drop_unhook c NoHello ?t)"
    by (simp add: good_pair)
  moreover have "later s (drop_unhook c NoHello ?t)"
    by (rule later_trans [OF later_stats later_drop_unhook])
  ultimately show thesis using True by (intro that [OF eq]) simp_all
next
  case False
  then show thesis using assms(1) by (intro that [of s]) (auto simp: sweep_one_def)
qed

lemma sweep_over_exact:
  "winv {} s \<Longrightarrow> distinct cs \<Longrightarrow> \<forall>c \<in> set cs. \<not> dead s c \<Longrightarrow>
   \<exists>t. sweep_over cs now s = (t, None) \<and> winv {} t \<and>
     (\<forall>k. sv_cl t k = (if k \<in> set cs \<and> name_of s k = None \<and> now - cl_connected_at (sv_cl s k) > HELLO_TIMEOUT
       then (sv_cl s k)\<lparr>cl_dead := True\<rparr> else sv_cl s k))"
proof (induction cs arbitrary: s)
  case Nil
  then show ?case by (simp add: sweep_over_def skip_def)
next
  case (Cons c cs)
  have "\<not> dead s c" using Cons.prems(3) by simp
  obtain t where t: "sweep_one now c s = (t, None)" "winv {} t" "later s t"
    "\<And>k. sv_cl t k = (if k = c \<and> name_of s c = None \<and> now - cl_connected_at (sv_cl s c) > HELLO_TIMEOUT
       then (sv_cl s c)\<lparr>cl_dead := True\<rparr> else sv_cl s k)"
    using sweep_one_unhook [OF Cons.prems(1) \<open>\<not> dead s c\<close>, of now] by blast
  have same: "sv_cl t k = sv_cl s k" if "k \<noteq> c" for k using that by (simp add: t(4))
  have "\<forall>k \<in> set cs. \<not> dead t k"
  proof
    fix k assume k: "k \<in> set cs"
    with Cons.prems(2) have "k \<noteq> c" by auto
    with k Cons.prems(3) show "\<not> dead t k" by (simp add: same)
  qed
  with Cons.IH [OF t(2)] Cons.prems(2) obtain u where u: "sweep_over cs now t = (u, None)" "winv {} u"
    "\<forall>k. sv_cl u k = (if k \<in> set cs \<and> name_of t k = None \<and> now - cl_connected_at (sv_cl t k) > HELLO_TIMEOUT
       then (sv_cl t k)\<lparr>cl_dead := True\<rparr> else sv_cl t k)"
    by auto
  have "sweep_over (c # cs) now s = (u, None)"
    using t(1) u(1) by (simp add: sweep_over_def seq_def)
  moreover have "sv_cl u k = (if k \<in> set (c # cs) \<and> name_of s k = None \<and>
      now - cl_connected_at (sv_cl s k) > HELLO_TIMEOUT
      then (sv_cl s k)\<lparr>cl_dead := True\<rparr> else sv_cl s k)" for k
  proof (cases "k = c")
    case True
    with Cons.prems(2) have "sv_cl u k = sv_cl t k" using u(3) by simp
    with True show ?thesis by (simp add: t(4))
  next
    case False
    then show ?thesis using u(3) same by simp
  qed
  ultimately show ?case using u(2) by blast
qed

text \<open>C26. A sweep drops exactly the clients that have been connected for more than a minute
  without a name; it touches no other client.\<close>

theorem sweep_exact:
  assumes "winv {} s"
  shows "\<exists>t. sweep now s = (t, None) \<and> winv {} t \<and>
    (\<forall>c. sv_cl t c =
       (if \<not> dead s c \<and> name_of s c = None \<and> now - cl_connected_at (sv_cl s c) > HELLO_TIMEOUT
        then (sv_cl s c)\<lparr>cl_dead := True\<rparr> else sv_cl s c))"
proof -
  have "distinct (sv_clients s)" "\<forall>c. c \<in> set (sv_clients s) \<longleftrightarrow> \<not> dead s c"
    using assms by (simp_all add: winv_def clients_ok_def)
  then show ?thesis using sweep_over_exact [OF assms, of "sv_clients s" now] by (simp add: sweep_def)
qed

theorem sweep_exact_witness:
  "\<exists>t. sweep 61 demo_room = (t, None) \<and> winv {} t \<and>
    (\<forall>c. sv_cl t c =
       (if \<not> dead demo_room c \<and> name_of demo_room c = None \<and>
           61 - cl_connected_at (sv_cl demo_room c) > HELLO_TIMEOUT
        then (sv_cl demo_room c)\<lparr>cl_dead := True\<rparr> else sv_cl demo_room c))"
  by (rule sweep_exact) (rule demo_invs)

end
