(* ===== verification/LobbyProps.thy ===== *)
theory LobbyProps
  imports Lobby
begin

text \<open>
  Properties of the lobby registration over every interleaving of the server thread, the
  worker and time, with concrete instances.
\<close>

definition demo_publisher :: publisher where
  "demo_publisher = publisher_init (str_of ''https://x/'') [] [] 17 (str_of ''us'') [] []"

lemma demo_publisher_fields [simp]:
  "pb_worker demo_publisher = W_Loop" "pb_closer demo_publisher = C_Running"
  "\<not> pb_dirty demo_publisher" "\<not> pb_stopping demo_publisher" "pb_clock demo_publisher = 0"
  "pb_worker_posts demo_publisher = []" "pb_final_posts demo_publisher = []"
  "\<not> pb_stop_evt demo_publisher" "pub_inv demo_publisher"
  by (simp_all add: demo_publisher_def pub_inv_init) (simp_all add: publisher_init_def)

section \<open>Updates\<close>

text \<open>Where a worker that is still running gets to without time passing for long.\<close>

definition newest :: "payload \<Rightarrow> publisher \<Rightarrow> bool" where
  "newest pl q \<longleftrightarrow> (\<exists>t ps. pb_worker_posts q = (t, pl) # ps)"

lemma post_from_loop:
  "pb_worker p = W_Loop \<Longrightarrow> pb_dirty p \<Longrightarrow> \<not> pb_stopping p \<Longrightarrow>
   \<exists>q. pub_run [LoopHead] p = Some q \<and> newest (pb_payload p) q"
  by (auto simp: worker_leave_wait_def Let_def newest_def)

lemma post_from_debounce:
  assumes "pb_worker p = W_Debounce u" "pb_dirty p" "\<not> pb_stopping p"
  shows "\<exists>q. pub_run [Elapse (max 0 (u - pb_clock p)), DebounceEnds, LoopHead] p = Some q \<and>
    newest (pb_payload p) q"
  using assms by (auto simp: worker_leave_wait_def Let_def newest_def)

text \<open>A worker that runs and has something to publish does so in at most four steps.\<close>

lemma publishes_soon:
  assumes dirty: "pb_dirty p" "\<not> pb_stopping p" and alive: "pb_worker p \<noteq> W_Raised" "pb_worker p \<noteq> W_Returned"
    and woken: "\<And>d. pb_worker p = W_Wait d \<Longrightarrow> pb_notified p"
  shows "\<exists>as q. length as \<le> 4 \<and>
    set as \<subseteq> {LoopHead, Woken, Posted PostOk, DebounceEnds} \<union> range Elapse \<and>
    pub_run as p = Some q \<and> newest (pb_payload p) q"
proof (cases "pb_worker p")
  case W_Loop
  with post_from_loop [of p] dirty show ?thesis
    by (intro exI [of _ "[LoopHead]"]) simp
next
  case (W_Wait d)
  with woken dirty show ?thesis
    by (intro exI [of _ "[Woken]"]) (simp add: worker_leave_wait_def Let_def newest_def)
next
  case (W_Post snap)
  let ?q = "p\<lparr>pb_worker := W_Debounce (pb_clock p + 1)\<rparr>"
  have "pub_step (Posted PostOk) p = Some ?q"
    using W_Post dirty by (simp add: post_failures_def)
  moreover have "\<exists>q. pub_run [Elapse (max 0 (pb_clock p + 1 - pb_clock ?q)), DebounceEnds, LoopHead] ?q = Some q \<and>
      newest (pb_payload ?q) q"
    using dirty by (intro post_from_debounce) simp_all
  ultimately show ?thesis
    by (intro exI [of _ "[Posted PostOk, Elapse (max 0 (pb_clock p + 1 - pb_clock ?q)), DebounceEnds, LoopHead]"])
      auto
next
  case (W_Debounce u)
  have "\<exists>q. pub_run [Elapse (max 0 (u - pb_clock p)), DebounceEnds, LoopHead] p = Some q \<and>
      newest (pb_payload p) q"
    using W_Debounce dirty by (intro post_from_debounce) simp_all
  then show ?thesis
    by (intro exI [of _ "[Elapse (max 0 (u - pb_clock p)), DebounceEnds, LoopHead]"]) auto
qed (use alive in simp_all)

text \<open>C11. No update is lost: as long as the publisher is not shut down and its worker has
  not died, the worker can publish the newest player count with its own next steps,
  wherever it is, in at most five of them.\<close>

theorem update_gets_published:
  assumes inv: "pub_inv p" and run: "pb_closer p = C_Running"
    and alive: "pb_worker p \<noteq> W_Raised"
  shows "\<exists>as q. length as \<le> 5 \<and>
    set as \<subseteq> {LoopHead, Woken, Posted PostOk, DebounceEnds} \<union> range Elapse \<and>
    pub_run (Update n # as) p = Some q \<and>
    newest ((pb_payload p)\<lparr>pl_curplayers := n\<rparr>) q"
proof -
  let ?p = "pub_update n p"
  have stop: "\<not> pb_stopping p"
    using inv run by (simp add: pub_inv_def closing_ok_def)
  have upd: "pub_step (Update n) p = Some ?p" using run by simp
  have pl: "pb_payload ?p = (pb_payload p)\<lparr>pl_curplayers := n\<rparr>" "pb_dirty ?p" "\<not> pb_stopping ?p"
      "pb_worker ?p = pb_worker p"
    using stop by (simp_all add: pub_update_def)
  have "pb_worker p \<noteq> W_Returned"
    using inv stop by (auto simp: pub_inv_def waiting_ok_def)
  moreover have "pb_notified ?p" if "pb_worker p = W_Wait d" for d
    using that stop by (simp add: pub_update_def cond_notify_def)
  ultimately obtain as q where "length as \<le> 4" "set as \<subseteq> {LoopHead, Woken, Posted PostOk, DebounceEnds} \<union> range Elapse"
      "pub_run as ?p = Some q" "newest (pb_payload ?p) q"
    using publishes_soon [of ?p] pl alive by metis
  then show ?thesis
    using upd pl(1) by (intro exI [of _ as] exI [of _ q]) simp
qed

theorem update_gets_published_witness:
  "\<exists>as q. length as \<le> 5 \<and>
    set as \<subseteq> {LoopHead, Woken, Posted PostOk, DebounceEnds} \<union> range Elapse \<and>
    pub_run (Update 2 # as) demo_publisher = Some q \<and>
    newest ((pb_payload demo_publisher)\<lparr>pl_curplayers := 2\<rparr>) q"
  by (rule update_gets_published) simp_all

text \<open>C19. The lobby is not flooded: in every run the worker's POSTs start at least a second
  apart, and they all say \<open>online\<close>.\<close>

theorem posts_spaced:
  assumes "pub_run as (publisher_init b u c k r g n) = Some q"
  shows "spaced (pb_worker_posts q) \<and> (\<forall>x \<in> set (pb_worker_posts q). pl_status (snd x) = online)"
  using pub_run_inv [OF pub_inv_init assms] by (simp add: pub_inv_def status_ok_def)

theorem posts_spaced_witness:
  "\<exists>q. pub_run [Update 1, LoopHead, Posted PostOk, Update 2, Elapse 1, DebounceEnds, LoopHead] demo_publisher = Some q \<and>
     length (pb_worker_posts q) = 2 \<and>
     spaced (pb_worker_posts q) \<and> (\<forall>x \<in> set (pb_worker_posts q). pl_status (snd x) = online)"
proof -
  let ?as = "[Update 1, LoopHead, Posted PostOk, Update 2, Elapse 1, DebounceEnds, LoopHead]"
  obtain q where q: "pub_run ?as demo_publisher = Some q" "length (pb_worker_posts q) = 2"
    by (simp add: pub_update_def cond_notify_def worker_leave_wait_def post_failures_def Let_def)
  from posts_spaced [OF q(1) [unfolded demo_publisher_def]] q show ?thesis by blast
qed

text \<open>C20. Shutdown says goodbye once: when \<^verbatim>\<open>shutdown\<close> has returned, exactly one final
  POST was made, with status \<open>offline\<close> and the last player count, and the worker has made
  no POST that says anything but \<open>online\<close>.\<close>

theorem shutdown_posts_offline:
  assumes "pub_run as (publisher_init b u c k r g n) = Some q" and "pb_closer q = C_Done"
  shows "map snd (pb_final_posts q) = [pb_payload q] \<and> pl_status (pb_payload q) = offline \<and>
    (\<forall>x \<in> set (pb_worker_posts q). pl_status (snd x) = online)"
  using pub_run_inv [OF pub_inv_init assms(1)] assms(2)
  by (simp add: pub_inv_def status_ok_def closing_ok_def)

theorem shutdown_posts_offline_witness:
  "\<exists>q. pub_run [Update 1, LoopHead, Shutdown, SetStop, Posted PostOSError, DebounceEnds, LoopHead,
       JoinEnds, FinalPosted PostOk] demo_publisher = Some q \<and>
    map snd (pb_final_posts q) = [pb_payload q] \<and> pl_status (pb_payload q) = offline \<and>
    (\<forall>x \<in> set (pb_worker_posts q). pl_status (snd x) = online)"
proof -
  let ?as = "[Update 1, LoopHead, Shutdown, SetStop, Posted PostOSError, DebounceEnds, LoopHead,
       JoinEnds, FinalPosted PostOk]"
  obtain q where q: "pub_run ?as demo_publisher = Some q" "pb_closer q = C_Done"
    by (simp add: pub_update_def cond_notify_def worker_leave_wait_def post_failures_def
        shutdown_begin_def Let_def)
  show ?thesis
    by (rule exI [of _ q], rule conjI [OF q(1)])
      (rule shutdown_posts_offline [OF q(1) [unfolded demo_publisher_def] q(2)])
qed

lemma raised_stays: "pb_worker p = W_Raised \<Longrightarrow> pub_step a p = Some q \<Longrightarrow>
    pb_worker q = W_Raised \<and> pb_worker_posts q = pb_worker_posts p"
  by (cases a) (auto simp: pub_update_def cond_notify_def shutdown_begin_def post_failures_def Let_def
      split: if_splits closer.splits post_result.splits)

lemma raised_stays_run: "pb_worker p = W_Raised \<Longrightarrow> pub_run as p = Some q \<Longrightarrow>
    pb_worker q = W_Raised \<and> pb_worker_posts q = pb_worker_posts p"
proof (induction as arbitrary: p)
  case (Cons a as)
  then obtain p' where p': "pub_step a p = Some p'" "pub_run as p' = Some q"
    by (auto split: option.splits)
  from raised_stays [OF Cons.prems(1) p'(1)] Cons.IH [OF _ p'(2)] show ?case by simp
qed simp

text \<open>C28. The worker does not survive an exception that is not an \<^verbatim>\<open>OSError\<close>: once a
  POST raised one, no update, keepalive or passage of time ever leads to another POST of the
  worker, although the publisher accepts updates.\<close>

theorem worker_dies_silently:
  assumes "pb_worker p = W_Post snap" and "pub_run (Posted PostOther # as) p = Some q"
  shows "pb_worker q = W_Raised \<and> pb_worker_posts q = pb_worker_posts p"
  using raised_stays_run [of "p\<lparr>pb_worker := W_Raised\<rparr>" as q] assms by simp

theorem worker_dies_silently_witness:
  "\<exists>p q. pub_run [Update 1, LoopHead] demo_publisher = Some p \<and>
     pub_run [Posted PostOther, Update 2, Elapse 1000] p = Some q \<and>
     pl_curplayers (pb_payload q) = 2 \<and>
     pb_worker q = W_Raised \<and> pb_worker_posts q = pb_worker_posts p"
proof -
  obtain p where p: "pub_run [Update 1, LoopHead] demo_publisher = Some p"
      "pb_worker p = W_Post (pb_payload p)" "pb_closer p = C_Running" "\<not> pb_stopping p"
    by (simp add: pub_update_def cond_notify_def worker_leave_wait_def Let_def)
  obtain q where q: "pub_run [Posted PostOther, Update 2, Elapse 1000] p = Some q"
      "pl_curplayers (pb_payload q) = 2"
    using p by (simp add: pub_update_def cond_notify_def)
  from worker_dies_silently [OF p(2) q(1)] p q show ?thesis by blast
qed

end
