(* ===== verification/RunProps.thy ===== *)
theory RunProps
  imports RelayProps ServiceProps LobbyProps
begin

text \<open>
  Properties of whole runs of the server that \<^verbatim>\<open>main\<close> starts, over every sequence of
  events: connections, failing accepts, reads, writes, the steps of the lobby's worker, and
  the passing of time.
\<close>

lemma main_server_inv:
  assumes "0 \<le> ar_delay a" and "ar_delay a < 256"
  shows "winv {} (main_server a rng)"
  unfolding main_server_def
proof (rule server_init_inv)
  fix p assume p: "main_lobby a = Some p"
  let ?q = "publisher_init (ar_lobby_url a) (ar_lobby_serverurl a) (ar_lobby_client_url a)
      (ar_lobby_appkey a) (str_of ''us'') (ar_game_name a) (ar_server_name a)"
  have "p = pub_update 0 ?q" using p by (simp add: main_lobby_def split: if_splits)
  then show "pub_inv p \<and> (\<not> pb_stopping p \<longrightarrow> pl_curplayers (pb_payload p) = 0)"
    using pub_update_inv [OF pub_inv_init] by simp
qed (use assms in simp_all)

lemma main_linv:
  assumes "0 \<le> ar_delay a" and "ar_delay a < 256"
  shows "linv (loop_init (main_server a rng) now)"
  by (simp add: linv_def loop_init_def relay_init_def main_server_inv [OF assms])

text \<open>The server a run has led to.\<close>

definition after :: "args \<Rightarrow> (nat \<Rightarrow> nat) \<Rightarrow> real \<Rightarrow> (event list \<times> real) list \<Rightarrow> server" where
  "after a rng now ts = rl_server (lp_relay (fst (main_run a rng now ts)))"

lemma after_inv:
  "0 \<le> ar_delay a \<Longrightarrow> ar_delay a < 256 \<Longrightarrow> winv {} (after a rng now ts)"
  using run_inv [OF main_linv, of a ts rng now] by (simp add: after_def main_run_def linv_def)

text \<open>Two clients that connect, say HELLO, join and start; a third connection waits.\<close>

definition demo_turns :: "(event list \<times> real) list" where
  "demo_turns =
     [([Accepted (1, 1000) 0 [SendN 5], Accepted (1, 1001) 0 []], 1),
      ([Ready 0 False (Some (RecvData [4, 1, 2, 65, 65])), Ready 1 False (Some (RecvData [4, 1, 2]))], 2),
      ([Accepted (9, 9) 2 [], Ready 1 False (Some (RecvData [66, 66, 3, 4, 65, 65]))], 3),
      ([Ready 0 True (Some (RecvData [1, 15]))], 64)]"

lemma demo_args: "0 \<le> ar_delay default_args" "ar_delay default_args < 256"
  by (simp_all add: default_args_def DEFAULT_DELAY_def)

text \<open>C2. The server's invariant holds after every run: names are valid and each living
  named client is in the name table under its own name; the set of clients, the
  selector and the transmit buffers agree; rooms have two distinct members or none, and
  membership agrees with the clients' own fields; CRC tables and connection counts are
  within their limits; the lobby entry shows the number of names.\<close>

theorem run_keeps_invariant:
  assumes "0 \<le> ar_delay a" and "ar_delay a < 256"
  shows "winv {} (after a rng now ts)"
  by (rule after_inv [OF assms])

theorem run_keeps_invariant_witness: "winv {} (after default_args (\<lambda>_. 7) 0 demo_turns)"
  by (rule run_keeps_invariant) (rule demo_args)+

text \<open>C10. Nothing but a failing \<^verbatim>\<open>accept\<close> ends the server: a run in which it does not
  fail raises no exception, whatever the clients send and however their sockets behave.\<close>

theorem run_raises_nothing:
  assumes "0 \<le> ar_delay a" and "ar_delay a < 256"
    and "\<forall>t \<in> set ts. AcceptFails \<notin> set (fst t)"
  shows "snd (main_run a rng now ts) = None"
  using run_inv [OF main_linv [OF assms(1,2)], of ts rng now] assms(3) by (simp add: main_run_def)

theorem run_raises_nothing_witness: "snd (main_run default_args (\<lambda>_. 7) 0 demo_turns) = None"
  by (rule run_raises_nothing) (simp_all add: demo_args, simp add: demo_turns_def)

text \<open>The \<^verbatim>\<open>except Exception\<close> around the service of a client is never entered: in
  every state a run reaches, serving a ready client is the plain body, which raises
  nothing.\<close>

theorem serve_never_unexpected:
  assumes "0 \<le> ar_delay a" and "ar_delay a < 256"
    and "rl_server x = after a rng now ts"
  shows "serve c w r x = serve_body c w r x \<and> snd (serve_body c w r x) = None"
proof -
  have inv: "winv {} (rl_server x)" using after_inv [OF assms(1,2)] assms(3) by simp
  show ?thesis
    using serve_eq_body [OF inv, of c w r] serve_body_sound [OF inv, of c w r]
    by (simp add: rsound_def sound_def)
qed

theorem serve_never_unexpected_witness:
  "serve 0 True (Some (RecvData [1, 99])) (relay_init (after default_args (\<lambda>_. 7) 0 demo_turns)) =
     serve_body 0 True (Some (RecvData [1, 99])) (relay_init (after default_args (\<lambda>_. 7) 0 demo_turns)) \<and>
   snd (serve_body 0 True (Some (RecvData [1, 99])) (relay_init (after default_args (\<lambda>_. 7) 0 demo_turns))) = None"
  by (rule serve_never_unexpected [of default_args _ "\<lambda>_. 7" 0 demo_turns])
    (simp_all add: demo_args relay_init_def)

text \<open>C6. What a client is sent is at all times a sequence of whole, well-typed frames: the
  bytes the kernel has taken followed by the bytes still buffered split into frames, none
  cut, repeated or overwritten, and earlier bytes never change. Each frame is a listing of at
  most eight entries, a room or a start with its roster, the notice of a seat, a pong or a
  frame of a relay type, and the counts inside announce its length.\<close>

theorem downstream_whole_frames:
  assumes "0 \<le> ar_delay a" and "ar_delay a < 256"
  shows "(\<exists>fs. list_all well_typed fs \<and> out_of (after a rng now ts) c = frames_out fs) \<and>
    (\<exists>gs. list_all well_typed gs \<and>
       out_of (after a rng now (ts @ us)) c = out_of (after a rng now ts) c @ frames_out gs)"
proof -
  let ?x = "loop_init (main_server a rng) now"
  have x: "linv ?x" by (rule main_linv [OF assms])
  have "out_of (rl_server (lp_relay ?x)) c = []"
    by (simp add: loop_init_def relay_init_def main_server_def server_init_def out_of_def no_client_def)
  then have 1: "\<exists>fs. list_all well_typed fs \<and> out_of (after a rng now ts) c = frames_out fs"
    using run_streams [OF x, of ts]
    by (auto simp: lstreams_def grows_def after_def main_run_def dest!: spec [of _ c])
  have split: "run (ts @ us) y = seq (run ts) (run us) y" for y
    by (induction ts arbitrary: y) (simp_all add: run_def seq_def split: prod.split option.split)
  have y: "linv (fst (run ts ?x))" using run_inv [OF x, of ts] by simp
  have "lstreams (fst (run ts ?x)) (fst (run (ts @ us) ?x))"
    using run_streams [OF y, of us]
    by (cases "run ts ?x"; cases "snd (run ts ?x)") (simp_all add: split seq_def lstreams_def streams_grows)
  then have "grows (after a rng now ts) (after a rng now (ts @ us))"
    by (simp add: lstreams_def after_def main_run_def)
  with 1 show ?thesis by (simp add: grows_def)
qed

theorem downstream_whole_frames_witness:
  "(\<exists>fs. list_all well_typed fs \<and>
      out_of (after default_args (\<lambda>_. 7) 0 demo_turns) 1 = frames_out fs) \<and>
    (\<exists>gs. list_all well_typed gs \<and>
       out_of (after default_args (\<lambda>_. 7) 0 (demo_turns @ [([AcceptFails], 65)])) 1 =
       out_of (after default_args (\<lambda>_. 7) 0 demo_turns) 1 @ frames_out gs)"
  by (rule downstream_whole_frames) (rule demo_args)+

text \<open>C17. Resources stay bounded and no client is forgotten by the selector: at most 64
  clients, eight per address, 64 KiB buffered per client, 64 pending CRC rounds per room;
  a living client is watched for writing exactly while it has bytes buffered.\<close>

theorem resources_bounded:
  assumes "0 \<le> ar_delay a" and "ar_delay a < 256" and "after a rng now ts = s"
  shows "length (sv_clients s) \<le> 64 \<and> per_ip s ip \<le> 8 \<and>
    length (cl_tx (sv_cl s c)) \<le> 65536 \<and> length (rm_crc (sv_rm s r)) \<le> 64 \<and>
    length (members s r) \<le> 2 \<and>
    sv_sel s c = (if dead s c then None else Some (cl_tx (sv_cl s c) \<noteq> []))"
proof -
  have inv: "winv {} s" using after_inv [OF assms(1,2)] assms(3) by blast
  then show ?thesis
    using members_le [OF inv, of r]
    by (simp add: winv_def clients_ok_def tx_ok_def crcs_ok_def crc_table_ok_def MAX_CLIENTS_def
        MAX_CONNECTIONS_PER_IP_def MAX_TX_BACKLOG_def MAX_SEATS_def)
qed

theorem resources_bounded_witness:
  "\<exists>s. after default_args (\<lambda>_. 7) 0 demo_turns = s \<and>
    length (sv_clients s) \<le> 64 \<and> per_ip s 1 \<le> 8 \<and>
    length (cl_tx (sv_cl s 0)) \<le> 65536 \<and> length (rm_crc (sv_rm s 0)) \<le> 64 \<and>
    length (members s 0) \<le> 2 \<and>
    sv_sel s 0 = (if dead s 0 then None else Some (cl_tx (sv_cl s 0) \<noteq> []))"
  using resources_bounded [OF demo_args refl, of "\<lambda>_. 7" 0 demo_turns 1 0 0] by blast

text \<open>One failing \<^verbatim>\<open>accept\<close> ends the server: \<open>accept\<close> is called outside the
  \<^verbatim>\<open>try\<close>, so its \<^verbatim>\<open>OSError\<close> leaves \<open>run\<close>, and no later event is served.\<close>

theorem accept_failure_ends_run:
  "run (((AcceptFails # es), now) # ts) x = (x, Some OSError)"
  by (simp add: run_def turn_def on_relay_def seq_def)

end
