(* ===== verification/SimClient.thy ===== *)
theory SimClient
  imports RunProps
begin

text \<open>
  The simulated console of \<^verbatim>\<open>tools/bbnet_client_sim.py\<close>: framing, the receive loop,
  and the decoders of LOBBY entries and rosters. Its model meets the server's: what the
  server appends to a client's stream is what the client's decoders read back.
\<close>

section \<open>Errors, UTF-8\<close>

datatype sim_error =
    SimEOF
  | SimTimeout
  | SimIndexError
  | SimUnicodeError
  | SimValueError
  | SimAssertion
  | SimOSError

text \<open>Python's strict UTF-8, as \<^verbatim>\<open>str.encode()\<close> and \<^verbatim>\<open>bytes.decode()\<close> use it.\<close>

definition utf8_char :: "nat \<Rightarrow> sim_error + byte list" where
  "utf8_char c =
     (if c < 0x80 then Inr [word_of_nat c]
      else if c < 0x800 then Inr [word_of_nat (0xC0 + c div 64), word_of_nat (0x80 + c mod 64)]
      else if 0xD800 \<le> c \<and> c < 0xE000 then Inl SimUnicodeError
      else if c < 0x10000
      then Inr [word_of_nat (0xE0 + c div 4096), word_of_nat (0x80 + c div 64 mod 64),
                word_of_nat (0x80 + c mod 64)]
      else Inr [word_of_nat (0xF0 + c div 262144), word_of_nat (0x80 + c div 4096 mod 64),
                word_of_nat (0x80 + c div 64 mod 64), word_of_nat (0x80 + c mod 64)])"

definition utf8_encode :: "pystr \<Rightarrow> sim_error + byte list" where
  "utf8_encode s = (case map_val utf8_char s of Inl e \<Rightarrow> Inl e | Inr bs \<Rightarrow> Inr (concat bs))"

text \<open>A continuation byte in a range, as the table of well-formed sequences demands.\<close>

definition cont :: "nat \<Rightarrow> nat \<Rightarrow> byte \<Rightarrow> bool" where
  "cont lo hi b \<longleftrightarrow> lo \<le> unat b \<and> unat b \<le> hi"

fun utf8_decode :: "byte list \<Rightarrow> sim_error + pystr" where
  "utf8_decode [] = Inr []"
| "utf8_decode (a # bs) =
     (let push = (\<lambda>c rest. case rest of Inl e \<Rightarrow> Inl e | Inr cs \<Rightarrow> Inr (c # cs)); n = unat a
      in if n < 0x80 then push n (utf8_decode bs)
         else case bs of
           [] \<Rightarrow> Inl SimUnicodeError
         | b # bs1 \<Rightarrow>
             if 0xC2 \<le> n \<and> n < 0xE0 \<and> cont 0x80 0xBF b
             then push ((n - 0xC0) * 64 + (unat b - 0x80)) (utf8_decode bs1)
             else case bs1 of
               [] \<Rightarrow> Inl SimUnicodeError
             | c # bs2 \<Rightarrow>
                 if 0xE0 \<le> n \<and> n < 0xF0 \<and> cont 0x80 0xBF c \<and>
                    cont (if n = 0xE0 then 0xA0 else 0x80) (if n = 0xED then 0x9F else 0xBF) b
                 then push ((n - 0xE0) * 4096 + (unat b - 0x80) * 64 + (unat c - 0x80)) (utf8_decode bs2)
                 else case bs2 of
                   [] \<Rightarrow> Inl SimUnicodeError
                 | d # bs3 \<Rightarrow>
                     if 0xF0 \<le> n \<and> n < 0xF5 \<and> cont 0x80 0xBF c \<and> cont 0x80 0xBF d \<and>
                        cont (if n = 0xF0 then 0x90 else 0x80) (if n = 0xF4 then 0x8F else 0xBF) b
                     then push ((n - 0xF0) * 262144 + (unat b - 0x80) * 4096 + (unat c - 0x80) * 64 +
                            (unat d - 0x80)) (utf8_decode bs3)
                     else Inl SimUnicodeError)"

lemma utf8_decode_ascii: "list_all (\<lambda>b. unat b < 128) bs \<Longrightarrow> utf8_decode bs = Inr (map unat bs)"
  by (induction bs) (simp_all add: Let_def)

section \<open>Framing\<close>

definition sim_frame :: "byte \<Rightarrow> byte list \<Rightarrow> sim_error + byte list" where
  "sim_frame t payload =
     (let body = t # payload
      in if length body < 256 then Inr (word_of_nat (length body) # body) else Inl SimValueError)"

definition pad :: "pystr \<Rightarrow> sim_error + byte list" where
  "pad name = (case utf8_encode name of Inl e \<Rightarrow> Inl e | Inr bs \<Rightarrow> Inr (ljust8 bs))"

text \<open>The expected status of a room of \<open>n\<close> members, for a server with so many seats.\<close>

definition st :: "nat \<Rightarrow> nat \<Rightarrow> nat" where
  "st seats n = (if n \<ge> seats then 0x80 OR n else n)"

text \<open>
  \<^verbatim>\<open>recv_frame\<close>: the buffer, and what \<^verbatim>\<open>recv\<close> will return: chunks, of which an empty
  one is the end of the stream. When they run out the receive times out.
\<close>

fun recv_frame ::
    "byte list \<Rightarrow> byte list list \<Rightarrow> (sim_error + byte \<times> byte list) \<times> byte list \<times> byte list list" where
  "recv_frame buf chunks =
     (if buf \<noteq> [] \<and> length buf \<ge> unat (hd buf) + 1
      then (let n = unat (hd buf) + 1; body = tl (take n buf)
            in (case body of [] \<Rightarrow> Inl SimIndexError | t # p \<Rightarrow> Inr (t, p), drop n buf, chunks))
      else (case chunks of
              [] \<Rightarrow> (Inl SimTimeout, buf, [])
            | chunk # later_chunks \<Rightarrow>
                if chunk = [] then (Inl SimEOF, buf, later_chunks) else recv_frame (buf @ chunk) later_chunks))"

declare recv_frame.simps [simp del]

text \<open>\<^verbatim>\<open>expect\<close>, and the number of frames a test reads in a row.\<close>

definition expect :: "byte \<Rightarrow> byte list \<Rightarrow> byte list list \<Rightarrow>
    (sim_error + byte list) \<times> byte list \<times> byte list list" where
  "expect ftype buf chunks =
     (case recv_frame buf chunks of
        (Inl e, b, cs) \<Rightarrow> (Inl e, b, cs)
      | (Inr (t, p), b, cs) \<Rightarrow> (if t = ftype then Inr p else Inl SimAssertion, b, cs))"

fun recv_frames :: "nat \<Rightarrow> byte list \<Rightarrow> byte list list \<Rightarrow> (sim_error + (byte \<times> byte list) list)" where
  "recv_frames 0 buf chunks = Inr []"
| "recv_frames (Suc n) buf chunks =
     (case recv_frame buf chunks of
        (Inl e, _, _) \<Rightarrow> Inl e
      | (Inr f, b, cs) \<Rightarrow> (case recv_frames n b cs of Inl e \<Rightarrow> Inl e | Inr fs \<Rightarrow> Inr (f # fs)))"

section \<open>Decoders\<close>

definition rstrip_nul :: "byte list \<Rightarrow> byte list" where
  "rstrip_nul bs = rev (dropWhile (\<lambda>b. b = 0) (rev bs))"

text \<open>\<^verbatim>\<open>lobby_status\<close>: the loop over the entries, from entry \<open>i\<close> on for \<open>k\<close> more.\<close>

fun lobby_status_from :: "nat \<Rightarrow> nat \<Rightarrow> byte list \<Rightarrow> pystr \<Rightarrow> sim_error + byte option" where
  "lobby_status_from 0 i payload name = Inr None"
| "lobby_status_from (Suc k) i payload name =
     (let e = take 9 (drop (1 + 9 * i) payload)
      in case utf8_decode (rstrip_nul (take 8 e)) of
           Inl x \<Rightarrow> Inl x
         | Inr n \<Rightarrow>
             if n = name then (if length e > 8 then Inr (Some (e ! 8)) else Inl SimIndexError)
             else lobby_status_from k (Suc i) payload name)"

definition lobby_status :: "byte list \<Rightarrow> pystr \<Rightarrow> sim_error + byte option" where
  "lobby_status payload name =
     (case payload of [] \<Rightarrow> Inl SimIndexError
      | n # _ \<Rightarrow> lobby_status_from (unat n) 0 payload name)"

definition roster_names :: "byte list \<Rightarrow> sim_error + pystr list" where
  "roster_names raw =
     map_val (\<lambda>i. utf8_decode (rstrip_nul (take 8 (drop (i * 8) raw)))) [0..<4]"

section \<open>The client reads what the server sends\<close>

lemma recv_frame_ready:
  assumes "length p \<le> 254"
  shows "recv_frame (enframe t p @ rest) chunks = (Inr (t, p), rest, chunks)"
proof -
  have l: "unat (word_of_nat (Suc (length p)) :: byte) = Suc (length p)"
    by (rule byte_of_nat) (use assms in simp)
  show ?thesis
    by (subst recv_frame.simps) (simp add: enframe_def l Let_def del: of_nat_Suc)
qed

lemma recv_frame_more:
  assumes "\<not> (buf \<noteq> [] \<and> length buf \<ge> unat (hd buf) + 1)" and "chunk \<noteq> []"
  shows "recv_frame buf (chunk # later_chunks) = recv_frame (buf @ chunk) later_chunks"
  using assms by (subst recv_frame.simps) auto

lemma recv_frame_chunked:
  assumes p: "length p \<le> 254"
  shows "buf @ concat chunks = enframe t p @ rest \<Longrightarrow> \<forall>c \<in> set chunks. c \<noteq> [] \<Longrightarrow>
    \<exists>b cs. recv_frame buf chunks = (Inr (t, p), b, cs) \<and> b @ concat cs = rest \<and>
      set cs \<subseteq> set chunks"
proof (induction chunks arbitrary: buf)
  case Nil
  then have "buf = enframe t p @ rest" by simp
  then show ?case using recv_frame_ready [OF p, of t rest "[]"] by auto
next
  case (Cons chunk later_chunks)
  have l: "unat (word_of_nat (Suc (length p)) :: byte) = Suc (length p)"
    by (rule byte_of_nat) (use p in simp)
  show ?case
  proof (cases "buf \<noteq> [] \<and> length buf \<ge> unat (hd buf) + 1")
    case True
    have "hd buf = hd (buf @ concat (chunk # later_chunks))" using True by simp
    also have "\<dots> = word_of_nat (Suc (length p))" unfolding Cons.prems(1) by (simp add: enframe_def)
    finally have "length buf \<ge> length (enframe t p)" using True l by (simp del: of_nat_Suc)
    then obtain tail where tail: "buf = enframe t p @ tail"
      using Cons.prems(1) by (metis append_eq_append_conv_if append_take_drop_id)
    then have "tail @ concat (chunk # later_chunks) = rest" using Cons.prems(1) by simp
    then show ?thesis using recv_frame_ready [OF p, of t tail] tail by auto
  next
    case False
    have "chunk \<noteq> []" using Cons.prems(2) by simp
    have "(buf @ chunk) @ concat later_chunks = enframe t p @ rest" using Cons.prems(1) by simp
    with Cons.IH Cons.prems(2) obtain b cs where
      "recv_frame (buf @ chunk) later_chunks = (Inr (t, p), b, cs)" "b @ concat cs = rest" "set cs \<subseteq> set later_chunks"
      by (metis list.set_intros(2))
    then show ?thesis
      by (auto simp: recv_frame_more [OF False \<open>chunk \<noteq> []\<close>])
  qed
qed

text \<open>The receive loop of the client returns the server's frames in order and
  unchanged, however the stream is cut into chunks.\<close>

theorem recv_frames_stream:
  assumes "list_all (\<lambda>f. length (snd f) \<le> 254) fs"
    and "buf @ concat chunks = frames_out fs" and "\<forall>c \<in> set chunks. c \<noteq> []"
  shows "recv_frames (length fs) buf chunks = Inr fs"
  using assms
proof (induction fs arbitrary: buf chunks)
  case (Cons f fs)
  obtain t p where f: "f = (t, p)" by fastforce
  have "buf @ concat chunks = enframe t p @ frames_out fs"
    using Cons.prems(2) by (simp add: f frames_out_def)
  then obtain b cs where r: "recv_frame buf chunks = (Inr (t, p), b, cs)" "b @ concat cs = frames_out fs"
      "set cs \<subseteq> set chunks"
    using recv_frame_chunked [of p buf chunks t "frames_out fs"] Cons.prems(1,3) f by auto
  have "recv_frames (length fs) b cs = Inr fs"
    using Cons.prems(1,3) r by (intro Cons.IH) auto
  then show ?case by (simp add: r(1) f)
qed simp

theorem recv_frames_stream_witness:
  "recv_frames (length [(T_PONG, []), (T_INPUT, [1, 2 :: byte])]) [1] [[13, 3], [6, 1], [2]] =
     Inr [(T_PONG, []), (T_INPUT, [1, 2])]"
  by (rule recv_frames_stream) (simp_all add: frames_out_def enframe_def T_defs)

lemma rstrip_nul_name8:
  assumes "valid_name n"
  shows "utf8_decode (rstrip_nul (name8 n)) = Inr n"
proof -
  have small: "\<And>c. c \<in> set n \<Longrightarrow> unat (word_of_nat c :: byte) = c \<and> c < 128 \<and> (word_of_nat c :: byte) \<noteq> 0"
  proof -
    fix c assume "c \<in> set n"
    then have c: "48 \<le> c" "c < 91" using valid_name_chars [OF assms] by auto
    then have u: "unat (word_of_nat c :: byte) = c" by simp
    with c have "(word_of_nat c :: byte) \<noteq> 0" by (metis not_numeral_le_zero unat_0)
    with u c show "unat (word_of_nat c :: byte) = c \<and> c < 128 \<and> (word_of_nat c :: byte) \<noteq> 0" by simp
  qed
  have "n \<noteq> []" using assms by (auto simp: valid_name_def)
  then obtain m c where n: "n = m @ [c]" by (metis rev_exhaust)
  then have "(word_of_nat c :: byte) \<noteq> 0" using small by simp
  then have "rstrip_nul (name8 n) = map word_of_nat n"
    by (simp add: rstrip_nul_def name8_def dropWhile_replicate_append n)
  moreover have "list_all (\<lambda>b. unat b < 128) (map (word_of_nat :: nat \<Rightarrow> byte) n)"
    using small by (simp add: list_all_iff)
  moreover have "map (\<lambda>c. unat (word_of_nat c :: byte)) n = n"
    using small by (simp add: map_idI)
  ultimately show ?thesis by (simp add: utf8_decode_ascii comp_def)
qed

text \<open>The roster of a room of two is read back as the two names in seat order and two
  empty slots.\<close>

theorem roster_roundtrip:
  assumes inv: "winv {} s" and m: "members s r = [a, b]"
  shows "\<exists>bs na nb. roster s r = Inr bs \<and> length bs = 32 \<and> name_of s a = Some na \<and>
    name_of s b = Some nb \<and> roster_names bs = Inr [na, nb, [], []]"
proof -
  obtain na where na: "name_of s a = Some na" "valid_name na"
    using member_named [OF inv, of a r] m by auto
  obtain nb where nb: "name_of s b = Some nb" "valid_name nb"
    using member_named [OF inv, of b r] m by auto
  let ?bs = "name8 na @ name8 nb @ replicate 16 0"
  have len: "length (name8 na) = 8" "length (name8 nb) = 8"
    using na nb by (simp_all add: length_name8 valid_name_def)
  have four: "[0..<4] = [0, 1, 2, 3::nat]" by (simp add: upt_rec)
  have nul: "utf8_decode (rstrip_nul (replicate 8 0)) = Inr []"
    by (simp add: rstrip_nul_def dropWhile_replicate)
  have "roster_names ?bs = Inr [na, nb, [], []]"
    by (simp add: roster_names_def four len rstrip_nul_name8 na nb nul)
  moreover have "roster s r = Inr ?bs"
    using roster_eq [OF inv, of r] by (simp add: roster_two [OF m] na nb)
  ultimately show ?thesis using na nb len by auto
qed

theorem roster_roundtrip_witness:
  "\<exists>bs na nb. roster demo_room 0 = Inr bs \<and> length bs = 32 \<and> name_of demo_room 0 = Some na \<and>
    name_of demo_room 1 = Some nb \<and> roster_names bs = Inr [na, nb, [], []]"
  by (rule roster_roundtrip) (rule demo_invs, simp add: demo_defs)

text \<open>A LOBBY payload read entry by entry.\<close>

lemma lobby_status_entries:
  "list_all (\<lambda>e. valid_name (fst e)) es \<Longrightarrow> length pre = 1 + 9 * i \<Longrightarrow>
   lobby_status_from (length es) i (pre @ concat (map (\<lambda>e. name8 (fst e) @ [snd e]) es)) name =
     Inr (map_of es name)"
proof (induction es arbitrary: pre i)
  case (Cons e es)
  obtain n b where e: "e = (n, b)" by fastforce
  have len: "length (name8 n) = 8" using Cons.prems(1) by (simp add: e length_name8 valid_name_def)
  let ?pay = "pre @ concat (map (\<lambda>e. name8 (fst e) @ [snd e]) (e # es))"
  let ?pre = "pre @ name8 n @ [b]"
  have "?pay = ?pre @ concat (map (\<lambda>e. name8 (fst e) @ [snd e]) es)" by (simp add: e)
  moreover have "lobby_status_from (length es) (Suc i) (?pre @ concat (map (\<lambda>e. name8 (fst e) @ [snd e]) es)) name =
      Inr (map_of es name)"
    by (rule Cons.IH) (use Cons.prems len in simp_all)
  moreover have "take 9 (drop (1 + 9 * i) ?pay) = name8 n @ [b]"
    using Cons.prems(2) len by (simp add: e)
  moreover have "(name8 n @ [b]) ! 8 = b" "valid_name n"
    using len Cons.prems(1) by (simp_all add: nth_append e)
  ultimately show ?case
    unfolding length_Cons lobby_status_from.simps Let_def
    using len by (cases "n = name") (simp_all only: e rstrip_nul_name8, simp_all add: rstrip_nul_name8)
qed simp

text \<open>Every client in a listing holds a valid name under which the table has it.\<close>

lemma listed_holds_name:
  assumes bn: "by_name_ok s" and nm: "names_ok s" and k: "k \<in> set (listed s c)"
  shows "\<exists>m. name_of s k = Some m \<and> valid_name m \<and> dict_get (sv_by_name s) m = Some k"
proof -
  have "k \<in> set (dict_values (sv_by_name s))"
    using k by (auto simp: listed_def dest: in_set_takeD)
  then obtain m where m: "(m, k) \<in> set (sv_by_name s)" by (auto simp: dict_values_def)
  then have "name_of s k = Some m" by (rule by_name_okD(2) [OF bn])
  then show ?thesis
    using m nm dict_get_in [OF by_name_okD(1) [OF bn]] by (auto simp: names_ok_def)
qed

lemma lobby_payload_read:
  assumes inv: "winv {} s"
  shows "lobby_status (lobby_payload s c) n =
    Inr (case dict_get (sv_by_name s) n of
           None \<Rightarrow> None
         | Some k \<Rightarrow> if k \<in> set (listed s c) then Some (word_of_nat (status s k)) else None)"
proof -
  have bn: "by_name_ok s" and nm: "names_ok s" using inv by (simp_all add: winv_def)
  let ?nm = "\<lambda>k. the (name_of s k)"
  let ?es = "map (\<lambda>k. (?nm k, word_of_nat (status s k) :: byte)) (listed s c)"
  note named = listed_holds_name [OF bn nm]
  have "list_all (\<lambda>e. valid_name (fst e)) ?es" using named by (fastforce simp: list_all_iff)
  from lobby_status_entries [OF this, of "[word_of_nat (length (listed s c))]" 0 n]
  have "lobby_status (lobby_payload s c) n = Inr (map_of ?es n)"
    using length_listed [of s c] by (simp add: lobby_status_def lobby_payload_def comp_def)
  moreover have "map_of ?es n =
    (case dict_get (sv_by_name s) n of
           None \<Rightarrow> None
         | Some k \<Rightarrow> if k \<in> set (listed s c) then Some (word_of_nat (status s k)) else None)"
  proof -
    have "map_of (map (\<lambda>k. (?nm k, w k :: byte)) ks) n =
        (case dict_get (sv_by_name s) n of None \<Rightarrow> None
         | Some k \<Rightarrow> if k \<in> set ks then Some (w k) else None)"
      if "set ks \<subseteq> set (listed s c)" for ks w
      using that
    proof (induction ks)
      case Nil
      show ?case by (simp split: option.split)
    next
      case (Cons k ks)
      obtain m where "name_of s k = Some m" "dict_get (sv_by_name s) m = Some k"
        using named [of k] Cons.prems by auto
      then have k: "?nm k = n \<longleftrightarrow> dict_get (sv_by_name s) n = Some k"
        using by_name_okD(2) [OF bn, of n k] dict_get_in [OF by_name_okD(1) [OF bn], of n k] by auto
      with Cons show ?case by (auto split: option.split)
    qed
    then show ?thesis by simp
  qed
  ultimately show ?thesis by simp
qed

text \<open>C16. The lobby list means what it says. The relay answers a LIST of a client whose socket
  does not fail and has room in its transmit buffer with one LOBBY frame, to that client
  alone; in its payload the decoder of the simulated console finds for every listed name the
  status of the client that holds it, and nothing for any other name.\<close>

theorem lobby_roundtrip:
  assumes inv: "winv {} s" and h: "healthy s c 75"
  shows "\<exists>t p. handle c T_LIST payload s = (t, None) \<and>
    (\<forall>j. out_of t j = out_of s j @ (if j = c then enframe T_LOBBY p else [])) \<and>
    (\<forall>n. lobby_status p n =
      Inr (case dict_get (sv_by_name s) n of
             None \<Rightarrow> None
           | Some k \<Rightarrow> if k \<in> set (listed s c) then Some (word_of_nat (status s k)) else None))"
proof -
  obtain t where "handle c T_LIST payload s = (t, None)"
      "wrote (\<lambda>k. if k = c then enframe T_LOBBY (lobby_payload s c) else []) s t"
    using list_sends [OF inv h] by blast
  then show ?thesis
    using lobby_payload_read [OF inv, of c] wroteD(1)
    by (intro exI [of _ t] exI [of _ "lobby_payload s c"]) blast
qed

theorem lobby_roundtrip_witness:
  "\<exists>t p. handle 2 T_LIST [] demo_room = (t, None) \<and>
    (\<forall>j. out_of t j = out_of demo_room j @ (if j = 2 then enframe T_LOBBY p else [])) \<and>
    (\<forall>n. lobby_status p n =
      Inr (case dict_get (sv_by_name demo_room) n of
             None \<Rightarrow> None
           | Some k \<Rightarrow> if k \<in> set (listed demo_room 2) then Some (word_of_nat (status demo_room k)) else None))"
  by (rule lobby_roundtrip) (rule demo_invs, simp add: demo_eval)

end
