(* ===== verification/Ghost.thy ===== *)
theory Ghost
  imports SimClient
begin

text \<open>
  \<^verbatim>\<open>tools/ghost_peer.py\<close>: a scripted opponent that answers every INPUT of the console
  at once. The state is what \<^verbatim>\<open>main\<close> keeps in its local variables; the socket is the
  bytes sent so far and, turn by turn, what the receive call delivers; the clock is given
  to each turn.
\<close>

section \<open>State\<close>

record ghost_args =
  ga_name :: pystr
  ga_want_ticks :: int
  ga_timeout :: real
  ga_mirror :: bool
  ga_pitch_at :: int

datatype ghost_log =
    GhostClosed
  | GhostJoining pystr
  | GhostMatched pystr nat nat nat
  | GhostPitches nat
  | GhostInput nat "byte list"
  | GhostPeerLeft

record ghost =
  gh_matched :: bool
  gh_last_list :: real
  gh_inputs :: nat
  gh_crcs :: nat
  gh_max_tick :: nat
  gh_crc_ticks :: "(nat \<times> nat) list"
  gh_deadline :: real
  gh_last :: "byte list option"
  gh_sent :: "byte list"
  gh_log :: "ghost_log list"

type_synonym gstmt = "(ghost, sim_error) stmt"

definition IDLE :: byte where "IDLE = 0x40"

definition ghost_frame :: "byte \<Rightarrow> byte list \<Rightarrow> sim_error + byte list" where
  "ghost_frame t payload =
     (let body = t # payload
      in if length body < 256 then Inr (word_of_nat (length body) # body) else Inl SimValueError)"

definition byte_at :: "byte list \<Rightarrow> nat \<Rightarrow> sim_error + byte" where
  "byte_at p i = (if i < length p then Inr (p ! i) else Inl SimIndexError)"

definition transmit :: "byte list \<Rightarrow> gstmt" where
  "transmit data = update (\<lambda>g. g\<lparr>gh_sent := gh_sent g @ data\<rparr>)"

definition send_msg :: "byte \<Rightarrow> byte list \<Rightarrow> gstmt" where
  "send_msg t payload = bind_val (ghost_frame t payload) transmit"

definition say :: "ghost_log \<Rightarrow> gstmt" where
  "say e = update (\<lambda>g. g\<lparr>gh_log := e # gh_log g\<rparr>)"

text \<open>Everything in front of the loop: HELLO, with protocol version 1.\<close>

definition ghost_init :: "ghost_args \<Rightarrow> real \<Rightarrow> sim_error + ghost" where
  "ghost_init a now =
     (case utf8_encode (ga_name a) of Inl e \<Rightarrow> Inl e
      | Inr nm \<Rightarrow> (case ghost_frame T_HELLO (1 # nm) of Inl e \<Rightarrow> Inl e
      | Inr hello \<Rightarrow> Inr \<lparr>gh_matched = False, gh_last_list = 0, gh_inputs = 0, gh_crcs = 0,
          gh_max_tick = 0, gh_crc_ticks = [], gh_deadline = now + ga_timeout a, gh_last = None,
          gh_sent = hello, gh_log = []\<rparr>))"

section \<open>One frame\<close>

text \<open>The loop over the entries of a LOBBY payload: entry \<open>i\<close> on, for \<open>k\<close> more.\<close>

fun ghost_lobby :: "ghost_args \<Rightarrow> nat \<Rightarrow> nat \<Rightarrow> byte list \<Rightarrow> gstmt" where
  "ghost_lobby a 0 i p = skip"
| "ghost_lobby a (Suc k) i p =
     (let name = rstrip_nul (take 8 (drop (1 + i * 9) p))
      in bind_val (byte_at p (9 + i * 9)) (\<lambda>status.
           if status = 0
           then bind_val (utf8_encode (ga_name a)) (\<lambda>me.
                  if name \<noteq> me
                  then bind_val (utf8_decode name) (\<lambda>n. seq (say (GhostJoining n)) (send_msg T_JOIN name))
                  else ghost_lobby a k (Suc i) p)
           else ghost_lobby a k (Suc i) p))"

definition ghost_start :: "byte list \<Rightarrow> gstmt" where
  "ghost_start p =
     seq (update (\<lambda>g. g\<lparr>gh_matched := True\<rparr>))
     (bind_val (byte_at p 0) (\<lambda>role.
      bind_val (byte_at p 1) (\<lambda>lo.
      bind_val (byte_at p 2) (\<lambda>hi.
      bind_val (utf8_decode (rstrip_nul (take 8 (drop 4 p)))) (\<lambda>opp.
      bind_val (byte_at p 3) (\<lambda>d. say (GhostMatched opp (unat role) (le16 lo hi) (unat d))))))))"

text \<open>The cell the ghost answers with: idle, or keypad 5 pressed and then held.\<close>

definition ghost_cell :: "ghost_args \<Rightarrow> nat \<Rightarrow> byte \<times> bool" where
  "ghost_cell a tick =
     (if ga_pitch_at a \<noteq> 0 \<and> int tick \<ge> ga_pitch_at a
      then (let ph = (int tick - ga_pitch_at a) mod 256
            in if ph = 0 then (0x85, True) else if ph < 4 then (0xC5, False) else (IDLE, False))
      else (IDLE, False))"

definition ghost_reply :: "ghost_args \<Rightarrow> nat \<Rightarrow> byte list \<Rightarrow> byte list" where
  "ghost_reply a tick p =
     (if ga_mirror a then drop 2 p
      else fst (ghost_cell a tick) # replicate (max (length p - 3) 1) 0)"

definition ghost_input :: "ghost_args \<Rightarrow> byte list \<Rightarrow> gstmt" where
  "ghost_input a p =
     bind_val (byte_at p 0) (\<lambda>lo.
     bind_val (byte_at p 1) (\<lambda>hi.
       let tick = le16 lo hi
       in seq (update (\<lambda>g. g\<lparr>gh_inputs := Suc (gh_inputs g), gh_max_tick := max (gh_max_tick g) tick\<rparr>))
          (seq (if \<not> ga_mirror a \<and> snd (ghost_cell a tick) then say (GhostPitches tick) else skip)
          (seq (\<lambda>g. if ga_mirror a \<and> gh_last g \<noteq> Some (drop 2 p)
                    then seq (update (\<lambda>g. g\<lparr>gh_last := Some (drop 2 p)\<rparr>)) (say (GhostInput tick (drop 2 p))) g
                    else (g, None))
               (send_msg T_INPUT ([lo, hi] @ ghost_reply a tick p))))))"

definition ghost_crc :: "byte list \<Rightarrow> gstmt" where
  "ghost_crc p =
     bind_val (byte_at p 0) (\<lambda>a.
     bind_val (byte_at p 1) (\<lambda>b.
     bind_val (byte_at p 2) (\<lambda>c.
     bind_val (byte_at p 3) (\<lambda>d.
       update (\<lambda>g. g\<lparr>gh_crcs := Suc (gh_crcs g), gh_crc_ticks := gh_crc_ticks g @ [(le16 a b, le16 c d)]\<rparr>)))))"

definition ghost_peer_left :: "real \<Rightarrow> gstmt" where
  "ghost_peer_left now =
     seq (say GhostPeerLeft) (update (\<lambda>g. g\<lparr>gh_deadline := min (gh_deadline g) (now + 1)\<rparr>))"

definition on_frame :: "ghost_args \<Rightarrow> real \<Rightarrow> byte \<Rightarrow> byte list \<Rightarrow> gstmt" where
  "on_frame a now t p g =
     (if t = T_LOBBY \<and> \<not> gh_matched g
      then bind_val (byte_at p 0) (\<lambda>count. ghost_lobby a (unat count) 0 p) g
      else if t = T_START then ghost_start p g
      else if t = T_INPUT then ghost_input a p g
      else if t = T_CRC then ghost_crc p g
      else if t = T_PEER_LEFT then ghost_peer_left now g
      else (g, None))"

section \<open>The loops\<close>

text \<open>
  The inner loop over the complete frames of the buffer. A length byte of 0 makes the next
  frame's length byte the type.
\<close>

function ghost_frames :: "ghost_args \<Rightarrow> real \<Rightarrow> byte list \<Rightarrow> ghost \<Rightarrow> byte list \<times> ghost \<times> sim_error option" where
  "ghost_frames a now buf g =
     (if buf \<noteq> [] \<and> length buf \<ge> unat (hd buf) + 1
      then (let n = unat (hd buf) + 1
            in case byte_at buf 1 of
                 Inl e \<Rightarrow> (buf, g, Some e)
               | Inr t \<Rightarrow>
                   (case on_frame a now t (take (n - 2) (drop 2 buf)) g of
                      (g', Some e) \<Rightarrow> (drop n buf, g', Some e)
                    | (g', None) \<Rightarrow> ghost_frames a now (drop n buf) g'))
      else (buf, g, None))"
  by pat_completeness auto
termination
  by (relation "measure (\<lambda>(a, now, buf, g). length buf)") auto

declare ghost_frames.simps [simp del]

datatype ghost_recv = GhostTimeout | GhostFails | GhostChunk "byte list"

text \<open>What a turn of the outer loop reads off the clock: in the loop's condition, for the
  lobby poll, when it notes the poll, and while it handles frames.\<close>

record ghost_clock =
  gc_loop :: real
  gc_poll :: real
  gc_stamp :: real
  gc_frames :: real

datatype ghost_next = GhostGoOn | GhostBreak | GhostRaise sim_error

definition ghost_poll :: "ghost_clock \<Rightarrow> gstmt" where
  "ghost_poll ck g =
     (if \<not> gh_matched g \<and> gc_poll ck - gh_last_list g > 1
      then seq (send_msg T_LIST []) (update (\<lambda>g. g\<lparr>gh_last_list := gc_stamp ck\<rparr>)) g
      else (g, None))"

definition ghost_turn ::
    "ghost_args \<Rightarrow> ghost_clock \<Rightarrow> ghost_recv \<Rightarrow> byte list \<Rightarrow> ghost \<Rightarrow> byte list \<times> ghost \<times> ghost_next" where
  "ghost_turn a ck r buf g =
     (if \<not> gc_loop ck < gh_deadline g then (buf, g, GhostBreak)
      else (case ghost_poll ck g of
              (g1, Some e) \<Rightarrow> (buf, g1, GhostRaise e)
            | (g1, None) \<Rightarrow>
                (case r of
                   GhostTimeout \<Rightarrow> (buf, g1, GhostGoOn)
                 | GhostFails \<Rightarrow> (buf, g1, GhostRaise SimOSError)
                 | GhostChunk [] \<Rightarrow> (buf, fst (say GhostClosed g1), GhostBreak)
                 | GhostChunk chunk \<Rightarrow>
                     (case ghost_frames a (gc_frames ck) (buf @ chunk) g1 of
                        (buf', g2, Some e) \<Rightarrow> (buf', g2, GhostRaise e)
                      | (buf', g2, None) \<Rightarrow>
                          (buf', g2, if int (gh_max_tick g2) \<ge> ga_want_ticks a then GhostBreak else GhostGoOn)))))"

fun ghost_run ::
    "ghost_args \<Rightarrow> (ghost_clock \<times> ghost_recv) list \<Rightarrow> byte list \<Rightarrow> ghost \<Rightarrow> byte list \<times> ghost \<times> ghost_next" where
  "ghost_run a [] buf g = (buf, g, GhostGoOn)"
| "ghost_run a ((ck, r) # ts) buf g =
     (case ghost_turn a ck r buf g of
        (buf', g', GhostGoOn) \<Rightarrow> ghost_run a ts buf' g'
      | (buf', g', x) \<Rightarrow> (buf', g', x))"

text \<open>The exit status of a run that ended: 0 when enough ticks and a CRC were seen.\<close>

definition ghost_passes :: "ghost_args \<Rightarrow> ghost \<Rightarrow> bool" where
  "ghost_passes a g \<longleftrightarrow> int (gh_max_tick g) \<ge> ga_want_ticks a \<and> gh_crcs g > 0"

end
