(* ===== verification/GhostProps.thy ===== *)
theory GhostProps
  imports Ghost
begin

text \<open>
  The scripted opponent keeps the console going: every INPUT is answered, whatever the
  stream's chunks; and it cannot meet the relay of this repository.
\<close>

section \<open>Frames and chunks\<close>

lemma ghost_frames_Cons:
  assumes "length p \<le> 254"
  shows "ghost_frames a now (enframe t p @ rest) g =
    (case on_frame a now t p g of
       (g', Some e) \<Rightarrow> (rest, g', Some e)
     | (g', None) \<Rightarrow> ghost_frames a now rest g')"
proof -
  have l: "unat (word_of_nat (Suc (length p)) :: byte) = Suc (length p)"
    by (rule byte_of_nat) (use assms in simp)
  show ?thesis
    by (subst ghost_frames.simps) (simp add: enframe_def l byte_at_def Let_def del: of_nat_Suc)
qed

lemma ghost_frames_wait:
  "tail = [] \<or> length tail \<le> unat (hd tail) \<Longrightarrow> ghost_frames a now tail g = (tail, g, None)"
  by (subst ghost_frames.simps) auto

text \<open>What has arrived of a stream of frames is whole frames and the beginning of one.\<close>

lemma frames_prefix:
  "x @ y = frames_out fs \<Longrightarrow> list_all (\<lambda>f. length (snd f) \<le> 254) fs \<Longrightarrow>
   \<exists>fs1 fs2 tail. fs = fs1 @ fs2 \<and> x = frames_out fs1 @ tail \<and> tail @ y = frames_out fs2 \<and>
     (tail = [] \<or> length tail \<le> unat (hd tail))"
proof (induction fs arbitrary: x)
  case Nil
  then show ?case by (intro exI [of _ "[]"]) (simp add: frames_out_def)
next
  case (Cons f fs)
  obtain t p where f: "f = (t, p)" by fastforce
  have p: "length p \<le> 254" using Cons.prems f by simp
  have l: "unat (word_of_nat (Suc (length p)) :: byte) = Suc (length p)"
    by (rule byte_of_nat) (use p in simp)
  have eq: "x @ y = enframe t p @ frames_out fs" using Cons.prems f by (simp add: frames_out_def)
  show ?case
  proof (cases "length (enframe t p) \<le> length x")
    case True
    then obtain x' where x: "x = enframe t p @ x'"
      using eq by (metis append_eq_append_conv_if append_take_drop_id)
    then have "x' @ y = frames_out fs" using eq by simp
    then obtain fs1 fs2 tail where "fs = fs1 @ fs2" "x' = frames_out fs1 @ tail"
      "tail @ y = frames_out fs2" "tail = [] \<or> length tail \<le> unat (hd tail)"
      using Cons.IH [of x'] Cons.prems by auto
    then show ?thesis
      using x f by (intro exI [of _ "f # fs1"] exI [of _ fs2] exI [of _ tail]) (simp add: frames_out_def)
  next
    case False
    have "x = [] \<or> length x \<le> unat (hd x)"
    proof (cases x)
      case (Cons b bs)
      then have "b = word_of_nat (Suc (length p))" using eq by (simp add: enframe_def)
      with False Cons l show ?thesis by simp
    qed simp
    with Cons.prems(1) show ?thesis
      by (intro exI [of _ "[]"] exI [of _ "f # fs"] exI [of _ x]) (simp add: frames_out_def)
  qed
qed

section \<open>Every INPUT is answered\<close>

definition answer :: "ghost_args \<Rightarrow> byte \<times> byte list \<Rightarrow> byte \<times> byte list" where
  "answer a f = (let p = snd f in (T_INPUT, take 2 p @ ghost_reply a (le16 (p ! 0) (p ! 1)) p))"

definition input_frame :: "byte \<times> byte list \<Rightarrow> bool" where
  "input_frame f \<longleftrightarrow> fst f = T_INPUT \<and> 2 \<le> length (snd f) \<and> length (snd f) \<le> 254"

definition tick_of :: "byte \<times> byte list \<Rightarrow> nat" where
  "tick_of f = le16 (snd f ! 0) (snd f ! 1)"

text \<open>What the answers leave alone.\<close>

definition answered :: "ghost_args \<Rightarrow> (byte \<times> byte list) list \<Rightarrow> ghost \<Rightarrow> ghost \<Rightarrow> bool" where
  "answered a fs g h \<longleftrightarrow>
     gh_sent h = gh_sent g @ frames_out (map (answer a) fs) \<and>
     gh_inputs h = gh_inputs g + length fs \<and>
     gh_max_tick h = fold max (map tick_of fs) (gh_max_tick g) \<and>
     gh_matched h = gh_matched g \<and> gh_deadline h = gh_deadline g \<and> gh_crcs h = gh_crcs g"

lemma answered_append: "answered a fs g h \<Longrightarrow> answered a gs h k \<Longrightarrow> answered a (fs @ gs) g k"
  by (simp add: answered_def frames_out_append)

lemma on_frame_input:
  assumes f: "input_frame f"
  shows "\<exists>h. on_frame a now (fst f) (snd f) g = (h, None) \<and> answered a [f] g h"
proof -
  let ?p = "snd f"
  have p: "2 \<le> length ?p" "length ?p \<le> 254" "fst f = T_INPUT" using f by (simp_all add: input_frame_def)
  obtain lo hi q where q: "?p = lo # hi # q" using p(1) by (cases ?p rule: remdups_adj.cases) auto
  have len: "length ([lo, hi] @ ghost_reply a (le16 lo hi) ?p) \<le> 254"
    using p(2) by (auto simp: ghost_reply_def q)
  have frame: "ghost_frame T_INPUT ([lo, hi] @ ghost_reply a (le16 lo hi) ?p) =
      Inr (enframe T_INPUT ([lo, hi] @ ghost_reply a (le16 lo hi) ?p))"
    using len by (simp add: ghost_frame_def enframe_def)
  have "on_frame a now T_INPUT ?p g = ghost_input a ?p g" by (simp add: on_frame_def T_defs)
  then show ?thesis
    using p(3) frame
    by (auto simp: ghost_input_def byte_at_def q Let_def seq_def update_def say_def skip_def send_msg_def
        transmit_def answered_def answer_def tick_of_def frames_out_def)
qed

lemma ghost_frames_input:
  "\<forall>f \<in> set fs. input_frame f \<Longrightarrow> tail = [] \<or> length tail \<le> unat (hd tail) \<Longrightarrow>
   \<exists>h. ghost_frames a now (frames_out fs @ tail) g = (tail, h, None) \<and> answered a fs g h"
proof (induction fs arbitrary: g)
  case Nil
  then show ?case by (simp add: frames_out_def ghost_frames_wait answered_def)
next
  case (Cons f fs)
  obtain h where h: "on_frame a now (fst f) (snd f) g = (h, None)" "answered a [f] g h"
    using on_frame_input [of f a now g] Cons.prems by auto
  obtain k where k: "ghost_frames a now (frames_out fs @ tail) h = (tail, k, None)" "answered a fs h k"
    using Cons.IH [of h] Cons.prems by auto
  have "ghost_frames a now (frames_out (f # fs) @ tail) g = (tail, k, None)"
    using ghost_frames_Cons [of "snd f" a now "fst f" "frames_out fs @ tail" g] Cons.prems h(1) k(1)
    by (simp add: frames_out_def input_frame_def split_beta)
  then show ?case using answered_append [OF h(2) k(2)] by simp
qed


text \<open>The clocks of a run are before the deadline, each receive delivers some bytes.\<close>

definition steady :: "ghost \<Rightarrow> (ghost_clock \<times> byte list) list \<Rightarrow> bool" where
  "steady g ts \<longleftrightarrow> (\<forall>(ck, c) \<in> set ts. gc_loop ck < gh_deadline g \<and> c \<noteq> [])"

definition turns_of :: "(ghost_clock \<times> byte list) list \<Rightarrow> (ghost_clock \<times> ghost_recv) list" where
  "turns_of ts = map (\<lambda>(ck, c). (ck, GhostChunk c)) ts"

lemma fold_max_le: "fold max ns (m :: nat) = max m (fold max ns 0)"
proof (induction ns arbitrary: m)
  case (Cons n ns)
  from Cons.IH [of "max n m"] Cons.IH [of n] show ?case by (simp add: max.left_commute max.commute)
qed simp

lemma ghost_run_inputs:
  "gh_matched g \<Longrightarrow> steady g ts \<Longrightarrow> \<forall>f \<in> set fs. input_frame f \<Longrightarrow>
   buf @ concat (map snd ts) = frames_out fs \<Longrightarrow>
   int (fold max (map tick_of fs) (gh_max_tick g)) < ga_want_ticks a \<Longrightarrow>
   buf = [] \<or> length buf \<le> unat (hd buf) \<Longrightarrow>
   \<exists>h. ghost_run a (turns_of ts) buf g = ([], h, GhostGoOn) \<and> answered a fs g h"
proof (induction ts arbitrary: buf fs g)
  case Nil
  have "fs = []"
  proof (cases fs)
    case (Cons f fs')
    obtain t p where f: "f = (t, p)" by fastforce
    have "length p \<le> 254" using Nil.prems(3) Cons f by (simp add: input_frame_def)
    then have "unat (word_of_nat (Suc (length p)) :: byte) = Suc (length p)" by (intro byte_of_nat) simp
    moreover have "buf = enframe t p @ frames_out fs'" using Nil.prems(4) Cons f by (simp add: frames_out_def)
    ultimately have "\<not> (buf = [] \<or> length buf \<le> unat (hd buf))" by (simp add: enframe_def)
    with Nil.prems(6) show ?thesis by simp
  qed
  moreover have "buf = []" using calculation Nil.prems(4) by (simp add: frames_out_def)
  ultimately show ?case by (simp add: turns_of_def answered_def frames_out_def)
next
  case (Cons t ts)
  obtain ck c where t: "t = (ck, c)" by fastforce
  have c: "c \<noteq> []" "gc_loop ck < gh_deadline g" using Cons.prems(2) t by (simp_all add: steady_def)
  have "list_all (\<lambda>f. length (snd f) \<le> 254) fs"
    using Cons.prems(3) by (simp add: list_all_iff input_frame_def)
  moreover have "(buf @ c) @ concat (map snd ts) = frames_out fs" using Cons.prems(4) t by simp
  ultimately obtain fs1 fs2 tail where split: "fs = fs1 @ fs2" "buf @ c = frames_out fs1 @ tail"
      "tail @ concat (map snd ts) = frames_out fs2" "tail = [] \<or> length tail \<le> unat (hd tail)"
    using frames_prefix by metis
  obtain h where h: "ghost_frames a (gc_frames ck) (frames_out fs1 @ tail) g = (tail, h, None)"
      "answered a fs1 g h"
    using ghost_frames_input [of fs1 tail a "gc_frames ck" g] Cons.prems(3) split(1,4) by auto
  have hg: "gh_matched h" "gh_deadline h = gh_deadline g" "gh_max_tick h = fold max (map tick_of fs1) (gh_max_tick g)"
    using h(2) Cons.prems(1) by (simp_all add: answered_def)
  have max: "fold max (map tick_of fs) (gh_max_tick g) = fold max (map tick_of fs2) (gh_max_tick h)"
    by (simp add: split(1) hg(3))
  have "gh_max_tick h \<le> fold max (map tick_of fs2) (gh_max_tick h)"
    by (subst fold_max_le) simp
  then have want: "\<not> int (gh_max_tick h) \<ge> ga_want_ticks a"
    using Cons.prems(5) unfolding max by linarith
  have turn: "ghost_turn a ck (GhostChunk c) buf g = (tail, h, GhostGoOn)"
    using c Cons.prems(1) h(1) want split(2)
    by (cases c) (simp_all add: ghost_turn_def ghost_poll_def)
  have "steady h ts" using Cons.prems(2) by (simp add: steady_def hg(2))
  then obtain k where k: "ghost_run a (turns_of ts) tail h = ([], k, GhostGoOn)" "answered a fs2 h k"
    using Cons.IH [OF hg(1) _ _ split(3)] Cons.prems(3,5) split(1,4) unfolding max by auto
  show ?case
    using turn k(1) answered_append [OF h(2) k(2)] by (simp add: turns_of_def t split(1))
qed

text \<open>C34. The ghost never lets the console stall once it is in a match: when the console sends
  INPUT frames and no others, each with at least a tick, the deadline has not passed at any
  turn and no frame reaches the tick the ghost waits for, then however the frames arrive cut
  into chunks each is answered by exactly one INPUT frame of the same tick, in order, and
  nothing else is sent.\<close>

theorem ghost_answers:
  assumes "gh_matched g" and "steady g ts" and "\<forall>f \<in> set fs. input_frame f"
    and "concat (map snd ts) = frames_out fs"
    and "int (fold max (map tick_of fs) (gh_max_tick g)) < ga_want_ticks a"
  shows "\<exists>h. ghost_run a (turns_of ts) [] g = ([], h, GhostGoOn) \<and>
     gh_sent h = gh_sent g @ frames_out (map (answer a) fs) \<and>
     map (\<lambda>f. (fst f, tick_of f)) (map (answer a) fs) = map (\<lambda>f. (T_INPUT, tick_of f)) fs \<and>
     gh_inputs h = gh_inputs g + length fs \<and> gh_matched h"
proof -
  obtain h where h: "ghost_run a (turns_of ts) [] g = ([], h, GhostGoOn)" "answered a fs g h"
    using ghost_run_inputs [OF assms(1-3), of "[]" a] assms(4,5) by auto
  have "tick_of (answer a f) = tick_of f" if "f \<in> set fs" for f
    using assms(3) that by (auto simp: input_frame_def tick_of_def answer_def Let_def nth_append)
  then have "map (\<lambda>f. (fst f, tick_of f)) (map (answer a) fs) = map (\<lambda>f. (T_INPUT, tick_of f)) fs"
    by (simp add: answer_def Let_def)
  with h assms(1) show ?thesis by (auto simp: answered_def)
qed

definition demo_ghost :: ghost where
  "demo_ghost = \<lparr>gh_matched = True, gh_last_list = 0, gh_inputs = 0, gh_crcs = 0, gh_max_tick = 0,
     gh_crc_ticks = [], gh_deadline = 100, gh_last = None, gh_sent = [], gh_log = []\<rparr>"

definition demo_ghost_args :: ghost_args where
  "demo_ghost_args = \<lparr>ga_name = str_of ''GHOST1'', ga_want_ticks = 1000, ga_timeout = 100,
     ga_mirror = False, ga_pitch_at = 8\<rparr>"

definition demo_clock :: ghost_clock where
  "demo_clock = \<lparr>gc_loop = 1, gc_poll = 1, gc_stamp = 1, gc_frames = 1\<rparr>"

theorem ghost_answers_witness:
  "\<exists>h. ghost_run demo_ghost_args (turns_of [(demo_clock, [5, 6, 7]), (demo_clock, [0, 0x42, 0])]) [] demo_ghost =
       ([], h, GhostGoOn) \<and>
     gh_sent h = gh_sent demo_ghost @ frames_out (map (answer demo_ghost_args) [(T_INPUT, [7, 0, 0x42, 0])]) \<and>
     map (\<lambda>f. (fst f, tick_of f)) (map (answer demo_ghost_args) [(T_INPUT, [7, 0, 0x42, 0])]) =
       map (\<lambda>f. (T_INPUT, tick_of f)) [(T_INPUT, [7, 0, 0x42, 0])] \<and>
     gh_inputs h = gh_inputs demo_ghost + length [(T_INPUT, [7, 0, 0x42, 0 :: byte])] \<and> gh_matched h"
  by (rule ghost_answers)
    (simp_all add: demo_ghost_def demo_clock_def demo_ghost_args_def steady_def input_frame_def frames_out_def
      enframe_def T_defs tick_of_def le16_eq)

section \<open>The ghost and the relay\<close>

lemma nth_concat_const:
  "\<forall>x \<in> set xs. length (f x) = k \<Longrightarrow> i < length xs \<Longrightarrow> j < k \<Longrightarrow>
   concat (map f xs) ! (k * i + j) = f (xs ! i) ! j"
proof (induction xs arbitrary: i)
  case (Cons x xs)
  then show ?case
  proof (cases i)
    case (Suc n)
    have "k * i + j = k + (k * n + j)" by (simp add: Suc)
    then show ?thesis using Cons Suc by (simp add: nth_append)
  qed (simp add: nth_append)
qed simp

lemma status_positive:
  assumes inv: "winv {} s"
  shows "0 < status s c \<and> status s c < 256"
proof -
  have "0 < status s c"
  proof (cases "room_of s c")
    case (Some r)
    have "rooms_ok s" using inv by (simp add: winv_def)
    then have "c \<in> set (members s r)" using roomsD(2) [of s] Some by simp
    then have "0 < length (members s r)" by (cases "members s r") auto
    then have "0 < x OR length (members s r)" for x by (simp add: or_eq_0_iff zero_less_iff_neq_zero)
    then show ?thesis by (simp add: status_def Some Let_def)
  qed (simp add: status_def)
  with status_le [OF inv, of c] show ?thesis by simp
qed

lemma ghost_lobby_nobody:
  assumes "\<forall>j < k. i + j < n \<and> 9 + (i + j) * 9 < length p \<and> p ! (9 + (i + j) * 9) \<noteq> 0"
  shows "ghost_lobby a k i p = skip"
  using assms
proof (induction k arbitrary: i)
  case (Suc k)
  have "ghost_lobby a k (Suc i) p = skip"
  proof (rule Suc.IH, intro allI impI)
    fix j assume "j < k"
    then show "Suc i + j < n \<and> 9 + (Suc i + j) * 9 < length p \<and> p ! (9 + (Suc i + j) * 9) \<noteq> 0"
      using Suc.prems [rule_format, of "Suc j"] by simp
  qed
  with Suc.prems [rule_format, of 0] show ?case by (simp add: byte_at_def Let_def)
qed simp

text \<open>A listing has no entry with status 0, the one the ghost looks for.\<close>

lemma ghost_lobby_idle:
  assumes inv: "winv {} s"
  shows "on_frame a now T_LOBBY (lobby_payload s c) g = (g, None)"
proof -
  let ?l = "listed s c"
  let ?f = "\<lambda>k. name8 (the (name_of s k)) @ [word_of_nat (status s k)]"
  let ?p = "lobby_payload s c"
  have named: "length (name8 (the (name_of s k))) = 8" if "k \<in> set ?l" for k
    using listed_named [OF that] inv by (auto simp: length_name8 valid_name_def winv_def names_ok_def)
  then have nine: "\<forall>k \<in> set ?l. length (?f k) = 9" by simp
  have n: "length ?l \<le> 8" by (rule length_listed)
  have len: "length ?p = 1 + 9 * length ?l"
    using length_concat_const [of ?l ?f 9] nine by (simp add: lobby_payload_def)
  have "9 + i * 9 < length ?p \<and> ?p ! (9 + i * 9) \<noteq> 0" if i: "i < length ?l" for i
  proof -
    have "?p ! (9 + i * 9) = concat (map ?f ?l) ! (9 * i + 8)"
      by (simp add: lobby_payload_def mult.commute eval_nat_numeral)
    also have "\<dots> = ?f (?l ! i) ! 8" by (rule nth_concat_const [OF nine i]) simp
    also have "\<dots> = word_of_nat (status s (?l ! i))"
      using named [of "?l ! i"] i by (simp add: nth_append)
    finally have p: "?p ! (9 + i * 9) = word_of_nat (status s (?l ! i))" .
    have "unat (word_of_nat (status s (?l ! i)) :: byte) \<noteq> 0"
      using status_positive [OF inv, of "?l ! i"] by simp
    then have "?p ! (9 + i * 9) \<noteq> 0" unfolding p by auto
    moreover have "9 + i * 9 < length ?p" unfolding len using i by simp
    ultimately show ?thesis by blast
  qed
  then have "ghost_lobby a (length ?l) 0 ?p = skip"
    by (intro ghost_lobby_nobody [of _ _ "length ?l"]) simp
  moreover have "?p ! 0 = word_of_nat (length ?l)" "0 < length ?p"
    by (simp_all add: lobby_payload_def)
  ultimately show "on_frame a now T_LOBBY ?p g = (g, None)"
    using n by (simp add: on_frame_def byte_at_def T_defs skip_def)
qed

text \<open>C35. The ghost cannot play on this relay. The one frame it sends before its loop is a HELLO
  that the relay refuses with a \<open>ProtocolError\<close> in every state and from every client, since
  it carries protocol version 1; and if the ghost were in the lobby, with a socket that does
  not fail and room in its transmit buffer, the LOBBY frame the relay answers its LIST with
  would not make it do anything, since it looks for an entry with status 0.\<close>

theorem ghost_shut_out:
  assumes inv: "winv {} s" and h: "healthy s c 75" and g0: "ghost_init a now0 = Inr g0"
  shows "(\<exists>p. gh_sent g0 = enframe T_HELLO p \<and>
        (\<forall>k x. \<exists>e. handle k T_HELLO p x = (x, Some (ProtocolError e)))) \<and>
     (\<exists>t p. handle c T_LIST payload s = (t, None) \<and>
        out_of t c = out_of s c @ enframe T_LOBBY p \<and> on_frame a now T_LOBBY p g = (g, None))"
proof
  obtain nm where nm: "gh_sent g0 = enframe T_HELLO (1 # nm)"
    using g0 by (auto simp: ghost_init_def ghost_frame_def enframe_def Let_def split: sum.splits if_splits)
  have "unat (1 :: byte) \<noteq> PROTO_VER" by (simp add: PROTO_VER_def)
  then have "\<exists>e. handle k T_HELLO (1 # nm) x = (x, Some (ProtocolError e))" for k x
    by (auto simp: handle_def RELAY_TYPES_def T_defs on_hello_def raise_def)
  with nm show "\<exists>p. gh_sent g0 = enframe T_HELLO p \<and>
      (\<forall>k x. \<exists>e. handle k T_HELLO p x = (x, Some (ProtocolError e)))" by blast
  obtain t where "handle c T_LIST payload s = (t, None)"
      "wrote (\<lambda>k. if k = c then enframe T_LOBBY (lobby_payload s c) else []) s t"
    using list_sends [OF inv h] by blast
  then show "\<exists>t p. handle c T_LIST payload s = (t, None) \<and>
      out_of t c = out_of s c @ enframe T_LOBBY p \<and> on_frame a now T_LOBBY p g = (g, None)"
    using wroteD(1) [of _ s t c] ghost_lobby_idle [OF inv, of a now c g] by fastforce
qed

theorem ghost_shut_out_witness:
  "\<exists>g0. ghost_init demo_ghost_args 5 = Inr g0 \<and>
     (\<exists>p. gh_sent g0 = enframe T_HELLO p \<and>
        (\<forall>k x. \<exists>e. handle k T_HELLO p x = (x, Some (ProtocolError e)))) \<and>
     (\<exists>t p. handle 2 T_LIST [] demo_room = (t, None) \<and>
        out_of t 2 = out_of demo_room 2 @ enframe T_LOBBY p \<and>
        on_frame demo_ghost_args 0 T_LOBBY p (demo_ghost\<lparr>gh_matched := False\<rparr>) =
          (demo_ghost\<lparr>gh_matched := False\<rparr>, None))"
proof -
  obtain g0 where g0: "ghost_init demo_ghost_args 5 = Inr g0"
    by (simp add: ghost_init_def demo_ghost_args_def utf8_encode_def utf8_char_def str_of_def ghost_frame_def)
  have "healthy demo_room 2 75" by (simp add: demo_eval)
  from ghost_shut_out [OF demo_invs(2) this g0] g0 show ?thesis by blast
qed

end
