(* ===== verification/Bench.thy ===== *)
theory Bench
  imports Ghost
begin

text \<open>
  A relay with test clients on it, as the test tools run one: the model of the server in
  its event loop, and the clients a script has opened. The clients and the relay share one
  machine, so a client's bytes reach the relay in one read and before the script goes on,
  and the relay's sockets take what is sent as their scripts say. The relay's clock stands
  still while a script works; it moves when a script waits.
\<close>

section \<open>State\<close>

record cli =
  ck_name :: pystr
  ck_cid :: "cid option"
  ck_buf :: "byte list"
  ck_read :: nat

text \<open>
  \<open>bn_sock\<close> is the behaviour of the sockets the relay accepts, \<open>bn_port\<close> the next local
  port, \<open>bn_now\<close> the relay's clock.
\<close>

record bench =
  bn_loop :: loop
  bn_clis :: "cli list"
  bn_sock :: "send_res list"
  bn_port :: nat
  bn_now :: real

type_synonym prog = "(bench, sim_error) stmt"

definition LOCALHOST :: nat where "LOCALHOST = 0x7F000001"

abbreviation bn_server :: "bench \<Rightarrow> server" where
  "bn_server b \<equiv> rl_server (lp_relay (bn_loop b))"

definition bench_init :: "server \<Rightarrow> send_res list \<Rightarrow> bench" where
  "bench_init s sock = \<lparr>bn_loop = loop_init s 0, bn_clis = [], bn_sock = sock, bn_port = 32768, bn_now = 0\<rparr>"

section \<open>The network\<close>

text \<open>One turn of the relay's loop with one event; a relay that has crashed answers nobody.\<close>

definition feed :: "event \<Rightarrow> prog" where
  "feed e b =
     (case turn ([e], bn_now b) (bn_loop b) of
        (l, None) \<Rightarrow> (b\<lparr>bn_loop := l\<rparr>, None)
      | (l, Some _) \<Rightarrow> (b\<lparr>bn_loop := l\<rparr>, Some SimOSError))"

text \<open>A turn in which no socket was ready.\<close>

definition wait_until :: "real \<Rightarrow> prog" where
  "wait_until t b =
     (case turn ([], t) (bn_loop b) of
        (l, None) \<Rightarrow> (b\<lparr>bn_loop := l, bn_now := t\<rparr>, None)
      | (l, Some _) \<Rightarrow> (b\<lparr>bn_loop := l, bn_now := t\<rparr>, Some SimOSError))"

definition upd_cli :: "nat \<Rightarrow> (cli \<Rightarrow> cli) \<Rightarrow> bench \<Rightarrow> bench" where
  "upd_cli i f b = b\<lparr>bn_clis := (bn_clis b)[i := f (bn_clis b ! i)]\<rparr>"

definition alive :: "bench \<Rightarrow> nat \<Rightarrow> cid option" where
  "alive b i = (case ck_cid (bn_clis b ! i) of None \<Rightarrow> None
     | Some c \<Rightarrow> if dead (bn_server b) c then None else Some c)"

text \<open>\<^verbatim>\<open>create_connection\<close>: the relay accepts or turns away; the client cannot tell yet.\<close>

definition dial :: "pystr \<Rightarrow> prog" where
  "dial name b =
     (let fresh = sv_next_cl (bn_server b)
      in seq (feed (Accepted (LOCALHOST, bn_port b) (bn_now b) (bn_sock b)))
             (update (\<lambda>b'. b'\<lparr>bn_port := Suc (bn_port b'),
                bn_clis := bn_clis b' @ [\<lparr>ck_name = name,
                  ck_cid = (if sv_next_cl (bn_server b') = fresh then None else Some fresh),
                  ck_buf = [], ck_read = 0\<rparr>]\<rparr>)) b)"

text \<open>\<^verbatim>\<open>sendall\<close> on the socket of client \<open>i\<close>.\<close>

definition push :: "nat \<Rightarrow> byte list \<Rightarrow> prog" where
  "push i data b =
     (if data = [] then (b, None)
      else (case alive b i of None \<Rightarrow> (b, Some SimOSError)
        | Some c \<Rightarrow> feed (Ready c False (Some (RecvData data))) b))"

definition hang_up :: "nat \<Rightarrow> prog" where
  "hang_up i b =
     (case alive b i of None \<Rightarrow> (b, None)
      | Some c \<Rightarrow> feed (Ready c False (Some (RecvData []))) b)"

text \<open>What \<^verbatim>\<open>recv(4096)\<close> will return, call by call: the bytes on the wire that the client
  has not read, and the end of the stream once the relay has closed.\<close>

function pieces :: "byte list \<Rightarrow> byte list list" where
  "pieces bs = (if bs = [] then [] else take 4096 bs # pieces (drop 4096 bs))"
  by pat_completeness auto
termination
  by (relation "measure length") auto

declare pieces.simps [simp del]

definition on_wire :: "bench \<Rightarrow> nat \<Rightarrow> byte list" where
  "on_wire b i = (case ck_cid (bn_clis b ! i) of None \<Rightarrow> []
     | Some c \<Rightarrow> cl_wire (sv_cl (bn_server b) c))"

definition incoming :: "bench \<Rightarrow> nat \<Rightarrow> byte list list" where
  "incoming b i =
     pieces (drop (ck_read (bn_clis b ! i)) (on_wire b i)) @ (if alive b i = None then [[]] else [])"

text \<open>All clients have read what is on the wire for them.\<close>

definition all_read :: "bench \<Rightarrow> bench" where
  "all_read b = fold (\<lambda>i. upd_cli i (\<lambda>c. c\<lparr>ck_read := length (on_wire b i)\<rparr>)) [0..<length (bn_clis b)] b"

section \<open>What the scripts are made of\<close>

definition received :: "nat \<Rightarrow> (sim_error + byte \<times> byte list \<Rightarrow> prog) \<Rightarrow> prog" where
  "received i k b =
     (case recv_frame (ck_buf (bn_clis b ! i)) (incoming b i) of
        (r, buf, cs) \<Rightarrow>
          k r (upd_cli i (\<lambda>c. c\<lparr>ck_buf := buf,
            ck_read := length (on_wire b i) - length (concat cs)\<rparr>) b))"

definition check :: "bool \<Rightarrow> prog" where
  "check ok = (if ok then skip else raise SimAssertion)"

text \<open>\<^verbatim>\<open>expect\<close>, with what the script does with the payload.\<close>

definition expecting :: "nat \<Rightarrow> byte \<Rightarrow> (byte list \<Rightarrow> prog) \<Rightarrow> prog" where
  "expecting i ftype k =
     received i (\<lambda>r. bind_val r (\<lambda>(t, p). if t = ftype then k p else raise SimAssertion))"

abbreviation any :: "byte list \<Rightarrow> prog" where "any \<equiv> (\<lambda>_. skip)"

definition expect_silence :: "nat \<Rightarrow> prog" where
  "expect_silence i =
     received i (\<lambda>r. case r of Inr _ \<Rightarrow> raise SimAssertion
       | Inl e \<Rightarrow> if e = SimTimeout then skip else raise e)"

definition say_frame :: "nat \<Rightarrow> byte \<Rightarrow> byte list \<Rightarrow> prog" where
  "say_frame i t p = bind_val (sim_frame t p) (push i)"

text \<open>\<^verbatim>\<open>Cli(name, ver)\<close>; the new client's index is the number of clients before it.\<close>

definition open_cli :: "pystr \<Rightarrow> byte \<Rightarrow> prog" where
  "open_cli name ver b =
     seq (dial name)
         (bind_val (utf8_encode name) (\<lambda>nm. say_frame (length (bn_clis b)) T_HELLO (ver # nm))) b"

definition ask_lobby :: "nat \<Rightarrow> (byte list \<Rightarrow> prog) \<Rightarrow> prog" where
  "ask_lobby i k = seq (say_frame i T_LIST []) (expecting i T_LOBBY k)"

definition status_is :: "nat \<Rightarrow> pystr \<Rightarrow> nat \<Rightarrow> prog" where
  "status_is i name n =
     ask_lobby i (\<lambda>p. bind_val (lobby_status p name)
       (\<lambda>s. case s of None \<Rightarrow> raise SimAssertion | Some b \<Rightarrow> check (unat b = n)))"

definition say_join :: "nat \<Rightarrow> pystr \<Rightarrow> prog" where
  "say_join i name = bind_val (pad name) (say_frame i T_JOIN)"

text \<open>A count in byte \<open>i\<close> of a payload, and the names at the head of a roster.\<close>

definition count_at :: "byte list \<Rightarrow> nat \<Rightarrow> nat \<Rightarrow> prog" where
  "count_at p i n = bind_val (byte_at p i) (\<lambda>b. check (unat b = n))"

definition roster_is :: "byte list \<Rightarrow> pystr list \<Rightarrow> prog" where
  "roster_is raw names =
     bind_val (roster_names raw) (\<lambda>ns. check (take (length names) ns = names))"

text \<open>The connection \<^verbatim>\<open>start_server\<close> makes to see whether the relay is up.\<close>

definition probe :: prog where
  "probe b =
     (let fresh = sv_next_cl (bn_server b)
      in seq (feed (Accepted (LOCALHOST, bn_port b) (bn_now b) (bn_sock b)))
         (seq (update (\<lambda>b'. b'\<lparr>bn_port := Suc (bn_port b')\<rparr>))
              (\<lambda>b'. if sv_next_cl (bn_server b') = fresh then (b', None)
                    else feed (Ready fresh False (Some (RecvData []))) b')) b)"

definition block :: "prog list \<Rightarrow> prog" where
  "block = for_each (\<lambda>p. p)"

end
