(* ===== verification/Gate.thy ===== *)
theory Gate
  imports Bench
begin

text \<open>
  The acceptance test of \<^verbatim>\<open>tools/bbnet_client_sim.py\<close> as programs over the test bench: the
  scenarios with their assertions, for any number of seats, and the checks of the server's
  log at the end. A script's \<^verbatim>\<open>time.sleep\<close> has no counterpart, since the relay has always
  answered before the script goes on.
\<close>

section \<open>The names and the roles\<close>

definition ROOM_NAMES :: "string list" where "ROOM_NAMES = [''ALICE'', ''BOB'', ''CAROL'', ''DAVE'']"

text \<open>
  Clients are numbered in the order the script opens them; \<open>room_clis\<close> is its list
  \<^verbatim>\<open>clis\<close>, \<open>eve\<close> the outsider.
\<close>

definition room_names :: "nat \<Rightarrow> pystr list" where
  "room_names seats = map str_of (take seats ROOM_NAMES)"

definition room_clis :: "nat \<Rightarrow> nat list" where "room_clis seats = 0 # [2..<Suc seats]"
definition eve :: "nat \<Rightarrow> nat" where "eve seats = Suc seats"

section \<open>The main scenario\<close>

abbreviation each :: "nat list \<Rightarrow> (nat \<Rightarrow> prog) \<Rightarrow> prog" where "each xs f \<equiv> for_each f xs"

text \<open>Part 1: hello, the refusal of version 1, and everyone enters.\<close>

definition main_hello :: "nat \<Rightarrow> prog" where
  "main_hello seats = block
     [open_cli (str_of ''ALICE'') 2,
      expecting 0 T_LOBBY (\<lambda>p. count_at p 0 0),
      open_cli (str_of ''OLDGUY'') 1,
      received 1 (\<lambda>r. case r of Inr _ \<Rightarrow> raise SimAssertion
        | Inl e \<Rightarrow> if e \<in> {SimEOF, SimOSError, SimTimeout} then skip else raise e),
      hang_up 1,
      for_each (\<lambda>n. open_cli n 2) (tl (room_names seats)),
      each (tl (room_clis seats)) (\<lambda>c. expecting c T_LOBBY any),
      open_cli (str_of ''EVE'') 2,
      expecting (eve seats) T_LOBBY any]"

text \<open>Parts 2 and 3: joins build a room, and the room's status.\<close>

definition expect_room :: "nat list \<Rightarrow> nat \<Rightarrow> pystr list \<Rightarrow> prog" where
  "expect_room clis n names = each clis (\<lambda>c. expecting c T_ROOM (\<lambda>p.
     block [count_at p 0 n, roster_is (take 32 (drop 1 p)) names]))"

definition main_join :: "nat \<Rightarrow> prog" where
  "main_join seats =
     (let clis = room_clis seats; names = room_names seats; e = eve seats
      in block
     [status_is e (str_of ''ALICE'') (st seats 1),
      say_join (clis ! 1) (str_of ''ALICE''),
      expect_room (take 2 clis) 2 (take 2 names),
      status_is e (str_of ''ALICE'') (st seats 2),
      status_is e (str_of ''BOB'') (st seats 2),
      if seats \<ge> 3
      then block [say_join (clis ! 2) (str_of ''BOB''), expect_room (take 3 clis) 3 (take 3 names)]
      else skip,
      each [3..<seats] (\<lambda>i. block
        [say_join (clis ! i) (str_of ''ALICE''),
         each (take (Suc i) clis) (\<lambda>c. expecting c T_ROOM (\<lambda>p. count_at p 0 (Suc i)))])])"

text \<open>Part 7a, the full room; part 4, GO and START; parts 2b and 7b, the started room.\<close>

definition refused :: "nat \<Rightarrow> pystr \<Rightarrow> prog" where
  "refused i name = seq (say_join i name) (expecting i T_LOBBY any)"

text \<open>One START: the checks, and the seed, which the next seat must share.\<close>

fun expect_starts :: "nat \<Rightarrow> pystr list \<Rightarrow> (byte \<times> byte) list \<Rightarrow> nat \<Rightarrow> nat list \<Rightarrow> prog" where
  "expect_starts seats names seeds i [] = check (length (remdups seeds) = 1)"
| "expect_starts seats names seeds i (c # cs) =
     expecting c T_START (\<lambda>p.
       seq (check (length p = 37))
      (seq (count_at p 0 i)
      (seq (count_at p 1 seats)
      (seq (check (p ! 4 \<ge> 1))
      (seq (roster_is (take 32 (drop 5 p)) names)
           (expect_starts seats names ((p ! 2, p ! 3) # seeds) (Suc i) cs))))))"

definition main_start :: "nat \<Rightarrow> prog" where
  "main_start seats =
     (let clis = room_clis seats; e = eve seats
      in block
     [status_is e (str_of ''ALICE'') (0x80 OR seats),
      refused e (str_of ''ALICE''),
      say_frame (clis ! 1) T_GO [],
      say_frame (clis ! 0) T_GO [],
      expect_starts seats (room_names seats) [] 0 clis,
      status_is e (str_of ''ALICE'') (0x80 OR seats),
      refused e (str_of ''ALICE'')])"

text \<open>Part 5: INPUT and STATE reach all others, verbatim.\<close>

definition expect_same :: "nat list \<Rightarrow> byte \<Rightarrow> byte list \<Rightarrow> prog" where
  "expect_same clis t data = each clis (\<lambda>c. expecting c t (\<lambda>p. check (p = data)))"

definition main_input :: "nat \<Rightarrow> prog" where
  "main_input seats =
     (let clis = room_clis seats
      in block
     [say_frame (clis ! 0) T_INPUT [0, 5, 0, 0x44, 0],
      expect_same (tl clis) T_INPUT [0, 5, 0, 0x44, 0],
      expect_silence (clis ! 0),
      say_frame (clis ! 0) T_STATE [0, 0xFF, 9, 0],
      expect_same (tl clis) T_STATE [0, 0xFF, 9, 0]])"

text \<open>Part 6: four agreed CRC rounds, then a mismatch.\<close>

definition say_crc :: "nat \<Rightarrow> nat \<Rightarrow> nat \<Rightarrow> nat \<Rightarrow> prog" where
  "say_crc i sn tick val =
     say_frame i T_CRC [word_of_nat sn, word_of_nat (lo8 tick), word_of_nat (hi8 tick),
       word_of_nat (lo8 val), word_of_nat (hi8 val)]"

definition crc_exchange :: "nat \<Rightarrow> nat \<Rightarrow> (nat \<Rightarrow> nat) \<Rightarrow> prog" where
  "crc_exchange seats tick val =
     (let clis = room_clis seats
      in seq (for_each (\<lambda>(sn, c). say_crc c sn tick (val sn)) (enumerate 0 clis))
             (each clis (\<lambda>c. for_each (\<lambda>_. expecting c T_CRC any) [0..<seats - 1])))"

definition main_crc :: "nat \<Rightarrow> prog" where
  "main_crc seats = block
     [for_each (\<lambda>rnd. crc_exchange seats (64 * (rnd + 1)) (\<lambda>_. 0xBEEF)) [0..<4],
      crc_exchange seats 320 (\<lambda>sn. if sn = 1 then 0x2222 else 0x1111)]"

text \<open>Part 10: seat 1 of a running match walks out.\<close>

definition main_drop :: "nat \<Rightarrow> prog" where
  "main_drop seats =
     (let clis = room_clis seats; e = eve seats
      in block
     [hang_up (clis ! 1),
      each (clis ! 0 # drop 2 clis) (\<lambda>c. expecting c T_PEER_LEFT (\<lambda>p.
        seq (count_at p 0 1) (check (rstrip_nul (take 8 (drop 1 p)) = map word_of_nat (str_of ''BOB''))))),
      status_is e (str_of ''ALICE'') 1,
      for_each (\<lambda>(c, n). status_is e n 1) (zip (drop 2 clis) (drop 2 (room_names seats))),
      hang_up e,
      each (drop 2 clis) hang_up])"

text \<open>Part 8: a guest leaves before the start; part 9: then the host does.\<close>

definition main_guest :: "nat \<Rightarrow> prog" where
  "main_guest seats =
     (let host = 0; g1 = seats + 2
      in block
     [open_cli (str_of ''GUESTA'') 2, expecting g1 T_LOBBY any,
      say_join g1 (str_of ''ALICE''),
      expecting host T_ROOM any, expecting g1 T_ROOM any])"

definition main_reseat :: "nat \<Rightarrow> prog" where
  "main_reseat seats =
     (let host = 0; g1 = seats + 2; g2 = seats + 3
      in if seats \<ge> 3
         then block
           [open_cli (str_of ''GUESTB'') 2, expecting g2 T_LOBBY any,
            say_join g2 (str_of ''ALICE''),
            each [host, g1, g2] (\<lambda>c. expecting c T_ROOM any),
            hang_up g1,
            expecting host T_ROOM (\<lambda>p. block [count_at p 0 2,
              roster_is (take 32 (drop 1 p)) [str_of ''ALICE'', str_of ''GUESTB'']]),
            expecting g2 T_ROOM any]
         else block
           [hang_up g1,
            expecting host T_ROOM (\<lambda>p. count_at p 0 0),
            open_cli (str_of ''GUESTC'') 2, expecting g2 T_LOBBY any,
            say_join g2 (str_of ''ALICE''),
            expecting host T_ROOM any, expecting g2 T_ROOM any])"

definition main_host :: "nat \<Rightarrow> prog" where
  "main_host seats =
     (let host = 0; tail = seats + 3
      in block [hang_up host, expecting tail T_ROOM (\<lambda>p. count_at p 0 0), hang_up tail])"

definition main_parts :: "nat \<Rightarrow> prog list" where
  "main_parts seats = [main_hello seats, main_join seats, main_start seats, main_input seats,
     main_crc seats, main_drop seats, main_guest seats, main_reseat seats, main_host seats]"

definition scenario_main :: "nat \<Rightarrow> prog" where
  "scenario_main seats = block (probe # main_parts seats)"

text \<open>The lines the server must have logged by then.\<close>

definition main_wants :: "log_event list \<Rightarrow> bool" where
  "main_wants entries \<longleftrightarrow>
     list_ex (\<lambda>e. case e of LMatch _ _ _ \<Rightarrow> True | _ \<Rightarrow> False) entries \<and>
     list_ex (\<lambda>e. case e of LCrcMismatch t _ \<Rightarrow> t = 320 | _ \<Rightarrow> False) entries \<and>
     list_ex (\<lambda>e. case e of LCrcOk _ n \<Rightarrow> n = 4 | _ \<Rightarrow> False) entries \<and>
     list_ex (\<lambda>e. case e of LBackToLobby _ \<Rightarrow> True | _ \<Rightarrow> False) entries"

section \<open>The scenarios with automatic start\<close>

definition scenario_autogo :: prog where
  "scenario_autogo = block
     [probe,
      open_cli (str_of ''EVE'') 2, expecting 0 T_LOBBY any,
      open_cli (str_of ''FRANK'') 2, expecting 1 T_LOBBY any,
      say_join 1 (str_of ''EVE''),
      expecting 0 T_ROOM any, expecting 1 T_ROOM any,
      expecting 0 T_START (\<lambda>pa. expecting 1 T_START (\<lambda>pb.
        block [count_at pa 0 0, count_at pb 0 1, count_at pa 1 2, count_at pb 1 2])),
      hang_up 0, hang_up 1]"

text \<open>
  \<^verbatim>\<open>while True\<close> until a START arrives. Every frame takes at least a byte of what is
  pending, so the number of bytes pending bounds the turns.
\<close>

fun await_start_within :: "nat \<Rightarrow> nat \<Rightarrow> (byte list \<Rightarrow> prog) \<Rightarrow> prog" where
  "await_start_within 0 i k = raise SimTimeout"
| "await_start_within (Suc n) i k =
     received i (\<lambda>r. bind_val r (\<lambda>(t, p). if t = T_START then k p else await_start_within n i k))"

definition await_start :: "nat \<Rightarrow> (byte list \<Rightarrow> prog) \<Rightarrow> prog" where
  "await_start i k b =
     await_start_within (Suc (length (ck_buf (bn_clis b ! i)) + length (on_wire b i))) i k b"

text \<open>
  \<^verbatim>\<open>drain_lobby\<close>, which no scenario calls: the last of the LOBBY frames that are waiting;
  another frame is put back.
\<close>

fun drain_lobby_within :: "nat \<Rightarrow> nat \<Rightarrow> byte list option \<Rightarrow> (byte list option \<Rightarrow> prog) \<Rightarrow> prog" where
  "drain_lobby_within 0 i seen k = k seen"
| "drain_lobby_within (Suc n) i seen k =
     received i (\<lambda>r. case r of
         Inl e \<Rightarrow> if e = SimTimeout then k seen else raise e
       | Inr (t, p) \<Rightarrow>
           if t = T_LOBBY then drain_lobby_within n i (Some p) k
           else bind_val (sim_frame t p) (\<lambda>d.
                  seq (update (upd_cli i (\<lambda>c. c\<lparr>ck_buf := d @ ck_buf c\<rparr>))) (k seen)))"

definition drain_lobby :: "nat \<Rightarrow> (byte list option \<Rightarrow> prog) \<Rightarrow> prog" where
  "drain_lobby i k b =
     drain_lobby_within (Suc (length (ck_buf (bn_clis b ! i)) + length (on_wire b i))) i None k b"

text \<open>\<^verbatim>\<open>f"P{i + 1}{chr(ord('A') + i) * 2}"\<close>, for up to four players.\<close>

definition full_name :: "nat \<Rightarrow> pystr" where
  "full_name i = [80, 49 + i, 65 + i, 65 + i]"

definition scenario_full :: "nat \<Rightarrow> prog" where
  "scenario_full seats =
     (let clis = [0..<seats]; pnames = map full_name clis; e = seats; sender = seats - 1;
          msg = [word_of_nat sender, 7, 0, 0x40, 0]
      in block
     [probe,
      for_each (\<lambda>n. open_cli n 2) pnames,
      each clis (\<lambda>c. expecting c T_LOBBY any),
      each (tl clis) (\<lambda>c. say_join c (hd pnames)),
      each clis (\<lambda>c. await_start c (\<lambda>p.
        block [count_at p 0 c, count_at p 1 seats, roster_is (take 32 (drop 5 p)) pnames])),
      open_cli (str_of ''PZZZ'') 2, expecting e T_LOBBY any,
      say_join e (hd pnames),
      expecting e T_LOBBY any,
      say_frame sender T_INPUT msg,
      each clis (\<lambda>c. if c = sender then skip else expecting c T_INPUT (\<lambda>p. check (p = msg))),
      expect_silence sender,
      each (clis @ [e]) hang_up])"

section \<open>The gate\<close>

text \<open>
  The servers the gate starts, with the options it gives them and the sockets and random
  numbers they meet. The model is the Python server; \<open>c_ok\<close> says how the C relay does.
\<close>

definition gate_bench :: "int \<Rightarrow> (nat \<Rightarrow> nat) \<Rightarrow> send_res list \<Rightarrow> bench" where
  "gate_bench auto_go rng sock =
     bench_init (main_server (default_args\<lparr>ar_auto_go := auto_go\<rparr>) rng) sock"

datatype gate_exit = SeatsOutOfRange | SeatsNeedC | UnknownServer | GateFails | GatePasses

definition gate_main ::
    "nat \<Rightarrow> string \<Rightarrow> bool \<Rightarrow> (nat \<Rightarrow> nat) \<Rightarrow> (nat \<Rightarrow> nat) \<Rightarrow> (nat \<Rightarrow> nat) \<Rightarrow> send_res list \<Rightarrow> gate_exit" where
  "gate_main seats server c_ok r1 r2 r3 sock =
     (if \<not> (2 \<le> seats \<and> seats \<le> 4) then SeatsOutOfRange
      else if seats \<noteq> 2 \<and> server \<noteq> ''c'' then SeatsNeedC
      else if server \<noteq> ''py'' \<and> server \<noteq> ''c'' then UnknownServer
      else if server = ''c'' then (if c_ok then GatePasses else GateFails)
      else
        (case scenario_main seats (gate_bench 0 r1 sock) of
           (b, e) \<Rightarrow>
             if e = None \<and> main_wants (sv_log (bn_server b)) \<and>
                snd (scenario_autogo (gate_bench 2 r2 sock)) = None \<and>
                snd (scenario_full seats (gate_bench (int seats) r3 sock)) = None
             then GatePasses else GateFails))"

end
