(* ===== verification/Evaluate.thy ===== *)
theory Evaluate
  imports Bench
begin

text \<open>
  Running the model on concrete input inside the logic: equations of the relay and the test
  bench that compute (\<open>evaluation\<close>), and congruence rules that keep the simplifier from
  working inside branches and continuations before they are reached (\<open>lazy\<close>).
\<close>

named_theorems evaluation \<open>equations for running the relay and its test bench\<close>
named_theorems lazy \<open>congruence rules for call by need\<close>

section \<open>Statements\<close>

text \<open>The second half of a sequence runs when the first has been computed.\<close>

fun then_do :: "('s, 'e) stmt \<Rightarrow> 's \<times> 'e option \<Rightarrow> 's \<times> 'e option" where
  "then_do b (s, None) = b s"
| "then_do b (s, Some e) = (s, Some e)"

lemma seq_then [evaluation]: "seq a b s = then_do b (a s)"
  by (simp add: seq_def split: prod.split option.split)

lemma bind_val_apply [evaluation]:
  "bind_val (Inr a) f s = f a s" "bind_val (Inl e) f s = (s, Some e)"
  by (simp_all add: raise_def)

lemma for_each_apply [evaluation]:
  "for_each f [] s = (s, None)" "for_each f (x # xs) s = seq (f x) (for_each f xs) s"
  by (simp_all add: skip_def)

lemma for_members_numeral [evaluation]:
  "for_members_from (numeral k) i r f s =
     (if i < length (members s r)
      then seq (f i (members s r ! i)) (for_members_from (pred_numeral k) (Suc i) r f) s
      else (s, None))"
  by (simp add: numeral_eq_Suc)

lemma lazy_statements [lazy]:
  "r = q \<Longrightarrow> then_do b r = then_do b q"
  "s = t \<Longrightarrow> seq a b s = seq a b t"
  "v = w \<Longrightarrow> bind_val v f s = bind_val w f s"
  "xs = ys \<Longrightarrow> s = t \<Longrightarrow> for_each g xs s = for_each g ys t"
  "k = n \<Longrightarrow> i = j \<Longrightarrow> s' = t' \<Longrightarrow> for_members_from k i r' h s' = for_members_from n j r' h t'"
  "s' = t' \<Longrightarrow> for_members r' h s' = for_members r' h t'"
  by simp_all

lemma lazy_functions [lazy]:
  "x = y \<Longrightarrow> Let x f = Let y f"
  "xs = ys \<Longrightarrow> map_val g xs = map_val g ys"
  "xs = ys \<Longrightarrow> map h xs = map h ys"
  "xs = ys \<Longrightarrow> filter p xs = filter p ys"
  "xs = ys \<Longrightarrow> s = t \<Longrightarrow> fold k xs s = fold k ys t"
  by simp_all

declare prod.case_cong_weak [lazy] sum.case_cong_weak [lazy] list.case_cong_weak [lazy]
  option.case_cong_weak [lazy] if_weak_cong [lazy]

section \<open>Sockets that take everything\<close>

fun takes :: "send_res \<Rightarrow> nat" where
  "takes (SendN n) = n"
| "takes r = 0"

lemma send_taken [evaluation]:
  assumes "\<not> dead s c" "cl_tx (sv_cl s c) = []" "data \<noteq> []" "length data \<le> MAX_TX_BACKLOG"
    and "cl_script (sv_cl s c) \<noteq> []" "length data \<le> takes (hd (cl_script (sv_cl s c)))"
  shows "send_with d c data s =
     (update_events c (upd_cl c (\<lambda>k. k\<lparr>cl_tx := [], cl_script := tl (cl_script k),
        cl_wire := cl_wire k @ data\<rparr>) s), None)"
  using assms
  by (cases "cl_script (sv_cl s c)"; cases "hd (cl_script (sv_cl s c))"; cases data)
     (auto simp: send_with_def flush_with_def upd_cl_def Let_def MAX_TX_BACKLOG_def update_events_def)

lemma send_dead [evaluation]: "dead s c \<Longrightarrow> send_with d c data s = (s, None)"
  by (simp add: send_with_def)

section \<open>The loops around the handlers\<close>

lemma drop_twice [evaluation]: "drop_client c w s = drop_body (drop_body (drop_fuel 0)) c w s"
proof -
  have "drop_fuel (Suc n) = drop_body (drop_fuel n)" for n by (intro ext) simp
  then show ?thesis by (simp add: drop_client_def DROP_DEPTH_def numeral_2_eq_2)
qed

fun rescue :: "cid \<Rightarrow> relay \<times> exn option \<Rightarrow> relay \<times> exn option" where
  "rescue c (x, None) = (x, None)"
| "rescue c (x, Some e) =
     on_server (seq (\<lambda>s. update (log_it (LUnexpected (client_repr s c) e)) s)
       (drop_client c InternalError)) x"

lemma serve_rescue [evaluation]: "serve c w r x = rescue c (serve_body c w r x)"
  by (simp add: serve_def split: prod.split option.split)

fun served :: "cid \<Rightarrow> byte list \<Rightarrow> server \<times> exn option \<Rightarrow> server \<times> byte list \<times> exn option" where
  "served c rx (s, None) = (if dead s c then (s, rx, None) else service_loop c rx s)"
| "served c rx (s, Some (ProtocolError e)) =
     (case drop_client c (Protocol e) s of (s', x) \<Rightarrow> (s', rx, x))"
| "served c rx (s, Some e) = (s, rx, Some e)"

lemma lazy_served [lazy]: "rx = ry \<Longrightarrow> r = q \<Longrightarrow> served c rx r = served c ry q"
  by simp

lemma served_cases:
  "(case r of
      (s', Some (ProtocolError e)) \<Rightarrow>
        (case drop_client c (Protocol e) s' of (s'', x) \<Rightarrow> (s'', rx, x))
    | (s', Some e) \<Rightarrow> (s', rx, Some e)
    | (s', None) \<Rightarrow> if dead s' c then (s', rx, None) else service_loop c rx s') = served c rx r"
  by (cases "(c, rx, r)" rule: served.cases) simp_all

lemma service_loop_served [evaluation]:
  "service_loop c [] s = (s, [], None)"
  "service_loop c (l # rest) s =
     (if unat l + 1 < 2 \<or> unat l > 200
      then (case drop_client c (BadFrameLength (unat l)) s of (s', e) \<Rightarrow> (s', l # rest, e))
      else if length rest < unat l then (s, l # rest, None)
      else served c (drop (unat l) rest)
             (handle c (hd (take (unat l) rest)) (tl (take (unat l) rest)) s))"
  by (simp add: service_loop.simps) (subst service_loop.simps, simp add: Let_def served_cases)

section \<open>Values\<close>

lemma valid_name_range [evaluation]:
  "valid_name n \<longleftrightarrow> 2 \<le> length n \<and> length n \<le> 8 \<and>
    list_all (\<lambda>c. 48 \<le> c \<and> c \<le> 57 \<or> 65 \<le> c \<and> c \<le> 90) n"
proof -
  have "c \<in> set NAME_CHARS \<longleftrightarrow> 48 \<le> c \<and> c \<le> 57 \<or> 65 \<le> c \<and> c \<le> 90" for c
    unfolding NAME_CHARS_def str_of_def by simp presburger
  then show ?thesis by (simp add: valid_name_def)
qed

lemma zero_bytes [evaluation]: "replicate (numeral k) (0 :: byte) = 0 # replicate (pred_numeral k) 0"
  by (simp add: numeral_eq_Suc)

lemma seed_bytes [evaluation]: "randrange r mod 256 < 256" "randrange r div 256 < 256"
  by (auto simp: randrange_def)

lemma small_numbers [evaluation]: "Suc (Suc 0) = 2" "128 OR Suc 0 = (129 :: nat)"
  by simp_all

lemma lobby_status_numeral [evaluation]:
  "lobby_status_from (numeral k) i payload name =
     (let e = take 9 (drop (1 + 9 * i) payload)
      in case utf8_decode (rstrip_nul (take 8 e)) of
           Inl x \<Rightarrow> Inl x
         | Inr n \<Rightarrow>
             if n = name then (if length e > 8 then Inr (Some (e ! 8)) else Inl SimIndexError)
             else lobby_status_from (pred_numeral k) (Suc i) payload name)"
  by (simp add: numeral_eq_Suc)

declare upt_rec [evaluation] utf8_decode_ascii [evaluation] lobby_status_from.simps [evaluation]

section \<open>Definitions that compute as they stand\<close>

text \<open>A definition without its state argument is turned into an equation with it.\<close>

lemmas applied_server [evaluation] =
  fun_cong [OF serve_body_def] fun_cong [OF timers_def] fun_cong [OF turn_def]
  fun_cong [OF send_frame_with_def] fun_cong [OF handle_def] fun_cong [OF send_frame_def]
  fun_cong [OF send_def] fun_cong [OF room_broadcast_def]

lemmas applied_bench [evaluation] =
  fun_cong [OF expect_silence_def] fun_cong [OF say_frame_def] fun_cong [OF ask_lobby_def]
  fun_cong [OF status_is_def] fun_cong [OF say_join_def] fun_cong [OF count_at_def]
  fun_cong [OF roster_is_def] fun_cong [OF check_def] fun_cong [OF block_def]
  fun_cong [OF expecting_def]

lemma lazy_bench [lazy]:
  "s = t \<Longrightarrow> received i k s = received i k t"
  "s = t \<Longrightarrow> expecting i ft g s = expecting i ft g t"
  by simp_all

lemmas computing_wire [evaluation] =
  T_HELLO_def T_LIST_def T_LOBBY_def T_JOIN_def T_START_def T_INPUT_def T_CRC_def T_STATE_def
  T_RESYNC_def T_BYE_def T_PEER_LEFT_def T_PING_def T_PONG_def T_ROOM_def T_GO_def
  RELAY_TYPES_def PROTO_VER_def DEFAULT_DELAY_def MAX_SEATS_def ROSTER_SLOTS_def MAX_TX_BACKLOG_def
  MAX_CLIENTS_def MAX_CONNECTIONS_PER_IP_def STATS_INTERVAL_def
  frame_def bytes_of_def pad_name_def encode_ascii_def ljust8_def name_of_payload_def
  decode_ascii_def rstrip_def str_of_def lo8_eq hi8_eq le16_eq

lemmas computing_server [evaluation] =
  Let_def skip_def raise_def update_def dict_get_def dict_values_def dict_del_def sort_key_def
  server_init_def client_init_def room_init_def no_room_def no_client_def upd_cl_def upd_rm_def
  log_it_def client_repr_def lobby_update_def accept_def reject_def per_ip_def update_events_def
  on_hello_def set_name_def on_list_def listed_def lobby_entry_def status_def
  on_join_def joinable_def target_room_def enter_room_def room_broadcast_with_def for_members_def
  roster_def room_repr_def seat_def start_room_def on_go_def relay_frame_def
  log_crc_def crc_round_def crc_entry_def crc_store_def crc_verdict_def crc_evict_def
  drop_body_def drop_unhook_def stale_names_def dissolve_with_def leave_room_def clear_members_def
  service_def on_server_def on_relay_def loop_init_def relay_init_def main_server_def
  main_lobby_def default_args_def

lemmas computing_bench [evaluation] =
  bench_init_def LOCALHOST_def feed_def upd_cli_def alive_def dial_def probe_def push_def hang_up_def
  on_wire_def incoming_def pieces.simps recv_frame.simps received_def open_cli_def
  sim_frame_def pad_def utf8_encode_def utf8_char_def byte_at_def roster_names_def rstrip_nul_def
  lobby_status_def st_def

end
