(* ===== verification/Running.thy ===== *)
theory Running
  imports Evaluate
begin

text \<open>
  Turns the rules of \<open>Evaluate\<close> on, for the theories that run the relay: from here on
  \<open>simp\<close> computes.
\<close>

declare lazy [cong]
declare evaluation [simp]
declare utf8_decode.simps [simp del] for_each.simps [simp del] bind_val_Inr [simp del]
  bind_val_Inl [simp del]

text \<open>Sockets of a machine that is not short of buffers.\<close>

definition roomy :: "send_res list" where "roomy = replicate 40 (SendN 65536)"

end
