(* ===== verification/GateProps.thy ===== *)
theory GateProps
  imports Gate Running
begin

text \<open>
  The relay passes the acceptance test: the scenarios, run against the model of the server,
  end without a failed assertion, for every seed the server may draw. The run of the main
  scenario is computed part by part.
\<close>

declare expect_starts.simps [simp del]

lemmas applied_gate [simp] =
  fun_cong [OF refused_def] fun_cong [OF expect_room_def] fun_cong [OF expect_same_def]
  fun_cong [OF say_crc_def] fun_cong [OF crc_exchange_def]
  fun_cong [OF expect_starts.simps(1)] fun_cong [OF expect_starts.simps(2)]
  fun_cong [OF await_start_within.simps(1)] await_start_def
  room_names_def room_clis_def eve_def ROOM_NAMES_def full_name_def gate_bench_def

lemma await_start_numeral [simp]:
  "await_start_within (numeral n) i k b =
     received i (\<lambda>r. bind_val r (\<lambda>(t, p).
       if t = T_START then k p else await_start_within (pred_numeral n) i k)) b"
  by (simp only: numeral_eq_Suc await_start_within.simps)

section \<open>The main scenario, part by part\<close>

text \<open>Where the run stands after each part, and the state it is then in, computed.\<close>

type_synonym ran = "bench \<times> sim_error option"

definition after_probe :: "(nat \<Rightarrow> nat) \<Rightarrow> ran" where
  "after_probe rng = probe (gate_bench 0 rng roomy)"
definition after_hello :: "(nat \<Rightarrow> nat) \<Rightarrow> ran" where
  "after_hello rng = main_hello 2 (fst (after_probe rng))"
definition after_join :: "(nat \<Rightarrow> nat) \<Rightarrow> ran" where
  "after_join rng = main_join 2 (fst (after_hello rng))"
definition after_start :: "(nat \<Rightarrow> nat) \<Rightarrow> ran" where
  "after_start rng = main_start 2 (fst (after_join rng))"
definition after_input :: "(nat \<Rightarrow> nat) \<Rightarrow> ran" where
  "after_input rng = main_input 2 (fst (after_start rng))"
definition after_crc :: "(nat \<Rightarrow> nat) \<Rightarrow> ran" where
  "after_crc rng = main_crc 2 (fst (after_input rng))"
definition after_drop :: "(nat \<Rightarrow> nat) \<Rightarrow> ran" where
  "after_drop rng = main_drop 2 (fst (after_crc rng))"
definition after_guest :: "(nat \<Rightarrow> nat) \<Rightarrow> ran" where
  "after_guest rng = main_guest 2 (fst (after_drop rng))"

definition after_reseat :: "(nat \<Rightarrow> nat) \<Rightarrow> ran" where
  "after_reseat rng = main_reseat 2 (fst (after_guest rng))"
definition after_host :: "(nat \<Rightarrow> nat) \<Rightarrow> ran" where
  "after_host rng = main_host 2 (fst (after_reseat rng))"

lemmas probe_runs = after_probe_def [simplified roomy_def, simplified]
lemmas hello_runs = after_hello_def [simplified main_hello_def probe_runs, simplified]
lemmas join_runs = after_join_def [simplified main_join_def hello_runs, simplified]
lemmas start_runs = after_start_def [simplified main_start_def join_runs, simplified]
lemmas input_runs = after_input_def [simplified main_input_def start_runs, simplified]
lemmas crc_runs = after_crc_def [simplified main_crc_def input_runs, simplified]
lemmas drop_runs = after_drop_def [simplified main_drop_def crc_runs, simplified]
lemmas guest_runs = after_guest_def [simplified main_guest_def drop_runs, simplified]

lemmas reseat_runs = after_reseat_def [simplified main_reseat_def guest_runs, simplified]
lemmas host_runs = after_host_def [simplified main_host_def reseat_runs, simplified]

lemma block_Cons: "block (p # ps) b = then_do (block ps) (p b)"
  by (simp only: block_def for_each.simps seq_then)

lemma block_Nil: "block [] b = (b, None)"
  by (simp only: block_def for_each.simps skip_def)

lemma then_done: "snd r = None \<Longrightarrow> then_do (block []) r = r"
  by (cases r) (simp only: snd_conv then_do.simps block_Nil)

text \<open>A part that has run takes the run to the next stage.\<close>

lemma stage: "r = p (fst q) \<Longrightarrow> snd q = None \<Longrightarrow> then_do (block (p # ps)) q = then_do (block ps) r"
  by (cases q) (simp only: snd_conv fst_conv then_do.simps block_Cons)

lemma no_stage_fails:
  "snd (after_probe rng) = None" "snd (after_hello rng) = None" "snd (after_join rng) = None" "snd (after_start rng) = None"
  "snd (after_input rng) = None" "snd (after_crc rng) = None" "snd (after_drop rng) = None"
  "snd (after_guest rng) = None" "snd (after_reseat rng) = None" "snd (after_host rng) = None"
  by (simp_all only: probe_runs hello_runs join_runs start_runs input_runs crc_runs drop_runs guest_runs
      reseat_runs host_runs snd_conv)

lemma main_reaches: "scenario_main 2 (gate_bench 0 rng roomy) = after_host rng"
proof -
  have "scenario_main 2 (gate_bench 0 rng roomy) = then_do (block (main_parts 2)) (after_probe rng)"
    by (simp only: after_probe_def scenario_main_def block_Cons)
  also have "\<dots> = after_host rng"
    unfolding main_parts_def
    by (simp only: stage [of _ "main_hello 2", OF after_hello_def] stage [of _ "main_join 2", OF after_join_def] stage [of _ "main_start 2", OF after_start_def] stage [of _ "main_input 2", OF after_input_def]
        stage [of _ "main_crc 2", OF after_crc_def] stage [of _ "main_drop 2", OF after_drop_def] stage [of _ "main_guest 2", OF after_guest_def]
        stage [of _ "main_reseat 2", OF after_reseat_def] stage [of _ "main_host 2", OF after_host_def] no_stage_fails then_done)
  finally show ?thesis .
qed

lemma main_passes:
  "snd (scenario_main 2 (gate_bench 0 rng roomy)) = None"
  "main_wants (sv_log (bn_server (fst (scenario_main 2 (gate_bench 0 rng roomy)))))"
  unfolding main_reaches by (simp_all add: host_runs main_wants_def)

section \<open>The other scenarios, and the gate\<close>

lemma autogo_passes: "snd (scenario_autogo (gate_bench 2 rng roomy)) = None"
  by (simp add: scenario_autogo_def roomy_def)

lemma full_passes: "snd (scenario_full 2 (gate_bench 2 rng roomy)) = None"
  by (simp add: scenario_full_def roomy_def)

text \<open>C12. The relay passes its acceptance test, for every seed its random numbers give: on
  sockets that take what is sent, the three scenarios run to their end with every assertion
  true and no receive left waiting, and the log has the lines the test looks for.\<close>

theorem gate_passes: "gate_main 2 ''py'' c_ok r1 r2 r3 roomy = GatePasses"
  using main_passes [of r1] autogo_passes [of r2] full_passes [of r3]
  by (simp add: gate_main_def split_beta del: gate_bench_def)

end
