(* ===== verification/Regex.thy ===== *)
theory Regex
  imports Prelude
begin

text \<open>
  The part of Python's \<^verbatim>\<open>re\<close> the tools use: a backtracking matcher that lists every way
  a pattern matches at a position, in the order Python tries them, so that the first one is
  the match; \<^verbatim>\<open>match\<close>, \<^verbatim>\<open>finditer\<close> and \<^verbatim>\<open>sub\<close> on top of it; and the string methods
  \<^verbatim>\<open>split\<close>, \<^verbatim>\<open>rstrip\<close> and \<^verbatim>\<open>int(s, 16)\<close>. The digits of \<^verbatim>\<open>\d\<close> are the ASCII ones.
\<close>

section \<open>Characters\<close>

definition is_space :: "nat \<Rightarrow> bool" where
  "is_space c \<longleftrightarrow> 9 \<le> c \<and> c \<le> 13 \<or> 28 \<le> c \<and> c \<le> 32 \<or> c = 0x85 \<or> c = 0xA0 \<or> c = 0x1680 \<or>
     0x2000 \<le> c \<and> c \<le> 0x200A \<or> c = 0x2028 \<or> c = 0x2029 \<or> c = 0x202F \<or> c = 0x205F \<or> c = 0x3000"

definition is_digit :: "nat \<Rightarrow> bool" where
  "is_digit c \<longleftrightarrow> 48 \<le> c \<and> c \<le> 57"

text \<open>\<^verbatim>\<open>[0-9A-F]\<close>.\<close>

definition is_hex :: "nat \<Rightarrow> bool" where
  "is_hex c \<longleftrightarrow> 48 \<le> c \<and> c \<le> 57 \<or> 65 \<le> c \<and> c \<le> 70"

section \<open>Patterns\<close>

text \<open>
  A class of characters, \<^verbatim>\<open>^\<close> (with the multi-line flag or without), \<^verbatim>\<open>$\<close> without
  the flag, sequence, alternatives, a greedy repetition between two bounds, and a group.
\<close>

datatype rx =
    Cls "nat \<Rightarrow> bool"
  | Bol bool
  | Eol
  | Cat rx rx
  | Or rx rx
  | Rep rx nat "nat option"
  | Grp nat rx

text \<open>What was read, newest first; what is left; the groups closed so far, newest first.\<close>

type_synonym spot = "nat list \<times> nat list \<times> (nat \<times> nat list) list"

abbreviation ahead :: "spot \<Rightarrow> nat list" where
  "ahead s \<equiv> fst (snd s)"

definition captured :: "nat \<Rightarrow> spot \<Rightarrow> spot \<Rightarrow> spot" where
  "captured g s t =
     (case t of (pre, rest, caps) \<Rightarrow>
        (pre, rest, (g, rev (take (length pre - length (fst s)) pre)) # caps))"

text \<open>
  A repetition tries one more round first. A round that reads nothing ends it: none of the
  patterns here has one.
\<close>

function reps :: "(spot \<Rightarrow> spot list) \<Rightarrow> nat \<Rightarrow> nat option \<Rightarrow> spot \<Rightarrow> spot list" where
  "reps f lo hi s =
     (if hi = Some 0 then []
      else concat (map (\<lambda>t. if length (ahead t) < length (ahead s)
             then reps f (lo - 1) (map_option (\<lambda>n. n - 1) hi) t else []) (f s))) @
     (if lo = 0 then [s] else [])"
  by pat_completeness auto
termination
  by (relation "measure (\<lambda>(f, lo, hi, s). length (ahead s))") auto

declare reps.simps [simp del]

fun ways :: "rx \<Rightarrow> spot \<Rightarrow> spot list" where
  "ways (Cls P) (pre, [], caps) = []"
| "ways (Cls P) (pre, c # rest, caps) = (if P c then [(c # pre, rest, caps)] else [])"
| "ways (Bol m) (pre, rest, caps) =
     (if pre = [] \<or> m \<and> hd pre = 10 then [(pre, rest, caps)] else [])"
| "ways Eol (pre, rest, caps) = (if rest = [] \<or> rest = [10] then [(pre, rest, caps)] else [])"
| "ways (Cat r q) s = concat (map (ways q) (ways r s))"
| "ways (Or r q) s = ways r s @ ways q s"
| "ways (Rep r lo hi) s = reps (ways r) lo hi s"
| "ways (Grp g r) s = map (captured g s) (ways r s)"

fun cat :: "rx list \<Rightarrow> rx" where
  "cat [] = Rep (Cls (\<lambda>_. False)) 0 None"
| "cat [r] = r"
| "cat (r # rs) = Cat r (cat rs)"

definition chr :: "nat \<Rightarrow> rx" where
  "chr c = Cls (\<lambda>d. d = c)"

definition lit :: "string \<Rightarrow> rx" where
  "lit s = cat (map chr (str_of s))"

fun any_of :: "rx list \<Rightarrow> rx" where
  "any_of [] = Cls (\<lambda>_. False)"
| "any_of [r] = r"
| "any_of (r # rs) = Or r (any_of rs)"

definition group :: "nat \<Rightarrow> spot \<Rightarrow> nat list option" where
  "group g s = map_of (snd (snd s)) g"

section \<open>match, finditer, sub\<close>

text \<open>\<^verbatim>\<open>r.match(text)\<close>.\<close>

definition rx_match :: "rx \<Rightarrow> nat list \<Rightarrow> spot option" where
  "rx_match r text = (case ways r ([], text, []) of [] \<Rightarrow> None | t # _ \<Rightarrow> Some t)"

text \<open>
  \<^verbatim>\<open>r.finditer(text)\<close>: from each position on, the first match that reads something; the
  search goes on behind it. \<open>between\<close> keeps the text in front of each match.
\<close>

datatype piece = Between nat | Match spot

function scan :: "rx \<Rightarrow> nat list \<Rightarrow> nat list \<Rightarrow> piece list" where
  "scan r pre rest =
     (case ways r (pre, rest, []) of
        t # _ \<Rightarrow>
          (if length (ahead t) < length rest then Match t # scan r (fst t) (ahead t)
           else (case rest of [] \<Rightarrow> [] | c # cs \<Rightarrow> Between c # scan r (c # pre) cs))
      | [] \<Rightarrow> (case rest of [] \<Rightarrow> [] | c # cs \<Rightarrow> Between c # scan r (c # pre) cs))"
  by pat_completeness auto
termination
  by (relation "measure (\<lambda>(r, pre, rest). length rest)") auto

declare scan.simps [simp del]

fun matches_of :: "piece list \<Rightarrow> spot list" where
  "matches_of [] = []"
| "matches_of (Match t # ps) = t # matches_of ps"
| "matches_of (Between c # ps) = matches_of ps"

definition finditer :: "rx \<Rightarrow> nat list \<Rightarrow> spot list" where
  "finditer r text = matches_of (scan r [] text)"

fun replaced :: "nat list \<Rightarrow> piece list \<Rightarrow> nat list" where
  "replaced w [] = []"
| "replaced w (Match t # ps) = w @ replaced w ps"
| "replaced w (Between c # ps) = c # replaced w ps"

text \<open>\<^verbatim>\<open>re.sub(r, w, text)\<close> for a replacement without references to groups.\<close>

definition rx_sub :: "rx \<Rightarrow> nat list \<Rightarrow> nat list \<Rightarrow> nat list" where
  "rx_sub r w text = replaced w (scan r [] text)"

section \<open>String methods\<close>

text \<open>\<^verbatim>\<open>s.split()\<close>.\<close>

function split_ws :: "nat list \<Rightarrow> nat list list" where
  "split_ws s =
     (case dropWhile is_space s of
        [] \<Rightarrow> []
      | c # cs \<Rightarrow> (c # takeWhile (\<lambda>x. \<not> is_space x) cs) # split_ws (dropWhile (\<lambda>x. \<not> is_space x) cs))"
  by pat_completeness auto
termination
proof (relation "measure length")
  fix s c cs assume s: "dropWhile is_space s = c # cs"
  have "length (dropWhile (\<lambda>x. \<not> is_space x) cs) \<le> length cs" by (rule length_dropWhile_le)
  also have "length cs < length s" using length_dropWhile_le [of is_space s] s by simp
  finally show "(dropWhile (\<lambda>x. \<not> is_space x) cs, s) \<in> measure length" by simp
qed simp

declare split_ws.simps [simp del]

definition rstrip_chr :: "nat \<Rightarrow> nat list \<Rightarrow> nat list" where
  "rstrip_chr c s = rev (dropWhile (\<lambda>x. x = c) (rev s))"

text \<open>\<^verbatim>\<open>int(s, 16)\<close> of a string of upper-case hexadecimal digits.\<close>

definition hex_val :: "nat \<Rightarrow> nat" where
  "hex_val c = (if is_digit c then c - 48 else c - 55)"

definition int16 :: "nat list \<Rightarrow> nat" where
  "int16 s = foldl (\<lambda>a c. 16 * a + hex_val c) 0 s"

definition hex_digit :: "nat \<Rightarrow> nat" where
  "hex_digit v = (if v < 10 then 48 + v else 55 + v)"

text \<open>\<^verbatim>\<open>f"{v:04X}"\<close> of a value below \<^verbatim>\<open>0x10000\<close>.\<close>

definition hex4 :: "nat \<Rightarrow> nat list" where
  "hex4 v = [hex_digit (v div 4096 mod 16), hex_digit (v div 256 mod 16),
             hex_digit (v div 16 mod 16), hex_digit (v mod 16)]"

lemma hex_digit_hex: "v < 16 \<Longrightarrow> is_hex (hex_digit v) \<and> hex_val (hex_digit v) = v \<and> \<not> is_space (hex_digit v)"
  by (simp add: hex_digit_def is_hex_def hex_val_def is_digit_def is_space_def)

lemma int16_hex4: "v < 65536 \<Longrightarrow> int16 (hex4 v) = v"
proof -
  assume "v < 65536"
  then have top: "v div 4096 mod 16 = v div 4096" "v div 4096 < 16"
    by (simp_all add: div_less_iff_less_mult)
  have "v div 256 = 16 * (v div 4096) + v div 256 mod 16" "v div 16 = 16 * (v div 256) + v div 16 mod 16"
    "v = 16 * (v div 16) + v mod 16"
    using div_mult2_eq [of v 256 16] div_mult2_eq [of v 16 16] by simp_all
  then have "16 * (16 * (16 * (v div 4096) + v div 256 mod 16) + v div 16 mod 16) + v mod 16 = v"
    by metis
  then show ?thesis by (simp add: int16_def hex4_def hex_digit_hex top)
qed

lemma hex4_hex: "c \<in> set (hex4 v) \<Longrightarrow> is_hex c \<and> \<not> is_space c"
  by (auto simp: hex4_def hex_digit_hex)

lemma length_hex4 [simp]: "length (hex4 v) = 4" "hex4 v \<noteq> []"
  by (simp_all add: hex4_def)

section \<open>How a pattern matches\<close>

text \<open>A repetition of a class up to a fixed number, and as far as it goes.\<close>

lemma reps_none: "f s = [] \<Longrightarrow> reps f lo hi s = (if lo = 0 then [s] else [])"
  by (subst reps.simps) simp

lemma reps_zero: "reps f lo (Some 0) s = (if lo = 0 then [s] else [])"
  by (subst reps.simps) simp

lemma reps_one:
  assumes "f s = [t]" and "length (ahead t) < length (ahead s)" and "hi \<noteq> Some 0"
  shows "reps f lo hi s = reps f (lo - 1) (map_option (\<lambda>n. n - 1) hi) t @ (if lo = 0 then [s] else [])"
  using assms by (subst reps.simps) simp

lemma reps_exact:
  assumes "\<forall>c \<in> set w. P c"
  shows "reps (ways (Cls P)) (length w) (Some (length w)) (pre, w @ rest, caps) = [(rev w @ pre, rest, caps)]"
  using assms
proof (induction w arbitrary: pre)
  case Nil
  then show ?case by (simp add: reps_zero)
next
  case (Cons c w)
  have "reps (ways (Cls P)) (length (c # w)) (Some (length (c # w))) (pre, (c # w) @ rest, caps) =
      reps (ways (Cls P)) (length w) (Some (length w)) (c # pre, w @ rest, caps)"
    using Cons.prems by (subst reps_one [where t = "(c # pre, w @ rest, caps)"]) simp_all
  with Cons show ?case by simp
qed

text \<open>The first way of a greedy run over a class.\<close>

lemma reps_run:
  assumes "\<forall>c \<in> set w. P c" and "rest = [] \<or> \<not> P (hd rest)" and "lo \<le> length w"
  shows "\<exists>ts. reps (ways (Cls P)) lo None (pre, w @ rest, caps) = (rev w @ pre, rest, caps) # ts \<and>
     (\<forall>t \<in> set ts. \<exists>k < length w. t = (rev (take k w) @ pre, drop k w @ rest, caps))"
  using assms
proof (induction w arbitrary: pre lo)
  case Nil
  then have "ways (Cls P) (pre, rest, caps) = []" by (cases rest) auto
  with Nil show ?case by (simp add: reps_none)
next
  case (Cons c w)
  have w: "\<forall>c \<in> set w. P c" and lo: "lo - 1 \<le> length w" using Cons.prems by auto
  obtain ts where ts: "reps (ways (Cls P)) (lo - 1) None (c # pre, w @ rest, caps) =
      (rev w @ c # pre, rest, caps) # ts"
    "\<forall>t \<in> set ts. \<exists>k < length w. t = (rev (take k w) @ c # pre, drop k w @ rest, caps)"
    using Cons.IH [OF w Cons.prems(2) lo, of "c # pre"] by blast
  let ?us = "ts @ (if lo = 0 then [(pre, (c # w) @ rest, caps)] else [])"
  have "reps (ways (Cls P)) lo None (pre, (c # w) @ rest, caps) =
      (rev (c # w) @ pre, rest, caps) # ?us"
    using Cons.prems ts(1) by (subst reps_one [where t = "(c # pre, w @ rest, caps)"]) simp_all
  moreover have "\<exists>k < length (c # w). t = (rev (take k (c # w)) @ pre, drop k (c # w) @ rest, caps)"
    if "t \<in> set ?us" for t
  proof (cases "t \<in> set ts")
    case True
    then obtain k where "k < length w" "t = (rev (take k w) @ c # pre, drop k w @ rest, caps)"
      using ts(2) by blast
    then show ?thesis by (intro exI [of _ "Suc k"]) simp
  next
    case False
    with that have "t = (pre, (c # w) @ rest, caps)" by (auto split: if_splits)
    then show ?thesis by (intro exI [of _ 0]) simp
  qed
  ultimately show ?case by blast
qed

end
