(* ===== verification/Differ.thy ===== *)
theory Differ
  imports SimClient Regex "HOL-Library.List_Lexorder"
begin

text \<open>
  \<^verbatim>\<open>tools/server_diff.py\<close>: the differential test of two relays. Modelled are its frames,
  the recording of what clients receive (\<open>sync\<close>), the rendering of a frame, the filters on
  the log, the comparison, and the checks of \<open>main\<close>. The transcripts of the two servers
  come from outside.
\<close>

section \<open>Frames\<close>

definition sd_frame :: "byte \<Rightarrow> byte list \<Rightarrow> sim_error + byte list" where
  "sd_frame ftype payload =
     (if length payload + 1 < 256 then Inr ([word_of_nat (length payload + 1), ftype] @ payload)
      else Inl SimValueError)"

definition sd_pad :: "pystr \<Rightarrow> sim_error + byte list" where
  "sd_pad name = (case utf8_encode name of Inl e \<Rightarrow> Inl e | Inr bs \<Rightarrow> Inr (ljust8 bs))"

definition TNAME :: "(byte, pystr) dict" where
  "TNAME = [(0x01, str_of ''HELLO''), (0x02, str_of ''LIST''), (0x03, str_of ''LOBBY''),
     (0x04, str_of ''JOIN''), (0x05, str_of ''START''), (0x06, str_of ''INPUT''),
     (0x07, str_of ''CRC''), (0x08, str_of ''STATE''), (0x09, str_of ''RESYNC''),
     (0x0A, str_of ''BYE''), (0x0B, str_of ''PEER_LEFT''), (0x0C, str_of ''PING''),
     (0x0D, str_of ''PONG''), (0x0E, str_of ''ROOM''), (0x0F, str_of ''GO'')]"

section \<open>Rendering\<close>

text \<open>\<^verbatim>\<open>b.hex()\<close>, and \<^verbatim>\<open>f"{t:02X}"\<close>.\<close>

definition low_hex_digit :: "nat \<Rightarrow> nat" where
  "low_hex_digit v = (if v < 10 then 48 + v else 87 + v)"

definition hex_of :: "byte list \<Rightarrow> pystr" where
  "hex_of bs = concat (map (\<lambda>b. [low_hex_digit (unat b div 16), low_hex_digit (unat b mod 16)]) bs)"

definition hex2 :: "byte \<Rightarrow> pystr" where
  "hex2 b = [hex_digit (unat b div 16), hex_digit (unat b mod 16)]"

definition type_name :: "byte \<Rightarrow> pystr" where
  "type_name t = (case dict_get TNAME t of None \<Rightarrow> 36 # hex2 t | Some n \<Rightarrow> n)"

definition seed_at :: "nat \<Rightarrow> nat" where
  "seed_at proto = (if proto = 1 then 1 else 2)"

definition mask_seed :: "nat \<Rightarrow> byte list \<Rightarrow> byte list" where
  "mask_seed proto p = take (seed_at proto) p @ [0xAA, 0xAA] @ drop (seed_at proto + 2) p"

definition render :: "nat \<Rightarrow> byte list \<Rightarrow> sim_error + pystr" where
  "render proto body =
     (case body of [] \<Rightarrow> Inl SimIndexError
      | t # p \<Rightarrow>
          if t = T_START \<and> length p \<ge> 4
          then Inr (str_of ''START '' @ hex_of (mask_seed proto p) @ str_of '' (seed masked)'')
          else Inr (type_name t @ 32 # hex_of p))"

section \<open>Recording\<close>

record sd_client =
  sc_label :: pystr
  sc_buf :: "byte list"
  sc_closed :: bool
  sc_eof :: bool
  sc_sent :: "byte list"

record sd_ctx =
  sd_clients :: "sd_client list"
  sd_transcript :: "pystr list"
  sd_step :: nat

definition sd_connect :: "pystr \<Rightarrow> sd_ctx \<Rightarrow> sd_ctx" where
  "sd_connect label x =
     x\<lparr>sd_clients := sd_clients x @ [\<lparr>sc_label = label, sc_buf = [], sc_closed = False, sc_eof = False,
        sc_sent = []\<rparr>]\<rparr>"

definition sd_send :: "nat \<Rightarrow> byte list \<Rightarrow> sd_ctx \<Rightarrow> sd_ctx" where
  "sd_send i data x =
     (let c = sd_clients x ! i
      in if sc_closed c then x
         else x\<lparr>sd_clients := (sd_clients x)[i := c\<lparr>sc_sent := sc_sent c @ data\<rparr>]\<rparr>)"

definition sd_close :: "nat \<Rightarrow> sd_ctx \<Rightarrow> sd_ctx" where
  "sd_close i x = x\<lparr>sd_clients := (sd_clients x)[i := (sd_clients x ! i)\<lparr>sc_closed := True\<rparr>]\<rparr>"

text \<open>
  What \<^verbatim>\<open>select\<close> and \<^verbatim>\<open>recv\<close> deliver until it is quiet: data for a client, or an end of
  stream (which an \<^verbatim>\<open>OSError\<close> counts as). A closed client is not asked.
\<close>

definition sd_arrival :: "nat \<times> byte list \<Rightarrow> sd_client list \<Rightarrow> sd_client list" where
  "sd_arrival ev cs =
     (case ev of (i, data) \<Rightarrow>
        if i < length cs \<and> \<not> sc_closed (cs ! i)
        then cs[i := (if data = [] then (cs ! i)\<lparr>sc_eof := True, sc_closed := True\<rparr>
                      else (cs ! i)\<lparr>sc_buf := sc_buf (cs ! i) @ data\<rparr>)]
        else cs)"

function sd_bodies :: "byte list \<Rightarrow> byte list list \<times> byte list" where
  "sd_bodies buf =
     (if buf \<noteq> [] \<and> length buf \<ge> unat (hd buf) + 1
      then (let need = unat (hd buf) + 1
            in case sd_bodies (drop need buf) of (bs, rest) \<Rightarrow> (tl (take need buf) # bs, rest))
      else ([], buf))"
  by pat_completeness auto
termination
  by (relation "measure length") auto

declare sd_bodies.simps [simp del]

definition arrow :: pystr where "arrow = str_of '' <- ''"

text \<open>The lines of one client, and the client afterwards.\<close>

definition sd_record :: "nat \<Rightarrow> pystr \<Rightarrow> sd_client \<Rightarrow> sim_error + (pystr list \<times> sd_client)" where
  "sd_record proto tag c =
     (let head = tag @ str_of '' | '' @ sc_label c @ arrow
      in case sd_bodies (sc_buf c) of
           (bodies, rest) \<Rightarrow>
             (case map_val (render proto) bodies of
                Inl e \<Rightarrow> Inl e
              | Inr rs \<Rightarrow>
                  Inr (map (\<lambda>r. head @ r) rs @
                       (if rest \<noteq> [] then [head @ str_of ''PARTIAL '' @ hex_of rest] else []) @
                       (if sc_eof c then [head @ str_of ''EOF''] else []),
                       c\<lparr>sc_buf := [], sc_eof := False\<rparr>)))"

text \<open>\<^verbatim>\<open>f"{n:02d}"\<close> of a step number.\<close>

fun digits_of :: "nat \<Rightarrow> nat \<Rightarrow> nat list" where
  "digits_of 0 n = []"
| "digits_of (Suc k) n = (if n < 10 then [48 + n] else digits_of k (n div 10) @ [48 + n mod 10])"

definition dec2 :: "nat \<Rightarrow> pystr" where
  "dec2 n = (if n < 10 then [48, 48 + n] else digits_of n n)"

lemma dec2_small: "n < 100 \<Longrightarrow> dec2 n = [48 + n div 10, 48 + n mod 10]"
proof (cases "n < 10")
  case False
  assume n: "n < 100"
  have "n div 10 < 10" using n by simp
  moreover obtain m where "n = Suc (Suc m)"
    using False by (cases n; cases "n - 1") auto
  ultimately show ?thesis using False by (simp add: dec2_def)
qed (simp add: dec2_def)

definition sd_sync :: "nat \<Rightarrow> pystr \<Rightarrow> (nat \<times> byte list) list \<Rightarrow> sd_ctx \<Rightarrow> sim_error + sd_ctx" where
  "sd_sync proto step arrivals x =
     (let n = Suc (sd_step x); tag = dec2 n @ 32 # step; cs = fold sd_arrival arrivals (sd_clients x)
      in case map_val (sd_record proto tag) cs of
           Inl e \<Rightarrow> Inl e
         | Inr rs \<Rightarrow> Inr \<lparr>sd_clients = map snd rs, sd_transcript = sd_transcript x @ concat (map fst rs), sd_step = n\<rparr>)"

section \<open>The log\<close>

abbreviation digit :: rx where "digit \<equiv> Cls is_digit"

text \<open>\<^verbatim>\<open>^\d{4}-\d\d-\d\d \d\d:\d\d:\d\d,\d{3} (INFO|WARNING|DEBUG|ERROR) (.*)$\<close>.\<close>

definition LOGLINE :: rx where
  "LOGLINE = cat [Bol False, Rep digit 4 (Some 4), chr 45, digit, digit, chr 45, digit, digit, chr 32,
     digit, digit, chr 58, digit, digit, chr 58, digit, digit, chr 44, Rep digit 3 (Some 3), chr 32,
     Grp 1 (any_of [lit ''INFO'', lit ''WARNING'', lit ''DEBUG'', lit ''ERROR'']), chr 32,
     Grp 2 (Rep (Cls (\<lambda>c. c \<noteq> 10)) 0 None), Eol]"

definition sd_loglines :: "pystr list \<Rightarrow> pystr list" where
  "sd_loglines raw =
     List.map_filter (\<lambda>l. case rx_match LOGLINE l of None \<Rightarrow> None
       | Some m \<Rightarrow> (case (group 1 m, group 2 m) of
           (Some lvl, Some msg) \<Rightarrow> Some (str_of ''log '' @ lvl @ 32 # msg) | _ \<Rightarrow> None)) raw"

definition C_ONLY_LINES :: "rx list" where
  "C_ONLY_LINES = [Cat (Bol False) (lit ''log WARNING a protocol v1 console tried to connect'')]"

definition SEED_RE :: rx where
  "SEED_RE = cat [lit ''(seed $'', Rep (Cls is_hex) 4 (Some 4), chr 41]"

definition PORT_RE :: rx where
  "PORT_RE = cat [chr 40, chr 39, lit ''127.0.0.1'', chr 39, lit '', '', Rep digit 1 None, chr 41]"

definition LISTEN_RE :: rx where
  "LISTEN_RE = Cat (lit ''listening on :'') (Rep digit 1 None)"

definition normalize_line :: "pystr \<Rightarrow> pystr" where
  "normalize_line l =
     rx_sub LISTEN_RE (str_of ''listening on :PORT'')
       (rx_sub PORT_RE ([40, 39] @ str_of ''127.0.0.1'' @ [39] @ str_of '', PORT)'')
         (rx_sub SEED_RE (str_of ''(seed $SEED)'') l))"

definition c_only :: "pystr \<Rightarrow> bool" where
  "c_only l \<longleftrightarrow> list_ex (\<lambda>pat. rx_match pat l \<noteq> None) C_ONLY_LINES"

definition normalize_log :: "pystr list \<Rightarrow> pystr list \<times> nat" where
  "normalize_log lines =
     (map normalize_line (filter (\<lambda>l. \<not> c_only l) lines), length (filter c_only lines))"

section \<open>The comparison\<close>

text \<open>\<^verbatim>\<open>compare\<close> on the normalised transcripts: the result, not the printed difference.\<close>

definition compare_runs :: "string \<Rightarrow> bool \<Rightarrow> nat \<Rightarrow> pystr list \<Rightarrow> pystr list \<Rightarrow> bool" where
  "compare_runs name strict proto py c =
     (if name = ''limits'' \<and> sort py = sort c then True
      else if name \<noteq> ''limits'' \<and> py = c then True
      else if name = ''framing'' \<and> proto = 2 then \<not> strict
      else False)"

record sd_args =
  sa_seats :: int
  sa_proto :: nat
  sa_python_server :: "bool option"
  sa_scenario :: "string list"
  sa_strict :: bool
  sa_list :: bool

definition SCENARIOS_V2 :: "string list" where
  "SCENARIOS_V2 = [''roster'', ''rooms'', ''start'', ''relay'', ''drops'', ''framing'', ''limits'']"
definition SCENARIOS_V1 :: "string list" where
  "SCENARIOS_V1 = [''roster'', ''pairing'', ''relay'', ''drops'', ''framing'', ''limits'']"
definition DEFAULT_ORDER_V2 :: "string list" where
  "DEFAULT_ORDER_V2 = [''roster'', ''rooms'', ''start'', ''relay'', ''drops'', ''framing'']"
definition DEFAULT_ORDER_V1 :: "string list" where
  "DEFAULT_ORDER_V1 = [''roster'', ''pairing'', ''relay'', ''drops'', ''framing'']"

datatype sd_exit =
    Listed "string list"
  | NoSuchReference
  | ProtoOneNeedsReference
  | RelayNotBuilt
  | UnknownScenario string
  | SeatsNotDiffable
  | Compared bool

text \<open>
  \<^verbatim>\<open>main\<close>: \<open>sa_python_server\<close> says whether a reference was named and exists;
  \<open>built\<close> whether the C relay is there; \<open>runs\<close> gives the normalised transcripts of a
  scenario. Every scenario is run, also after a failure.
\<close>

definition sd_main :: "sd_args \<Rightarrow> bool \<Rightarrow> (string \<Rightarrow> pystr list \<times> pystr list) \<Rightarrow> sd_exit" where
  "sd_main a built runs =
     (let scenarios = (if sa_proto a = 1 then SCENARIOS_V1 else SCENARIOS_V2);
          names = (if sa_scenario a \<noteq> [] then sa_scenario a
                   else if sa_proto a = 1 then DEFAULT_ORDER_V1 else DEFAULT_ORDER_V2)
      in if sa_list a then Listed scenarios
         else if sa_python_server a = Some False then NoSuchReference
         else if sa_python_server a = None \<and> sa_proto a = 1 then ProtoOneNeedsReference
         else if \<not> built then RelayNotBuilt
         else (case find (\<lambda>n. n \<notin> set scenarios) names of
                 Some n \<Rightarrow> UnknownScenario n
               | None \<Rightarrow>
                   if sa_proto a = 2 \<and> sa_seats a \<noteq> 2 then SeatsNotDiffable
                   else Compared (list_all (\<lambda>n. compare_runs n (sa_strict a) (sa_proto a)
                          (fst (runs n)) (snd (runs n))) names)))"

end
