(* ===== verification/Scripts.thy ===== *)
theory Scripts
  imports Bench Differ
begin

text \<open>
  The scripts of \<^verbatim>\<open>tools/server_diff.py\<close> and their run against the model of the relay. A
  script is a list of steps; clients are numbered in the order they connect. Every byte sent
  has been handled before the next step, so the pauses of the scripts have no counterpart,
  and what a sync drains is everything the relay has put on the wire.
\<close>

section \<open>Steps\<close>

datatype sd_step =
    Connect string
  | Send nat "sim_error + byte list"
  | CloseIt nat
  | Sync string

text \<open>\<^verbatim>\<open>frame(T["HELLO"], bytes([ver]) + name.encode())\<close>, and a JOIN.\<close>

definition hello_data :: "byte \<Rightarrow> string \<Rightarrow> sim_error + byte list" where
  "hello_data ver name =
     (case utf8_encode (str_of name) of Inl e \<Rightarrow> Inl e | Inr nm \<Rightarrow> sd_frame T_HELLO (ver # nm))"

definition join_data :: "string \<Rightarrow> sim_error + byte list" where
  "join_data name =
     (case sd_pad (str_of name) of Inl e \<Rightarrow> Inl e | Inr p \<Rightarrow> sd_frame T_JOIN p)"

text \<open>\<^verbatim>\<open>x.hello(label, ver=ver)\<close> of the \<open>i\<close>-th client.\<close>

definition sd_hello :: "nat \<Rightarrow> nat \<Rightarrow> string \<Rightarrow> sd_step list" where
  "sd_hello ver i label =
     [Connect label, Send i (hello_data (word_of_nat ver) label), Sync (''hello '' @ label)]"

abbreviation tell :: "nat \<Rightarrow> byte \<Rightarrow> byte list \<Rightarrow> sd_step" where
  "tell i t p \<equiv> Send i (sd_frame t p)"

definition tell_all :: "nat list \<Rightarrow> byte \<Rightarrow> sd_step list" where
  "tell_all cs t = map (\<lambda>i. tell i t []) cs"

section \<open>The run\<close>

type_synonym sd_state = "bench \<times> sd_ctx"

definition fresh_data :: "bench \<Rightarrow> nat \<Rightarrow> byte list" where
  "fresh_data b i = drop (ck_read (bn_clis b ! i)) (on_wire b i)"

text \<open>What the drain of a sync receives from the relay: data, and then the end.\<close>

definition arrivals :: "bench \<Rightarrow> (nat \<times> byte list) list" where
  "arrivals b =
     concat (map (\<lambda>i.
       (if fresh_data b i \<noteq> [] then [(i, fresh_data b i)] else []) @
       (if alive b i = None then [(i, [])] else []))
     [0..<length (bn_clis b)])"

text \<open>A network operation of the bench with the record the context keeps of it.\<close>

definition both :: "prog \<Rightarrow> (sd_ctx \<Rightarrow> sd_ctx) \<Rightarrow> (sd_state, sim_error) stmt" where
  "both p f w = (case p (fst w) of
     (b, None) \<Rightarrow> ((b, f (snd w)), None) | (b, Some e) \<Rightarrow> ((b, snd w), Some e))"

fun sd_exec :: "nat \<Rightarrow> sd_step \<Rightarrow> (sd_state, sim_error) stmt" where
  "sd_exec proto (Connect label) w = both (dial (str_of label)) (sd_connect (str_of label)) w"
| "sd_exec proto (Send i (Inl e)) w = (w, Some e)"
| "sd_exec proto (Send i (Inr data)) w =
     (if sc_closed (sd_clients (snd w) ! i) then (w, None) else both (push i data) (sd_send i data) w)"
| "sd_exec proto (CloseIt i) w =
     (if sc_closed (sd_clients (snd w) ! i) then (w, None) else both (hang_up i) (sd_close i) w)"
| "sd_exec proto (Sync tag) w =
     (case sd_sync proto (str_of tag) (arrivals (fst w)) (snd w) of
        Inl e \<Rightarrow> (w, Some e)
      | Inr x \<Rightarrow> ((all_read (fst w), x), None))"

definition sd_start :: "server \<Rightarrow> send_res list \<Rightarrow> sd_state" where
  "sd_start s sock = (bench_init s sock, \<lparr>sd_clients = [], sd_transcript = [], sd_step = 0\<rparr>)"

text \<open>\<^verbatim>\<open>run\<close>: the script, a last sync, and the transcript it leaves.\<close>

definition sd_run :: "nat \<Rightarrow> sd_step list \<Rightarrow> server \<Rightarrow> send_res list \<Rightarrow> sim_error + pystr list" where
  "sd_run proto script s sock =
     (case for_each (sd_exec proto) (script @ [Sync ''final'']) (sd_start s sock) of
        (w, None) \<Rightarrow> Inr (sd_transcript (snd w))
      | (w, Some e) \<Rightarrow> Inl e)"

section \<open>The scripts of protocol 2\<close>

definition s1_roster_order :: "sd_step list" where
  "s1_roster_order =
     sd_hello 2 0 ''ALICE'' @ sd_hello 2 1 ''BOB'' @ sd_hello 2 2 ''CAROL'' @ sd_hello 2 3 ''DAVE'' @
     [Connect ''OLDGUY'', Send 4 (hello_data 1 ''OLDGUY''), Sync ''v1 hello refused''] @
     tell_all [0, 1, 2, 3] T_LIST @ [Sync ''LIST from each''] @
     [Send 2 (hello_data 2 ''CAROL2''), Sync ''CAROL renames to CAROL2''] @
     sd_hello 2 5 ''EVE'' @
     [Send 5 (hello_data 2 ''BOB''), Sync ''EVE steals the name BOB''] @
     tell_all [0, 3, 5] T_LIST @ [Sync ''LIST after the churn''] @
     [CloseIt 0, Sync ''ALICE disconnects''] @
     tell_all [3, 5] T_LIST @ [Sync ''LIST after a drop'']"

definition s2_rooms :: "nat \<Rightarrow> sd_step list" where
  "s2_rooms seats =
     sd_hello 2 0 ''ALICE'' @ sd_hello 2 1 ''BOB'' @ sd_hello 2 2 ''CAROL'' @
     [Send 1 (join_data ''ALICE''), Sync ''BOB joins ALICE'',
      tell 2 T_LIST [], Sync ''status: forming room''] @
     (if seats \<ge> 3
      then [Send 2 (join_data ''BOB''), Sync ''CAROL joins the guest BOB (redirect)'']
      else [Send 2 (join_data ''ALICE''), Sync ''CAROL joins a full room (refused -> LOBBY)'']) @
     [Send 1 (join_data ''ALICE''), Sync ''in-room JOIN is silent'',
      Send 2 (join_data ''NOBODY''), Sync ''JOIN unknown name -> LOBBY'',
      Send 0 (join_data ''ALICE''), Sync ''self-join from an in-room client''] @
     sd_hello 2 3 ''DAVE'' @
     [Send 3 (join_data ''DAVE''), Sync ''DAVE self-join -> LOBBY'',
      tell 3 T_JOIN (map word_of_nat (str_of ''THISNAMEISWAYTOOLONG'')),
      Sync ''JOIN an over-long name -> LOBBY'']"

definition s3_go_start :: "sd_step list" where
  "s3_go_start =
     sd_hello 2 0 ''ALICE'' @ sd_hello 2 1 ''BOB'' @
     [tell 0 T_GO [], Sync ''GO with no room (ignored)'',
      Send 1 (join_data ''ALICE''), Sync ''BOB joins ALICE'',
      tell 1 T_GO [], Sync ''guest GO (ignored)'',
      tell 0 T_GO [], Sync ''host GO -> START'',
      tell 0 T_GO [], Sync ''second GO on a started room (ignored)''] @
     sd_hello 2 2 ''CAROL'' @
     [Send 2 (join_data ''ALICE''), Sync ''join a started room -> LOBBY'',
      tell 0 T_PING [], Sync ''PING -> PONG'']"

definition crc_data :: "nat list \<Rightarrow> sim_error + byte list" where
  "crc_data p = sd_frame T_CRC (map word_of_nat p)"

definition s4_relay_crc :: "sd_step list" where
  "s4_relay_crc =
     sd_hello 2 0 ''ALICE'' @ sd_hello 2 1 ''BOB'' @
     [tell 0 T_INPUT [0, 1, 0, 0x40, 0], Sync ''relay before a room exists (dropped)'',
      Send 1 (join_data ''ALICE''), Sync ''BOB joins ALICE'',
      tell 0 T_INPUT [0, 1, 0, 0x40, 0], Sync ''relay before start (dropped)'',
      tell 0 T_GO [], Sync ''host GO -> START'',
      tell 0 T_INPUT [0, 7, 0, 0x40, 0], Sync ''INPUT fanout'',
      tell 1 T_STATE ([0, 0] @ map word_of_nat [0..<96]), Sync ''96-byte STATE fanout'',
      tell 0 T_RESYNC [5, 0], Sync ''RESYNC fanout''] @
     concat (map (\<lambda>t. [Send 0 (crc_data [0, t, 0, 0x11, 0x22]), Send 1 (crc_data [1, t, 0, 0x11, 0x22])])
       [0..<4]) @
     [Sync ''four agreed CRC rounds'',
      Send 0 (crc_data [0, 9, 0, 0xAA, 0x00]), Send 1 (crc_data [1, 9, 0, 0xBB, 0x00]),
      Sync ''a CRC mismatch''] @
     map (\<lambda>t. Send 0 (crc_data [0, t AND 0xFF, drop_bit 8 t, 0x33, 0x44])) [100..<170] @
     [Sync ''70 half-reported ticks (eviction)'',
      Send 1 (crc_data [1, 100, 0, 0x33, 0x44]), Sync ''complete an evicted tick (no line)'',
      Send 1 (crc_data [1, 169, 0, 0x33, 0x44]), Sync ''complete a surviving tick'',
      Send 0 (crc_data [3, 200, 0, 0x01, 0x00]), Send 1 (crc_data [1, 200, 0, 0x02, 0x00]),
      Sync ''a lying seat index'']"

definition s5_drop_matrix :: "sd_step list" where
  "s5_drop_matrix =
     sd_hello 2 0 ''ALICE'' @ sd_hello 2 1 ''BOB'' @
     [Send 1 (join_data ''ALICE''), Sync ''BOB joins ALICE'',
      tell 0 T_GO [], Sync ''host GO -> START'',
      CloseIt 1, Sync ''guest leaves a STARTED room -> PEER_LEFT''] @
     sd_hello 2 2 ''CAROL'' @ sd_hello 2 3 ''DAVE'' @
     [Send 3 (join_data ''CAROL''), Sync ''DAVE joins CAROL'',
      CloseIt 2, Sync ''host leaves a FORMING room -> ROOM 0''] @
     sd_hello 2 4 ''EVE'' @ sd_hello 2 5 ''FRANK'' @
     [Send 5 (join_data ''EVE''), Sync ''FRANK joins EVE'',
      CloseIt 5, Sync ''guest leaves a FORMING room of 2 -> dissolve''] @
     sd_hello 2 6 ''GRACE'' @
     [tell 6 T_BYE [], Sync ''BYE''] @
     sd_hello 2 7 ''HEIDI'' @
     [Send 7 (hello_data 2 ''!!''), Sync ''a bad name drops the connection'']"

text \<open>A frame in pieces, the pieces given by their lengths; the last takes the rest.\<close>

fun send_split :: "nat \<Rightarrow> nat list \<Rightarrow> byte list \<Rightarrow> sd_step list" where
  "send_split i [] bs = [Send i (Inr bs)]"
| "send_split i (n # ns) bs = Send i (Inr (take n bs)) # send_split i ns (drop n bs)"

definition in_pieces :: "nat \<Rightarrow> nat list \<Rightarrow> sim_error + byte list \<Rightarrow> sd_step list" where
  "in_pieces i ns data = (case data of Inl e \<Rightarrow> [Send i (Inl e)] | Inr bs \<Rightarrow> send_split i ns bs)"

text \<open>Frames in one write.\<close>

definition together :: "(sim_error + byte list) list \<Rightarrow> sim_error + byte list" where
  "together ds = (case map_val (\<lambda>d. d) ds of Inl e \<Rightarrow> Inl e | Inr bs \<Rightarrow> Inr (concat bs))"

definition s6_framing :: "nat \<Rightarrow> sd_step list" where
  "s6_framing proto =
     sd_hello proto 0 ''ALICE'' @
     in_pieces 0 [1] (sd_frame T_PING []) @ [Sync ''PING dribbled one byte at a time''] @
     [Send 0 (together [sd_frame T_PING [], sd_frame T_PING []]), Sync ''two frames in one write''] @
     in_pieces 0 [2] (together [sd_frame T_LIST [], sd_frame T_LIST [], sd_frame T_LIST []]) @
     [Sync ''three LISTs split mid-frame''] @
     in_pieces 0 [1, 3] (join_data ''NOBODY'') @ [Sync ''JOIN in three fragments''] @
     [Connect ''BADLEN'', Send 1 (Inr [0x00]), Sync ''length byte 0 -> bad frame length'',
      Connect ''BADLEN2'', Send 2 (Inr [0xC9]), Sync ''length byte 201 -> bad frame length''] @
     sd_hello proto 3 ''DAVE'' @
     [tell 3 0x7F [], Sync ''unknown type $7F'']"

text \<open>
  The labels \<^verbatim>\<open>IP0\<close> to \<^verbatim>\<open>IP8\<close>. The bench serves each connection before the next is
  made, so it always turns the last one away; between processes the one that loses is a
  matter of luck, which is why \<^verbatim>\<open>compare\<close> sorts this scenario.
\<close>

definition s7_limits :: "sd_step list" where
  "s7_limits =
     map Connect [''IP0'', ''IP1'', ''IP2'', ''IP3'', ''IP4'', ''IP5'', ''IP6'', ''IP7'', ''IP8''] @
     [Sync ''9 connections from one IP'']"

section \<open>The scripts of protocol 1\<close>

definition v1_roster_order :: "sd_step list" where
  "v1_roster_order =
     sd_hello 1 0 ''ALICE'' @ sd_hello 1 1 ''BOB'' @ sd_hello 1 2 ''CAROL'' @
     tell_all [0, 1, 2] T_LIST @ [Sync ''LIST from each''] @
     [Send 2 (hello_data 1 ''CAROL2''), Sync ''CAROL renames to CAROL2''] @
     sd_hello 1 3 ''DAVE'' @
     [Send 3 (hello_data 1 ''BOB''), Sync ''DAVE steals the name BOB''] @
     tell_all [0, 3] T_LIST @ [Sync ''LIST after the churn''] @
     [CloseIt 0, Sync ''ALICE disconnects''] @
     tell_all [3] T_LIST @ [Sync ''LIST after a drop''] @
     sd_hello 7 4 ''EVE'' @
     tell_all [4] T_LIST @ [Sync ''HELLO with an absurd version byte is accepted'']"

definition v1_pairing :: "sd_step list" where
  "v1_pairing =
     sd_hello 1 0 ''ALICE'' @ sd_hello 1 1 ''BOB'' @ sd_hello 1 2 ''CAROL'' @
     [tell 2 T_LIST [], Sync ''status: everyone idle (0)'',
      Send 1 (join_data ''ALICE''), Sync ''BOB joins ALICE -> both START'',
      tell 2 T_LIST [], Sync ''status: both busy (1)'',
      Send 2 (join_data ''ALICE''), Sync ''JOIN a busy player -> LOBBY'',
      Send 2 (join_data ''NOBODY''), Sync ''JOIN an unknown name -> LOBBY'',
      Send 2 (join_data ''CAROL''), Sync ''self-join -> LOBBY'',
      tell 2 T_JOIN (map word_of_nat (str_of ''THISNAMEISWAYTOOLONG'')),
      Sync ''JOIN an over-long name -> LOBBY'',
      Send 1 (join_data ''CAROL''), Sync ''JOIN while matched is silent'',
      tell 0 T_PING [], Sync ''PING -> PONG'',
      tell 2 T_GO [], Sync ''GO is an unknown type in v1'']"

definition v1_relay_crc :: "sd_step list" where
  "v1_relay_crc =
     sd_hello 1 0 ''ALICE'' @ sd_hello 1 1 ''BOB'' @
     [tell 0 T_INPUT [1, 0, 0x40, 0], Sync ''relay before a match (dropped)'',
      Send 1 (join_data ''ALICE''), Sync ''BOB joins ALICE'',
      tell 0 T_INPUT [7, 0, 0x40, 0], Sync ''INPUT fanout (untagged, 4 bytes)'',
      tell 1 T_STATE ([0, 0] @ map word_of_nat [0..<96]), Sync ''96-byte STATE fanout'',
      tell 0 T_RESYNC [5, 0], Sync ''RESYNC fanout''] @
     concat (map (\<lambda>t. [Send 0 (crc_data [t, 0, 0x11, 0x22]), Send 1 (crc_data [t, 0, 0x11, 0x22])])
       [0..<4]) @
     [Sync ''four agreed CRC pairs'',
      Send 0 (crc_data [9, 0, 0xAA, 0x00]), Send 1 (crc_data [9, 0, 0xBB, 0x00]),
      Sync ''a CRC mismatch''] @
     map (\<lambda>t. Send 0 (crc_data [t AND 0xFF, drop_bit 8 t, 0x33, 0x44])) [100..<170] @
     [Sync ''70 unanswered ticks (eviction)'',
      Send 1 (crc_data [100, 0, 0x33, 0x44]), Sync ''answer an evicted tick'',
      Send 1 (crc_data [169, 0, 0x33, 0x44]), Sync ''answer a surviving tick'']"

definition v1_drops :: "sd_step list" where
  "v1_drops =
     sd_hello 1 0 ''ALICE'' @ sd_hello 1 1 ''BOB'' @
     [Send 1 (join_data ''ALICE''), Sync ''BOB joins ALICE'',
      CloseIt 1, Sync ''partner leaves -> PEER_LEFT'',
      tell 0 T_LIST [], Sync ''ALICE is idle again''] @
     sd_hello 1 2 ''CAROL'' @
     [tell 2 T_BYE [], Sync ''BYE''] @
     sd_hello 1 3 ''DAVE'' @
     [Send 3 (hello_data 1 ''!!''), Sync ''a bad name drops the connection'',
      Connect ''NOHELLO'', Send 4 (join_data ''ALICE''), Sync ''JOIN before HELLO drops'']"

text \<open>The tables of \<^verbatim>\<open>SCENARIOS_V2\<close> and \<^verbatim>\<open>SCENARIOS_V1\<close>, for a number of seats.\<close>

definition scripts_v2 :: "nat \<Rightarrow> (string \<times> sd_step list) list" where
  "scripts_v2 seats =
     [(''roster'', s1_roster_order), (''rooms'', s2_rooms seats), (''start'', s3_go_start),
      (''relay'', s4_relay_crc), (''drops'', s5_drop_matrix), (''framing'', s6_framing 2),
      (''limits'', s7_limits)]"

definition scripts_v1 :: "(string \<times> sd_step list) list" where
  "scripts_v1 =
     [(''roster'', v1_roster_order), (''pairing'', v1_pairing), (''relay'', v1_relay_crc),
      (''drops'', v1_drops), (''framing'', s6_framing 1), (''limits'', s7_limits)]"

end
