(* ===== verification/Soak.thy ===== *)
theory Soak
  imports Bench Differ
begin

text \<open>
  \<^verbatim>\<open>tools/soak.py\<close> and \<^verbatim>\<open>test/lobby_idlers.py\<close>: the load the first puts on a relay (the
  memory it samples is the measured process's), and the parked clients of the second with
  what they do on the frames they receive.
\<close>

section \<open>The soak's load\<close>

text \<open>
  A send to a connection the relay has closed raises when the reset has already come in
  (\<open>late\<close>); before that the bytes are lost.
\<close>

definition offer :: "bool \<Rightarrow> nat \<Rightarrow> byte list \<Rightarrow> prog" where
  "offer late i data b = (if alive b i = None \<and> \<not> late then (b, None) else push i data b)"

definition soak_frame :: "bool \<Rightarrow> nat \<Rightarrow> byte \<Rightarrow> byte list \<Rightarrow> prog" where
  "soak_frame late i t p = bind_val (sd_frame t p) (offer late i)"

definition soak_hello :: "bool \<Rightarrow> pystr \<Rightarrow> prog" where
  "soak_hello late name b =
     seq (dial name)
         (bind_val (utf8_encode name) (\<lambda>nm. soak_frame late (length (bn_clis b)) T_HELLO (2 # nm))) b"

text \<open>\<^verbatim>\<open>f"IDLE{i:02d}"\<close>.\<close>

definition idle_name :: "nat \<Rightarrow> pystr" where
  "idle_name i = str_of ''IDLE'' @ dec2 i"

text \<open>The start: the connection that tells the server is up, the match of clients 0 and 1,
  and the idle clients.\<close>

definition soak_setup :: "bool \<Rightarrow> nat \<Rightarrow> prog" where
  "soak_setup late idle = block
     [probe,
      soak_hello late (str_of ''MATCHA''),
      soak_hello late (str_of ''MATCHB''),
      bind_val (sd_pad (str_of ''MATCHA'')) (soak_frame late 1 T_JOIN),
      soak_frame late 0 T_GO [],
      for_each (\<lambda>i. soak_hello late (idle_name i)) [0..<idle]]"

text \<open>One beat of the match; the tick is a 16-bit counter.\<close>

definition next_tick :: "nat \<Rightarrow> nat" where "next_tick tick = (tick + 1) AND 0xFFFF"

definition soak_beat :: "bool \<Rightarrow> nat \<Rightarrow> prog" where
  "soak_beat late tick =
     (let lo = word_of_nat (tick AND 0xFF); hi = word_of_nat (drop_bit 8 tick)
      in block
     [soak_frame late 0 T_INPUT [0, lo, hi, 0x40, 0],
      soak_frame late 0 T_CRC [0, lo, hi, 0x11, 0x22],
      soak_frame late 1 T_INPUT [1, lo, hi, 0x20, 0],
      soak_frame late 1 T_CRC [1, lo, hi, 0x11, 0x22]])"

section \<open>The soak's loop\<close>

record soak =
  sk_tick :: nat
  sk_next_tick :: real
  sk_next_sample :: real
  sk_rss :: "nat list"
  sk_hwm :: nat

type_synonym soaking = "bench \<times> soak"

text \<open>A beat when it is due; \<open>True\<close> says that a send raised, which ends the loop.\<close>

definition soak_tick :: "bool \<Rightarrow> real \<Rightarrow> real \<Rightarrow> soaking \<Rightarrow> soaking \<times> bool" where
  "soak_tick late period now w =
     (case w of (b, k) \<Rightarrow>
        if now \<ge> sk_next_tick k
        then (let k = k\<lparr>sk_next_tick := sk_next_tick k + period, sk_tick := next_tick (sk_tick k)\<rparr>
              in case soak_beat late (sk_tick k) b of (b, e) \<Rightarrow> ((b, k), e \<noteq> None))
        else (w, False))"

text \<open>The sample of the process's memory: its size, 0 if it could not be read, and its peak.\<close>

definition soak_sample :: "real \<Rightarrow> real \<Rightarrow> nat \<Rightarrow> nat \<Rightarrow> soak \<Rightarrow> soak" where
  "soak_sample every now rss hwm k =
     (if now \<ge> sk_next_sample k
      then k\<lparr>sk_next_sample := sk_next_sample k + every,
             sk_rss := (if rss \<noteq> 0 then sk_rss k @ [rss] else sk_rss k),
             sk_hwm := max (sk_hwm k) hwm\<rparr>
      else k)"

text \<open>
  The loop, given what each turn reads: the clock in the condition and in the body, and the
  memory. The relay's clock is the same one.
\<close>

fun soak_loop ::
    "bool \<Rightarrow> real \<Rightarrow> real \<Rightarrow> real \<Rightarrow> real \<Rightarrow> (real \<times> real \<times> nat \<times> nat) list \<Rightarrow> soaking \<Rightarrow> soaking" where
  "soak_loop late t0 secs period every [] w = w"
| "soak_loop late t0 secs period every ((start, now, rss, hwm) # turns) w =
     (if start - t0 < secs
      then (case soak_tick late period now (fst (wait_until now (fst w)), snd w) of
              (w, True) \<Rightarrow> w
            | ((b, k), False) \<Rightarrow>
                soak_loop late t0 secs period every turns (all_read b, soak_sample every now rss hwm k))
      else w)"

text \<open>The verdict on the samples: the last third's mean less the first third's.\<close>

definition soak_growth :: "nat list \<Rightarrow> real" where
  "soak_growth rss =
     (let third = max 1 (length rss div 3)
      in real (sum_list (drop (length rss - third) rss)) / real third -
         real (sum_list (take third rss)) / real third)"

record soak_args =
  so_secs :: real
  so_idle :: nat
  so_hz :: real
  so_every :: real

definition soak_defaults :: soak_args where
  "soak_defaults = \<lparr>so_secs = 120, so_idle = 32, so_hz = 20, so_every = 5\<rparr>"

text \<open>What \<^verbatim>\<open>main\<close> ends with; the growth is before rounding.\<close>

record soak_report =
  rp_idle :: nat
  rp_samples :: nat
  rp_first :: nat
  rp_last :: nat
  rp_max :: nat
  rp_hwm :: nat
  rp_growth :: real
  rp_ticks :: nat

datatype soak_exit =
    SetupRaised sim_error
  | DividedByZero
  | NoSamples
  | Report soak_report

definition soak_report_of :: "nat \<Rightarrow> soak \<Rightarrow> soak_exit" where
  "soak_report_of idle k =
     (case sk_rss k of
        [] \<Rightarrow> NoSamples
      | r # rs \<Rightarrow> Report \<lparr>rp_idle = idle, rp_samples = length (r # rs), rp_first = r,
          rp_last = last (r # rs), rp_max = Max (set (r # rs)), rp_hwm = sk_hwm k,
          rp_growth = soak_growth (r # rs), rp_ticks = sk_tick k\<rparr>)"

definition soak_main ::
    "soak_args \<Rightarrow> bool \<Rightarrow> real \<Rightarrow> (real \<times> real \<times> nat \<times> nat) list \<Rightarrow> bench \<Rightarrow> bench \<times> soak_exit" where
  "soak_main a late t0 turns b =
     (case soak_setup late (so_idle a) b of
        (b, Some e) \<Rightarrow> (b, SetupRaised e)
      | (b, None) \<Rightarrow>
          if so_hz a = 0 then (b, DividedByZero)
          else
            (case soak_loop late t0 (so_secs a) (1 / so_hz a) (so_every a) turns
                    (b, \<lparr>sk_tick = 0, sk_next_tick = t0, sk_next_sample = t0, sk_rss = [], sk_hwm = 0\<rparr>) of
               (b, k) \<Rightarrow> (b, soak_report_of (so_idle a) k)))"

section \<open>The idle clients of the test rigs\<close>

record idler =
  id_goer :: bool
  id_joined :: bool
  id_go_at :: "real option"
  id_sent :: "byte list"

text \<open>\<^verbatim>\<open>str.startswith\<close>.\<close>

definition starts_with :: "pystr \<Rightarrow> pystr \<Rightarrow> bool" where
  "starts_with s p \<longleftrightarrow> take (length p) s = p"

text \<open>
  The hunter on a LOBBY body: the entries from \<open>i\<close> on, \<open>k\<close> more, until one can be
  joined.
\<close>

fun hunt :: "pystr \<Rightarrow> nat \<Rightarrow> nat \<Rightarrow> byte list \<Rightarrow> (idler, sim_error) stmt" where
  "hunt prefix 0 i body = skip"
| "hunt prefix (Suc k) i body =
     (let entry = take 9 (drop (2 + 9 * i) body); nm = decode_ascii (rstrip_nul (take 8 entry))
      in if starts_with nm prefix
         then bind_val (byte_at entry 8) (\<lambda>status.
                if status AND 0x80 = 0
                then bind_val (sim_frame T_JOIN (take 8 entry)) (\<lambda>data.
                       update (\<lambda>h. h\<lparr>id_sent := id_sent h @ data, id_joined := True\<rparr>))
                else hunt prefix k (Suc i) body)
         else hunt prefix k (Suc i) body)"

text \<open>One frame of one idler, which may be the goer, and the hunter of a prefix.\<close>

definition idler_frame ::
    "pystr option \<Rightarrow> real \<Rightarrow> real \<Rightarrow> byte list \<Rightarrow> (idler, sim_error) stmt" where
  "idler_frame hunter now go_delay body =
     seq (\<lambda>h. if id_goer h
              then bind_val (byte_at body 0) (\<lambda>t.
                     if t = T_ROOM
                     then bind_val (byte_at body 1) (\<lambda>n.
                            if n \<ge> 2 \<and> id_go_at h = None
                            then update (\<lambda>h. h\<lparr>id_go_at := Some (now + go_delay)\<rparr>) else skip)
                     else skip) h
              else (h, None))
         (\<lambda>h. case hunter of
                None \<Rightarrow> (h, None)
              | Some prefix \<Rightarrow>
                  bind_val (byte_at body 0) (\<lambda>t.
                    if t = T_LOBBY \<and> \<not> id_joined h
                    then bind_val (byte_at body 1) (\<lambda>n. hunt prefix (unat n) 0 body) else skip) h)"

text \<open>The loop over the complete frames; a single byte is never taken for one.\<close>

function idler_frames ::
    "pystr option \<Rightarrow> real \<Rightarrow> real \<Rightarrow> byte list \<Rightarrow> idler \<Rightarrow> byte list \<times> idler \<times> sim_error option" where
  "idler_frames hunter now go_delay buf h =
     (if length buf \<ge> 2 \<and> length buf \<ge> unat (hd buf) + 1
      then (let need = unat (hd buf) + 1
            in case idler_frame hunter now go_delay (tl (take need buf)) h of
                 (h', Some e) \<Rightarrow> (drop need buf, h', Some e)
               | (h', None) \<Rightarrow> idler_frames hunter now go_delay (drop need buf) h')
      else (buf, h, None))"
  by pat_completeness auto
termination
  by (relation "measure (\<lambda>(_, _, _, buf, _). length buf)") auto

declare idler_frames.simps [simp del]

text \<open>What the goer and the hunter do at the end of a turn of the loop.\<close>

definition idler_go :: "real \<Rightarrow> (idler, sim_error) stmt" where
  "idler_go now h =
     (case id_go_at h of
        Some due \<Rightarrow> if id_goer h \<and> now \<ge> due
          then bind_val (sim_frame T_GO []) (\<lambda>data.
                 update (\<lambda>h. h\<lparr>id_sent := id_sent h @ data, id_go_at := None, id_goer := False\<rparr>)) h
          else (h, None)
      | None \<Rightarrow> (h, None))"

definition idler_poll :: "pystr option \<Rightarrow> (idler, sim_error) stmt" where
  "idler_poll hunter h =
     (if hunter \<noteq> None \<and> \<not> id_joined h
      then bind_val (sim_frame T_LIST []) (\<lambda>data. update (\<lambda>h. h\<lparr>id_sent := id_sent h @ data\<rparr>)) h
      else (h, None))"

end
