(* ===== verification/Trace.thy ===== *)
theory Trace
  imports Regex
begin

text \<open>
  The tools that read jzIntv debugger logs: \<^verbatim>\<open>tools/crc_trace_diff.py\<close> (the checksum
  rings of two runs), \<^verbatim>\<open>tools/cell_diff.py\<close>, \<^verbatim>\<open>tools/mk_replay.py\<close> and
  \<^verbatim>\<open>tools/check_dest_phase.py\<close>. A log is its text; what the tools print is a value.
\<close>

section \<open>crc_trace_diff.py: parse\<close>

text \<open>\<^verbatim>\<open>^([0-9A-F]{4}):((?:\s+[0-9A-F]{4}\*?){1,8})\s*#\<close>, multi-line.\<close>

definition hex_word :: rx where
  "hex_word = Rep (Cls is_hex) 4 (Some 4)"

definition spaces :: "nat \<Rightarrow> rx" where
  "spaces lo = Rep (Cls is_space) lo None"

definition dump_word :: rx where
  "dump_word = cat [spaces 1, hex_word, Rep (chr 42) 0 (Some 1)]"

definition DUMP_RE :: rx where
  "DUMP_RE = cat [Bol True, Grp 1 hex_word, chr 58, Grp 2 (Rep dump_word 1 (Some 8)), spaces 0, chr 35]"

type_synonym memory = "(nat, nat) dict"

definition store_words :: "nat \<Rightarrow> nat list \<Rightarrow> memory \<Rightarrow> memory" where
  "store_words addr ws mem = fold (\<lambda>(i, w) d. dict_set d (addr + i) w) (enumerate 0 ws) mem"

definition store_match :: "spot \<Rightarrow> memory \<Rightarrow> memory" where
  "store_match m mem =
     (case (group 1 m, group 2 m) of
        (Some a, Some ws) \<Rightarrow> store_words (int16 a) (map (\<lambda>w. int16 (rstrip_chr 42 w)) (split_ws ws)) mem
      | _ \<Rightarrow> mem)"

definition parse :: "nat list \<Rightarrow> memory" where
  "parse text = fold store_match (finditer DUMP_RE text) []"

section \<open>crc_trace_diff.py: main\<close>

datatype trace_error = TraceKeyError

definition mem_at :: "memory \<Rightarrow> nat \<Rightarrow> trace_error + nat" where
  "mem_at mem a = (case dict_get mem a of None \<Rightarrow> Inl TraceKeyError | Some v \<Rightarrow> Inr v)"

text \<open>\<^verbatim>\<open>mem[a] | (mem[a + 1] << 8)\<close>.\<close>

definition mem_word :: "memory \<Rightarrow> nat \<Rightarrow> trace_error + nat" where
  "mem_word mem a =
     (case mem_at mem a of Inl e \<Rightarrow> Inl e
      | Inr lo \<Rightarrow> (case mem_at mem (a + 1) of Inl e \<Rightarrow> Inl e | Inr hi \<Rightarrow> Inr (lo OR push_bit 8 hi)))"

text \<open>The sim tick a ring slot holds, when the run is parked at \<open>tick\<close>.\<close>

definition slot_tick :: "nat \<Rightarrow> nat \<Rightarrow> int" where
  "slot_tick tick slot =
     (if slot \<ge> tick AND 0xFF then (int tick AND NOT 0xFF) - 0x100 + int slot
      else (int tick AND NOT 0xFF) + int slot)"

datatype slot_result = SlotMissing | SlotSame | SlotDiffers int nat nat nat

definition compare_slot :: "memory \<Rightarrow> memory \<Rightarrow> nat \<Rightarrow> nat \<Rightarrow> trace_error + slot_result" where
  "compare_slot a b tick slot =
     (let addr = 0x9000 + slot * 2
      in if dict_get a addr = None \<or> dict_get b addr = None then Inr SlotMissing
         else (case mem_word a addr of Inl e \<Rightarrow> Inl e
          | Inr ca \<Rightarrow> (case mem_word b addr of Inl e \<Rightarrow> Inl e
          | Inr cb \<Rightarrow> Inr (if ca \<noteq> cb then SlotDiffers (slot_tick tick slot) slot ca cb else SlotSame))))"

definition anim_field :: "nat \<Rightarrow> bool" where
  "anim_field x \<longleftrightarrow> 0x031D \<le> x \<and> x < 0x035D \<and> (x - 0x031D) mod 8 = 5"

definition common_keys :: "memory \<Rightarrow> memory \<Rightarrow> nat list" where
  "common_keys a b = sort (filter (\<lambda>x. x \<in> set (dict_keys b)) (dict_keys a))"

definition settled :: "memory \<Rightarrow> memory \<Rightarrow> nat list" where
  "settled a b =
     filter (\<lambda>x. dict_get a x \<noteq> dict_get b x \<and> \<not> anim_field x \<and>
        (0x015D \<le> x \<and> x < 0x01F0 \<or> 0x0315 \<le> x \<and> x < 0x35E)) (common_keys a b)"

text \<open>How the comparison ends: its exits in the order of the code.\<close>

datatype trace_verdict =
    NoTickDump string
  | ParkMismatch nat nat
  | SettledFail "nat list"
  | DeterminismFail "(int \<times> nat \<times> nat \<times> nat) list" int
  | DeterminismPass

definition mismatches :: "slot_result list \<Rightarrow> (int \<times> nat \<times> nat \<times> nat) list" where
  "mismatches rs =
     List.map_filter (\<lambda>r. case r of SlotDiffers t s ca cb \<Rightarrow> Some (t, s, ca, cb) | _ \<Rightarrow> None) rs"

definition trace_diff :: "memory \<Rightarrow> memory \<Rightarrow> trace_error + trace_verdict" where
  "trace_diff a b =
     (if dict_get a 0x8108 = None then Inr (NoTickDump ''A'')
      else if dict_get b 0x8108 = None then Inr (NoTickDump ''B'')
      else (case mem_word a 0x8108 of Inl e \<Rightarrow> Inl e
       | Inr tick_a \<Rightarrow> (case mem_word b 0x8108 of Inl e \<Rightarrow> Inl e
       | Inr tick_b \<Rightarrow>
           if tick_a \<noteq> tick_b then Inr (ParkMismatch tick_a tick_b)
           else (case map_val (compare_slot a b tick_a) [0..<256] of Inl e \<Rightarrow> Inl e
            | Inr rs \<Rightarrow>
                if settled a b \<noteq> [] then Inr (SettledFail (settled a b))
                else if mismatches rs \<noteq> []
                then Inr (DeterminismFail (mismatches rs) (Min (set (map fst (mismatches rs)))))
                else Inr DeterminismPass))))"

definition crc_trace_main :: "nat list \<Rightarrow> nat list \<Rightarrow> trace_error + trace_verdict" where
  "crc_trace_main log_a log_b = trace_diff (parse log_a) (parse log_b)"

section \<open>cell_diff.py\<close>

definition cell_diff :: "nat list \<Rightarrow> nat list \<Rightarrow> (nat \<times> nat option \<times> nat option) list" where
  "cell_diff log_a log_b =
     (let a = parse log_a; b = parse log_b
      in map (\<lambda>x. (x, dict_get a x, dict_get b x))
           (filter (\<lambda>x. dict_get a x \<noteq> dict_get b x \<and>
              (0x015D \<le> x \<and> x \<le> 0x01EF \<or> 0x02F0 \<le> x \<and> x \<le> 0x035F)) (common_keys a b)))"

section \<open>mk_replay.py\<close>

definition REC_CAP :: nat where "REC_CAP = 768"

definition get_or :: "memory \<Rightarrow> nat \<Rightarrow> nat \<Rightarrow> nat" where
  "get_or mem a v = (case dict_get mem a of None \<Rightarrow> v | Some w \<Rightarrow> w)"

definition replay_row :: "memory \<Rightarrow> nat \<Rightarrow> nat list" where
  "replay_row mem t =
     (let slot = 0x9000 + t * 4
      in [get_or mem slot 0x40 AND 0xFF, get_or mem (slot + 1) 0x40 AND 0xFF,
          get_or mem (slot + 2) 0 AND 0xFF, get_or mem (slot + 3) 0 AND 0xFF])"

text \<open>The length line and the rows of the table.\<close>

definition mk_replay :: "nat list \<Rightarrow> nat \<times> nat list list" where
  "mk_replay text =
     (let mem = parse text;
          ticks = get_or mem 0x8108 0 OR push_bit 8 (get_or mem 0x8109 0)
      in (min ticks REC_CAP, map (replay_row mem) [0..<REC_CAP]))"

section \<open>check_dest_phase.py\<close>

text \<open>\<^verbatim>\<open>^\s*(?:[0-9A-F]{4}\s+){7}([0-9A-F]{4})\s+\S+\s+\S\<close>, multi-line.\<close>

definition PC_RE :: rx where
  "PC_RE = cat [Bol True, spaces 0, Rep (Cat hex_word (spaces 1)) 7 (Some 7), Grp 1 hex_word,
     spaces 1, Rep (Cls (\<lambda>c. \<not> is_space c)) 1 None, spaces 1, Cls (\<lambda>c. \<not> is_space c)]"

definition pcs :: "nat list \<Rightarrow> nat list" where
  "pcs text = map (\<lambda>m. case group 1 m of None \<Rightarrow> 0 | Some w \<Rightarrow> int16 w) (finditer PC_RE text)"

definition PARK_PCS :: "nat list" where "PARK_PCS = [0x5E90, 0x5EA7, 0x5EAE]"
definition TERMINAL_PHASE :: nat where "TERMINAL_PHASE = 6"

definition BOOT_INVENTORY :: "nat list" where
  "BOOT_INVENTORY = [0x11, 0x11, 0x22, 0x11, 0x33, 0x22, 0x11, 0x22, 0x33]"

definition inventory_changed :: "memory \<Rightarrow> bool" where
  "inventory_changed mem =
     (let inventory = map (\<lambda>i. dict_get mem (0x1B5 + i)) [0..<9]
      in None \<notin> set inventory \<and> inventory \<noteq> map Some BOOT_INVENTORY)"

definition fleet_launched :: "memory \<Rightarrow> bool" where
  "fleet_launched mem =
     list_ex (\<lambda>i. case dict_get mem (0x17D + i) of None \<Rightarrow> False | Some v \<Rightarrow> v AND 0x04 \<noteq> 0) [0..<8]"

datatype problem =
    NoMemoryDumps
  | NoPhaseDump
  | GameOver nat
  | NoInputLanded
  | SelfLoop nat
  | ObjectsEmpty

definition dest_check :: "nat list \<Rightarrow> problem list" where
  "dest_check text =
     (let mem = parse text; ps = pcs text
      in if mem = [] then [NoMemoryDumps]
         else
           (case dict_get mem 0x164 of None \<Rightarrow> [NoPhaseDump]
            | Some phase \<Rightarrow> if phase = TERMINAL_PHASE then [GameOver phase] else []) @
           (if \<not> inventory_changed mem \<and> \<not> fleet_launched mem then [NoInputLanded] else []) @
           (if ps \<noteq> [] \<and> last ps \<in> set PARK_PCS then [SelfLoop (last ps)] else []) @
           (if \<not> list_ex (\<lambda>a. get_or mem a 0 \<noteq> 0) [0x31D..<0x35D] then [ObjectsEmpty] else []))"

text \<open>The module's loop over its arguments; the exit status is 1 when there are problems.\<close>

definition dest_phase_main :: "nat list list \<Rightarrow> (nat \<times> problem) list \<times> nat" where
  "dest_phase_main logs =
     (let problems = concat (map (\<lambda>(i, text). map (Pair i) (dest_check text)) (enumerate 0 logs))
      in (problems, if problems \<noteq> [] then 1 else 0))"

end
