(* ===== verification/TraceProps.thy ===== *)
theory TraceProps
  imports Trace
begin

text \<open>
  Properties of the log tools: the parser reads back exactly what a debugger dump says,
  whatever other lines surround it, and the verdicts mean what they are printed for.
\<close>

section \<open>The first way a pattern matches\<close>

definition first :: "spot list \<Rightarrow> spot \<Rightarrow> bool" where
  "first ts t \<longleftrightarrow> (\<exists>us. ts = t # us)"

lemma first_one [simp]: "first [t] t"
  by (simp add: first_def)

lemma first_Cat: "first (ways r s) t \<Longrightarrow> first (ways q t) u \<Longrightarrow> first (ways (Cat r q) s) u"
  by (auto simp: first_def)

lemma first_Grp: "first (ways r s) t \<Longrightarrow> first (ways (Grp g r) s) (captured g s t)"
  by (auto simp: first_def)

lemma first_reps:
  assumes "first (f s) t" and "length (ahead t) < length (ahead s)" and "hi \<noteq> Some 0"
    and "first (reps f (lo - 1) (map_option (\<lambda>n. n - 1) hi) t) u"
  shows "first (reps f lo hi s) u"
proof -
  obtain us where us: "f s = t # us" using assms(1) by (auto simp: first_def)
  show ?thesis
    using assms(2-4) by (subst reps.simps) (auto simp: us first_def)
qed

lemma captured_eq [simp]:
  "captured g (pre, x, caps) (rev w @ pre, rest, caps') = (rev w @ pre, rest, (g, w) # caps')"
  by (simp add: captured_def)

lemma ways_hex_word:
  "ways hex_word (pre, x, caps) =
     (if 4 \<le> length x \<and> (\<forall>c \<in> set (take 4 x). is_hex c) then [(rev (take 4 x) @ pre, drop 4 x, caps)] else [])"
proof -
  have "reps (ways (Cls is_hex)) n (Some n) (pre, x, caps) =
     (if n \<le> length x \<and> (\<forall>c \<in> set (take n x). is_hex c) then [(rev (take n x) @ pre, drop n x, caps)] else [])"
    for n
  proof (induction n arbitrary: pre x)
    case 0
    show ?case by (simp add: reps_zero)
  next
    case (Suc n)
    show ?case
    proof (cases x)
      case Nil
      then show ?thesis by (simp add: reps_none)
    next
      case (Cons c cs)
      show ?thesis
      proof (cases "is_hex c")
        case True
        then show ?thesis
          using Suc.IH [of "c # pre" cs] Cons
          by (subst reps_one [where t = "(c # pre, cs, caps)"]) simp_all
      next
        case False
        then show ?thesis by (simp add: Cons reps_none)
      qed
    qed
  qed
  from this [of 4] show ?thesis by (simp add: hex_word_def)
qed

lemma first_hex4: "first (ways hex_word (pre, hex4 v @ rest, caps)) (rev (hex4 v) @ pre, rest, caps)"
  using hex4_hex [of _ v] by (simp add: ways_hex_word)

lemma first_spaces:
  assumes "\<forall>c \<in> set sp. is_space c" and "rest = [] \<or> \<not> is_space (hd rest)" and "lo \<le> length sp"
  shows "first (ways (spaces lo) (pre, sp @ rest, caps)) (rev sp @ pre, rest, caps)"
  using reps_run [OF assms, of pre caps] by (auto simp: spaces_def first_def)

section \<open>Dump lines\<close>

text \<open>
  What the debugger prints: dump lines, each with an address, up to eight words (each after
  some white space, marked with a star or not) and a comment, and lines of other kinds.
\<close>

type_synonym word_item = "nat list \<times> nat \<times> bool"

definition show_word :: "word_item \<Rightarrow> nat list" where
  "show_word i = (case i of (sp, w, star) \<Rightarrow> sp @ hex4 w @ (if star then [42] else []))"

datatype log_line = Other "nat list" | Dump nat "word_item list" "nat list" "nat list"

fun show_line :: "log_line \<Rightarrow> nat list" where
  "show_line (Other t) = t @ [10]"
| "show_line (Dump a ws sp c) = hex4 a @ 58 # concat (map show_word ws) @ sp @ 35 # c @ [10]"

definition item_ok :: "word_item \<Rightarrow> bool" where
  "item_ok i = (case i of (sp, w, star) \<Rightarrow> sp \<noteq> [] \<and> (\<forall>c \<in> set sp. is_space c) \<and> w < 65536)"

text \<open>A line of another kind has no colon in the fifth place.\<close>

fun line_ok :: "log_line \<Rightarrow> bool" where
  "line_ok (Other t) \<longleftrightarrow> 10 \<notin> set t \<and> (length t \<le> 4 \<or> t ! 4 \<noteq> 58)"
| "line_ok (Dump a ws sp c) \<longleftrightarrow> a < 65536 \<and> 1 \<le> length ws \<and> length ws \<le> 8 \<and>
     (\<forall>i \<in> set ws. item_ok i) \<and> (\<forall>x \<in> set sp. is_space x) \<and> 10 \<notin> set c"

lemma hex_colon: "\<not> is_hex 35 \<and> \<not> is_space 35 \<and> \<not> is_hex 42 \<and> \<not> is_space 42"
  by (simp add: is_hex_def is_space_def)

lemma space_not_hex: "is_space c \<Longrightarrow> \<not> is_hex c \<and> c \<noteq> 42"
  by (auto simp: is_space_def is_hex_def)

lemma hd_hex4: "hex4 v @ x \<noteq> [] \<and> \<not> is_space (hd (hex4 v @ x))"
  using hex4_hex [of "hd (hex4 v)" v] by (simp add: hex4_def)

lemma first_word:
  assumes i: "item_ok (sp, w, star)" and rest: "rest = [] \<or> hd rest \<noteq> 42"
  shows "first (ways dump_word (pre, show_word (sp, w, star) @ rest, caps))
    (rev (show_word (sp, w, star)) @ pre, rest, caps)"
proof -
  let ?tail = "(if star then [42] else []) @ rest"
  let ?p = "rev (hex4 w) @ rev sp @ pre"
  have 1: "first (ways (spaces 1) (pre, sp @ hex4 w @ ?tail, caps)) (rev sp @ pre, hex4 w @ ?tail, caps)"
    by (rule first_spaces) (use i hd_hex4 [of w ?tail] in \<open>simp_all add: item_ok_def Suc_le_eq\<close>)
  have 2: "first (ways hex_word (rev sp @ pre, hex4 w @ ?tail, caps)) (?p, ?tail, caps)"
    by (rule first_hex4)
  have 3: "first (ways (Rep (chr 42) 0 (Some 1)) (?p, ?tail, caps)) ((if star then [42] else []) @ ?p, rest, caps)"
  proof (cases star)
    case True
    then show ?thesis
      by (simp add: chr_def) (subst reps_one [where t = "(42 # ?p, rest, caps)"], simp_all add: reps_zero first_def)
  next
    case False
    have none: "ways (Cls (\<lambda>d. d = 42)) (?p, rest, caps) = []"
      using rest by (cases rest) simp_all
    show ?thesis using False reps_none [where f = "ways (Cls (\<lambda>d. d = 42))", OF none, of 0 "Some 1"] by (simp add: chr_def first_def)
  qed
  have "first (ways dump_word (pre, sp @ hex4 w @ ?tail, caps)) ((if star then [42] else []) @ ?p, rest, caps)"
    unfolding dump_word_def cat.simps by (rule first_Cat [OF 1 first_Cat [OF 2 3]])
  then show ?thesis by (cases star) (simp_all add: show_word_def)
qed

text \<open>In front of the comment no further word matches.\<close>

lemma no_word:
  assumes sp: "\<forall>x \<in> set sp. is_space x"
  shows "ways dump_word (pre, sp @ 35 # rest, caps) = []"
proof (cases sp)
  case Nil
  then show ?thesis
    by (simp add: dump_word_def spaces_def reps_none hex_colon)
next
  case (Cons s ss)
  obtain ts where ts: "ways (spaces 1) (pre, sp @ 35 # rest, caps) = (rev sp @ pre, 35 # rest, caps) # ts"
    "\<forall>t \<in> set ts. \<exists>k < length sp. t = (rev (take k sp) @ pre, drop k sp @ 35 # rest, caps)"
    using reps_run [OF sp, of "35 # rest" 1 pre caps] hex_colon Cons by (auto simp: spaces_def)
  have "ways hex_word (p, x # y, caps) = []" if "\<not> is_hex x" for p x y
    using that by (simp add: ways_hex_word)
  moreover have "\<exists>x y. drop k sp @ 35 # rest = x # y \<and> \<not> is_hex x" if "k < length sp" for k
    using sp space_not_hex [of "sp ! k"] that by (simp add: Cons_nth_drop_Suc [symmetric])
  ultimately have "ways hex_word t = []" if "t \<in> set ((rev sp @ pre, 35 # rest, caps) # ts)" for t
    using that ts(2) hex_colon by fastforce
  then show ?thesis
    by (simp only: dump_word_def cat.simps ways.simps ts) auto
qed

lemma hd_after_word:
  assumes "\<forall>i \<in> set ws. item_ok i" and "\<forall>x \<in> set sp. is_space x"
  shows "hd (concat (map show_word ws) @ sp @ 35 # rest) \<noteq> 42"
proof (cases ws)
  case Nil
  then show ?thesis using assms(2) space_not_hex by (cases sp) auto
next
  case (Cons i js)
  then obtain s w star where "i = (s, w, star)" "s \<noteq> []" "is_space (hd s)"
    using assms(1) by (cases i) (auto simp: item_ok_def)
  then show ?thesis using Cons space_not_hex by (auto simp: show_word_def)
qed

lemma first_words:
  assumes "\<forall>i \<in> set ws. item_ok i" and "\<forall>x \<in> set sp. is_space x"
    and "lo \<le> length ws" and "length ws \<le> hi"
  shows "first (reps (ways dump_word) lo (Some hi) (pre, concat (map show_word ws) @ sp @ 35 # rest, caps))
    (rev (concat (map show_word ws)) @ pre, sp @ 35 # rest, caps)"
  using assms
proof (induction ws arbitrary: lo hi pre)
  case Nil
  then show ?case by (simp add: reps_none no_word)
next
  case (Cons i ws)
  obtain s w star where i: "i = (s, w, star)" by (cases i)
  let ?rest = "concat (map show_word ws) @ sp @ 35 # rest"
  have f: "first (ways dump_word (pre, show_word i @ ?rest, caps)) (rev (show_word i) @ pre, ?rest, caps)"
    unfolding i by (rule first_word) (use Cons.prems i hd_after_word [of ws sp rest] in simp_all)
  have len: "0 < length (show_word i)" by (simp add: i show_word_def)
  have "first (reps (ways dump_word) (lo - 1) (Some (hi - 1)) (rev (show_word i) @ pre, ?rest, caps))
      (rev (concat (map show_word ws)) @ rev (show_word i) @ pre, sp @ 35 # rest, caps)"
    by (rule Cons.IH) (use Cons.prems in auto)
  then have "first (reps (ways dump_word) lo (Some hi) (pre, show_word i @ ?rest, caps))
      (rev (concat (map show_word ws)) @ rev (show_word i) @ pre, sp @ 35 # rest, caps)"
    by (intro first_reps [where f = "ways dump_word", OF f]) (use len Cons.prems in auto)
  then show ?case by simp
qed


section \<open>The parser reads what the dump says\<close>

abbreviation dump_end :: "nat list \<Rightarrow> nat \<Rightarrow> word_item list \<Rightarrow> nat list \<Rightarrow> nat list" where
  "dump_end pre a ws sp \<equiv> 35 # rev sp @ rev (concat (map show_word ws)) @ 58 # rev (hex4 a) @ pre"

lemma first_dump:
  assumes ok: "line_ok (Dump a ws sp c)" and bol: "pre = [] \<or> hd pre = 10"
  shows "first (ways DUMP_RE (pre, hex4 a @ 58 # concat (map show_word ws) @ sp @ 35 # rest, []))
    (dump_end pre a ws sp, rest, [(2, concat (map show_word ws)), (1, hex4 a)])"
proof -
  let ?w = "concat (map show_word ws)"
  let ?g = "[(1, hex4 a)] :: (nat \<times> nat list) list"
  let ?p = "58 # rev (hex4 a) @ pre"
  have 1: "first (ways (Bol True) (pre, hex4 a @ 58 # ?w @ sp @ 35 # rest, []))
      (pre, hex4 a @ 58 # ?w @ sp @ 35 # rest, [])"
    using bol by simp
  have 2: "first (ways (Grp 1 hex_word) (pre, hex4 a @ 58 # ?w @ sp @ 35 # rest, []))
      (rev (hex4 a) @ pre, 58 # ?w @ sp @ 35 # rest, ?g)"
    using first_Grp [OF first_hex4, of 1] by simp
  have 3: "first (ways (chr 58) (rev (hex4 a) @ pre, 58 # ?w @ sp @ 35 # rest, ?g)) (?p, ?w @ sp @ 35 # rest, ?g)"
    by (simp add: chr_def)
  have "first (ways (Rep dump_word 1 (Some 8)) (?p, ?w @ sp @ 35 # rest, ?g)) (rev ?w @ ?p, sp @ 35 # rest, ?g)"
    using first_words [of ws sp 1 8 ?p rest ?g] ok by simp
  from first_Grp [OF this, of 2]
  have 4: "first (ways (Grp 2 (Rep dump_word 1 (Some 8))) (?p, ?w @ sp @ 35 # rest, ?g))
      (rev ?w @ ?p, sp @ 35 # rest, (2, ?w) # ?g)"
    by simp
  have 5: "first (ways (spaces 0) (rev ?w @ ?p, sp @ 35 # rest, (2, ?w) # ?g))
      (rev sp @ rev ?w @ ?p, 35 # rest, (2, ?w) # ?g)"
    by (rule first_spaces) (use ok hex_colon in simp_all)
  have 6: "first (ways (chr 35) (rev sp @ rev ?w @ ?p, 35 # rest, (2, ?w) # ?g))
      (35 # rev sp @ rev ?w @ ?p, rest, (2, ?w) # ?g)"
    by (simp add: chr_def)
  show ?thesis
    unfolding DUMP_RE_def cat.simps
    by (rule first_Cat [OF 1 first_Cat [OF 2 first_Cat [OF 3 first_Cat [OF 4 first_Cat [OF 5 6]]]]])
qed

lemma no_dump_inside: "pre \<noteq> [] \<Longrightarrow> hd pre \<noteq> 10 \<Longrightarrow> ways DUMP_RE (pre, rest, caps) = []"
  by (simp add: DUMP_RE_def)

lemma no_dump_colon:
  assumes "4 \<le> length x \<Longrightarrow> \<forall>c \<in> set (take 4 x). is_hex c \<Longrightarrow> drop 4 x = [] \<or> hd (drop 4 x) \<noteq> 58"
  shows "ways DUMP_RE (pre, x, caps) = []"
proof (cases "4 \<le> length x \<and> (\<forall>c \<in> set (take 4 x). is_hex c)")
  case True
  have "ways (chr 58) (p, drop 4 x, cs) = []" for p cs
    using assms True by (cases "drop 4 x") (auto simp: chr_def)
  with True show ?thesis
    by (simp add: DUMP_RE_def ways_hex_word captured_def)
next
  case False
  then show ?thesis by (auto simp: DUMP_RE_def ways_hex_word)
qed

lemma no_dump_other:
  assumes "line_ok (Other t)"
  shows "ways DUMP_RE (pre, t @ 10 # rest, caps) = []"
proof (rule no_dump_colon)
  assume hex: "\<forall>c \<in> set (take 4 (t @ 10 # rest)). is_hex c"
  have "\<not> length t < 4"
  proof
    assume l: "length t < 4"
    then have "10 \<in> set (take 4 (t @ 10 # rest))" by (simp add: take_Cons')
    with hex have "is_hex 10" by blast
    then show False by (simp add: is_hex_def)
  qed
  moreover have "drop 4 t = [] \<or> hd (drop 4 t) \<noteq> 58"
    using assms by (auto simp: hd_drop_conv_nth)
  ultimately show "drop 4 (t @ 10 # rest) = [] \<or> hd (drop 4 (t @ 10 # rest)) \<noteq> 58"
    by (cases "drop 4 t") auto
qed

text \<open>To the end of the line nothing matches.\<close>

lemma scan_to_eol:
  "pre \<noteq> [] \<Longrightarrow> hd pre \<noteq> 10 \<Longrightarrow> 10 \<notin> set c \<Longrightarrow>
   matches_of (scan DUMP_RE pre (c @ 10 # rest)) = matches_of (scan DUMP_RE (10 # rev c @ pre) rest)"
proof (induction c arbitrary: pre)
  case Nil
  then show ?case by (subst scan.simps) (simp add: no_dump_inside)
next
  case (Cons x c)
  then show ?case by (subst scan.simps) (simp add: no_dump_inside)
qed

definition dump_spot :: "nat list \<Rightarrow> nat list \<Rightarrow> nat \<Rightarrow> word_item list \<Rightarrow> nat list \<Rightarrow> spot" where
  "dump_spot pre rest a ws sp =
     (dump_end pre a ws sp, rest, [(2, concat (map show_word ws)), (1, hex4 a)])"

lemma scan_dump:
  assumes ok: "line_ok (Dump a ws sp c)" and bol: "pre = [] \<or> hd pre = 10"
  shows "matches_of (scan DUMP_RE pre (show_line (Dump a ws sp c) @ rest)) =
    dump_spot pre (c @ 10 # rest) a ws sp # matches_of (scan DUMP_RE (10 # rev c @ dump_end pre a ws sp) rest)"
proof -
  let ?x = "hex4 a @ 58 # concat (map show_word ws) @ sp @ 35 # c @ 10 # rest"
  obtain us where us: "ways DUMP_RE (pre, ?x, []) = dump_spot pre (c @ 10 # rest) a ws sp # us"
    using first_dump [OF ok bol, of "c @ 10 # rest"] by (auto simp: first_def dump_spot_def)
  have "scan DUMP_RE pre ?x =
      Match (dump_spot pre (c @ 10 # rest) a ws sp) # scan DUMP_RE (dump_end pre a ws sp) (c @ 10 # rest)"
    by (subst scan.simps) (simp add: us, simp add: dump_spot_def)
  then show ?thesis
    using scan_to_eol [of "dump_end pre a ws sp" c rest] ok by simp
qed

lemma scan_other:
  assumes ok: "line_ok (Other t)" and bol: "pre = [] \<or> hd pre = 10"
  shows "\<exists>p. hd p = 10 \<and> matches_of (scan DUMP_RE pre (show_line (Other t) @ rest)) = matches_of (scan DUMP_RE p rest)"
proof (cases t)
  case Nil
  then show ?thesis
    using no_dump_other [OF ok, of pre rest "[]"] by (subst scan.simps) (auto intro: exI [of _ "10 # pre"])
next
  case (Cons x t')
  have "scan DUMP_RE pre (t @ 10 # rest) = Between x # scan DUMP_RE (x # pre) (t' @ 10 # rest)"
    using no_dump_other [OF ok, of pre rest "[]"] Cons by (subst scan.simps) simp
  then show ?thesis
    using scan_to_eol [of "x # pre" t' rest] ok Cons by (intro exI [of _ "10 # rev t' @ x # pre"]) simp
qed

subsection \<open>The words of a line\<close>

lemma dropWhile_token: "\<forall>x \<in> set tok. \<not> P x \<Longrightarrow> tok \<noteq> [] \<Longrightarrow> dropWhile P (tok @ rest) = tok @ rest"
  by (cases tok) auto

lemma split_ws_token:
  assumes sp: "\<forall>x \<in> set sp. is_space x" and tok: "tok \<noteq> []" "\<forall>x \<in> set tok. \<not> is_space x"
    and rest: "rest = [] \<or> is_space (hd rest)"
  shows "split_ws (sp @ tok @ rest) = tok # split_ws rest"
proof -
  obtain c cs where c: "tok = c # cs" using tok(1) by (cases tok) auto
  have "takeWhile (\<lambda>x. \<not> is_space x) (cs @ rest) = cs" "dropWhile (\<lambda>x. \<not> is_space x) (cs @ rest) = rest"
    using tok(2) rest c by (cases rest; auto simp: takeWhile_append dropWhile_append)+
  moreover have "dropWhile is_space (sp @ tok @ rest) = c # cs @ rest"
    using sp tok(2) c by (simp add: dropWhile_append)
  ultimately show ?thesis
    by (subst split_ws.simps) (simp add: c)
qed

lemma words_of_line:
  "\<forall>i \<in> set ws. item_ok i \<Longrightarrow>
   map (\<lambda>w. int16 (rstrip_chr 42 w)) (split_ws (concat (map show_word ws))) = map (\<lambda>i. fst (snd i)) ws"
proof (induction ws)
  case Nil
  show ?case by (subst split_ws.simps) simp
next
  case (Cons i ws)
  obtain sp w star where i: "i = (sp, w, star)" by (cases i)
  define tok where "tok = hex4 w @ (if star then [42] else [])"
  have sw: "show_word i = sp @ tok" by (simp add: i show_word_def tok_def)
  have rest: "concat (map show_word ws) = [] \<or> is_space (hd (concat (map show_word ws)))"
  proof (cases ws)
    case (Cons j js)
    then obtain s v b where "j = (s, v, b)" "s \<noteq> []" "is_space (hd s)"
      using \<open>\<forall>i \<in> set (i # ws). item_ok i\<close> by (cases j) (auto simp: item_ok_def)
    then show ?thesis using Cons by (auto simp: show_word_def)
  qed simp
  have "split_ws (sp @ tok @ concat (map show_word ws)) = tok # split_ws (concat (map show_word ws))"
    by (rule split_ws_token [OF _ _ _ rest])
      (use Cons.prems i hex4_hex [of _ w] hex_colon in \<open>auto simp: item_ok_def tok_def\<close>)
  moreover have "rstrip_chr 42 tok = hex4 w"
  proof -
    have "last (hex4 w) \<noteq> 42" "hex4 w \<noteq> []" using hex4_hex [of "last (hex4 w)" w] hex_colon by (auto simp: hex4_def)
    then have "rstrip_chr 42 (hex4 w) = hex4 w"
      by (cases "hex4 w" rule: rev_cases) (simp_all add: rstrip_chr_def)
    then show ?thesis by (simp add: rstrip_chr_def tok_def)
  qed
  moreover have "int16 (hex4 w) = w"
    using Cons.prems i by (simp add: int16_hex4 item_ok_def)
  ultimately show ?case
    using Cons i by (simp add: sw [unfolded i])
qed

fun store_line :: "log_line \<Rightarrow> memory \<Rightarrow> memory" where
  "store_line (Other t) mem = mem"
| "store_line (Dump a ws sp c) mem = store_words a (map (\<lambda>i. fst (snd i)) ws) mem"

lemma store_dump:
  "line_ok (Dump a ws sp c) \<Longrightarrow> store_match (dump_spot pre rest a ws sp) mem = store_line (Dump a ws sp c) mem"
  using words_of_line [of ws]
  by (simp add: store_match_def dump_spot_def group_def int16_hex4)

lemma parse_lines:
  "\<forall>l \<in> set ls. line_ok l \<Longrightarrow> pre = [] \<or> hd pre = 10 \<Longrightarrow>
   fold store_match (matches_of (scan DUMP_RE pre (concat (map show_line ls)))) mem = fold store_line ls mem"
proof (induction ls arbitrary: pre mem)
  case Nil
  have "ways DUMP_RE (pre, [], []) = []"
    by (simp add: DUMP_RE_def ways_hex_word)
  then show ?case by (subst scan.simps) simp
next
  case (Cons l ls)
  show ?case
  proof (cases l)
    case (Other t)
    then obtain p where "hd p = 10"
      "matches_of (scan DUMP_RE pre (show_line l @ concat (map show_line ls))) =
         matches_of (scan DUMP_RE p (concat (map show_line ls)))"
      using scan_other [of t pre] Cons.prems by auto
    with Cons Other show ?thesis by simp
  next
    case (Dump a ws sp c)
    then show ?thesis
      using Cons.IH [of "10 # rev c @ dump_end pre a ws sp"] Cons.prems
        scan_dump [of a ws sp c pre "concat (map show_line ls)"] store_dump [of a ws sp c]
      by simp
  qed
qed

lemma parse_shown:
  "\<forall>l \<in> set ls. line_ok l \<Longrightarrow> parse (concat (map show_line ls)) = fold store_line ls []"
  using parse_lines [of ls "[]"] by (simp add: parse_def finditer_def)

text \<open>C30. The parser is faithful: the memory it reads from a log is what the dump lines
  say, stored line by line, whatever lines of other kinds are between them, however the
  words are spaced and whether they are marked.\<close>

theorem parse_faithful:
  assumes "\<forall>l \<in> set ls. line_ok l"
  shows "parse (concat (map show_line ls)) = fold store_line ls []"
  by (rule parse_shown [OF assms])


section \<open>Memory blocks\<close>

lemma store_words_get:
  "dict_get (store_words a ws mem) x =
     (if a \<le> x \<and> x < a + length ws then Some (ws ! (x - a)) else dict_get mem x)"
proof (induction ws arbitrary: mem rule: rev_induct)
  case Nil
  then show ?case by (auto simp: store_words_def)
next
  case (snoc w ws)
  have "store_words a (ws @ [w]) mem = dict_set (store_words a ws mem) (a + length ws) w"
    by (simp add: store_words_def enumerate_append_eq)
  then show ?case
    by (auto simp: dict_get_set snoc.IH nth_append)
qed

lemma store_words_append:
  "store_words a (us @ ws) mem = store_words (a + length us) ws (store_words a us mem)"
proof (induction ws rule: rev_induct)
  case Nil
  then show ?case by (simp add: store_words_def)
next
  case (snoc w ws)
  have "store_words b (xs @ [w]) m = dict_set (store_words b xs m) (b + length xs) w" for b xs m
    by (simp add: store_words_def enumerate_append_eq)
  from this [of _ "us @ ws"] this show ?case using snoc by (simp add: add.assoc)
qed

text \<open>A block of memory as the debugger's \<^verbatim>\<open>m\<close> command prints it, eight words a line.\<close>

fun dump_block :: "nat \<Rightarrow> nat list \<Rightarrow> log_line list" where
  "dump_block a [] = []"
| "dump_block a (w # ws) =
     Dump a (map (\<lambda>v. ([32], v, False)) (take 8 (w # ws))) [32] [] # dump_block (a + 8) (drop 8 (w # ws))"

lemma dump_block_ok:
  "a + length ws \<le> 65536 \<Longrightarrow> \<forall>w \<in> set ws. w < 65536 \<Longrightarrow> l \<in> set (dump_block a ws) \<Longrightarrow> line_ok l"
proof (induction a ws rule: dump_block.induct)
  case (2 a w ws)
  show ?case
  proof (cases "l \<in> set (dump_block (a + 8) (drop 8 (w # ws)))")
    case True
    then have "drop 8 (w # ws) \<noteq> []" by (cases "drop 8 (w # ws)") auto
    then have "a + 8 + length (drop 8 (w # ws)) \<le> 65536"
      using 2(2) by simp
    moreover have "\<forall>x \<in> set (drop 8 (w # ws)). x < 65536"
      using 2(3) by (meson in_set_dropD)
    ultimately show ?thesis using 2(1) True by blast
  next
    case False
    have "\<forall>x \<in> set (take 8 (w # ws)). x < 65536" using 2(3) by (meson in_set_takeD)
    with False 2(2,4) show ?thesis
      by (auto simp: item_ok_def is_space_def)
  qed
qed simp

lemma store_block: "fold store_line (dump_block a ws) mem = store_words a ws mem"
proof (induction a ws arbitrary: mem rule: dump_block.induct)
  case (1 a)
  then show ?case by (simp add: store_words_def)
next
  case (2 a w ws)
  let ?ws = "w # ws"
  show ?case
  proof (cases "length ?ws \<le> 8")
    case True
    then have "dump_block (a + 8) (drop 8 ?ws) = []" by simp
    then show ?thesis using True by (simp add: comp_def)
  next
    case False
    then have "store_words (a + 8) (drop 8 ?ws) (store_words a (take 8 ?ws) mem) = store_words a ?ws mem"
      using store_words_append [of a "take 8 ?ws" "drop 8 ?ws" mem] by simp
    then show ?thesis using 2 by (simp add: comp_def del: take_Suc_Cons drop_Suc_Cons)
  qed
qed

section \<open>mk_replay.py\<close>

lemma row_words:
  assumes "n + 4 \<le> length cells"
  shows "take 4 (drop n cells) = [cells ! n, cells ! (n + 1), cells ! (n + 2), cells ! (n + 3)]"
proof -
  have "drop n cells = cells ! n # cells ! (n + 1) # cells ! (n + 2) # cells ! (n + 3) # drop (n + 4) cells"
    using assms Cons_nth_drop_Suc [of n cells] Cons_nth_drop_Suc [of "n + 1" cells]
      Cons_nth_drop_Suc [of "n + 2" cells] Cons_nth_drop_Suc [of "n + 3" cells]
    by (simp add: eval_nat_numeral)
  then show ?thesis by simp
qed

text \<open>C32. A recording is replayed as it was made: from a log that holds the capture area of
  \<^verbatim>\<open>REC_CAPTURE\<close> and the tick counter, the table has for every one of the 768 ticks the
  four controller bytes recorded for it, and the length is the number of recorded ticks,
  at most 768.\<close>

theorem replay_roundtrip:
  assumes cells: "length cells = 3072" "\<forall>w \<in> set cells. w < 65536" and tick: "lo < 65536" "hi < 65536"
  shows "mk_replay (concat (map show_line (dump_block 0x9000 cells @ dump_block 0x8108 [lo, hi]))) =
    (min (lo OR push_bit 8 hi) 768,
     map (\<lambda>t. map (\<lambda>w. w AND 0xFF) (take 4 (drop (4 * t) cells))) [0..<768])"
proof -
  let ?ls = "dump_block 0x9000 cells @ dump_block 0x8108 [lo, hi]"
  let ?mem = "store_words 0x8108 [lo, hi] (store_words 0x9000 cells [])"
  have "\<forall>l \<in> set ?ls. line_ok l"
    using dump_block_ok [of "0x9000" cells] dump_block_ok [of "0x8108" "[lo, hi]"] cells tick by auto
  then have mem: "parse (concat (map show_line ?ls)) = ?mem"
    by (simp only: parse_shown fold_append store_block o_apply)
  have at: "dict_get ?mem (0x9000 + i) = Some (cells ! i)" if "i < 3072" for i
    using that cells(1) by (simp add: store_words_get)
  have "replay_row ?mem t = map (\<lambda>w. w AND 0xFF) (take 4 (drop (4 * t) cells))" if "t < 768" for t
    using that cells(1) at [of "4 * t"] at [of "4 * t + 1"] at [of "4 * t + 2"] at [of "4 * t + 3"]
    by (simp add: replay_row_def Let_def get_or_def row_words [of "t * 4"] mult.commute)
  moreover have "get_or ?mem 0x8108 0 = lo" "get_or ?mem 0x8109 0 = hi"
    by (simp_all add: get_or_def store_words_get)
  ultimately show ?thesis
    unfolding mk_replay_def mem Let_def REC_CAP_def by simp
qed


theorem replay_roundtrip_witness:
  "mk_replay (concat (map show_line (dump_block 0x9000 (replicate 3072 0x141) @ dump_block 0x8108 [3, 1]))) =
    (min (3 OR push_bit 8 1) 768,
     map (\<lambda>t. map (\<lambda>w. w AND 0xFF) (take 4 (drop (4 * t) (replicate 3072 0x141)))) [0..<768])"
  by (rule replay_roundtrip) simp_all

theorem parse_faithful_witness:
  "parse (concat (map show_line
     [Other (str_of ''> m 8108''), Dump 0x8108 [([32], 5, False), ([32, 32], 0x1F, True)] [32] (str_of ''..'')])) =
   [(0x8108, 5), (0x8109, 0x1F)]"
proof -
  let ?ls = "[Other (str_of ''> m 8108''), Dump 0x8108 [([32], 5, False), ([32, 32], 0x1F, True)] [32] (str_of ''..'')]"
  have "\<forall>l \<in> set ?ls. line_ok l" by (simp add: item_ok_def is_space_def str_of_def)
  then have "parse (concat (map show_line ?ls)) = fold store_line ?ls []" by (rule parse_faithful)
  then show ?thesis by (simp add: store_words_def)
qed

section \<open>crc_trace_diff.py\<close>

lemma int_and_not_mask: "(x :: int) AND - 256 = x - x mod 256"
proof -
  have "x AND NOT (mask 8) = push_bit 8 (drop_bit 8 x)"
    by (rule bit_eqI) (auto simp: bit_simps)
  moreover have "push_bit 8 (drop_bit 8 x) + take_bit 8 x = x" by (rule bits_ident)
  ultimately show ?thesis by (simp add: mask_eq_exp_minus_1 take_bit_eq_mod)
qed

lemma slot_tick_eq:
  "slot_tick tick slot =
     int tick - int tick mod 256 + int slot - (if int slot \<ge> int tick mod 256 then 256 else 0)"
proof -
  have "tick AND 0xFF = tick mod 256"
    using take_bit_eq_mask [of 8 tick] by (simp add: mask_eq_exp_minus_1 take_bit_eq_mod)
  then have "int (tick AND 0xFF) = int tick mod 256" by (simp add: of_nat_mod)
  then have "slot \<ge> tick AND 0xFF \<longleftrightarrow> int slot \<ge> int tick mod 256" by linarith
  then show ?thesis by (simp add: slot_tick_def int_and_not_mask)
qed

text \<open>The tick printed for a ring slot is right: of the 256 ticks before the park point it
  is the one, and the only one, that the ring keeps in that slot.\<close>

lemma slot_tick_unique:
  assumes "slot < 256"
  shows "int tick - 256 \<le> t \<and> t < int tick \<and> t mod 256 = int slot \<longleftrightarrow> t = slot_tick tick slot"
proof -
  define q r where "q = int tick div 256" and "r = int tick mod 256"
  have t: "int tick = 256 * q + r" "0 \<le> r" "r < 256" by (simp_all add: q_def r_def)
  have s: "0 \<le> int slot" "int slot < 256" using assms by simp_all
  have st: "slot_tick tick slot = 256 * q + int slot - (if int slot \<ge> r then 256 else 0)"
    unfolding slot_tick_eq r_def [symmetric] using t(1) by simp
  show ?thesis
  proof
    assume a: "int tick - 256 \<le> t \<and> t < int tick \<and> t mod 256 = int slot"
    define c where "c = t div 256"
    have c: "t = 256 * c + int slot" using a mult_div_mod_eq [of 256 t] by (simp add: c_def)
    show "t = slot_tick tick slot"
    proof (cases "int slot \<ge> r")
      case True
      have "c < q" using a c t s True by linarith
      moreover have "q - 1 - c < 1" using a c t s True by linarith
      ultimately have "c = q - 1" by linarith
      with c st True show ?thesis by simp
    next
      case False
      have "c - q < 1" using a c t s False by linarith
      moreover have "q - c < 1" using a c t s False by linarith
      ultimately have "c = q" by linarith
      with c st False show ?thesis by simp
    qed
  next
    assume "t = slot_tick tick slot"
    with t s st show "int tick - 256 \<le> t \<and> t < int tick \<and> t mod 256 = int slot"
      by (auto simp: mod_diff_eq [symmetric] split: if_splits)
  qed
qed

text \<open>The slot of a tick.\<close>

definition slot_of :: "int \<Rightarrow> nat" where
  "slot_of t = nat (t mod 256)"

lemma slot_tick_slot:
  assumes "slot < 256"
  shows "int tick - 256 \<le> slot_tick tick slot" "slot_tick tick slot < int tick"
    "slot_of (slot_tick tick slot) = slot"
  using slot_tick_unique [OF assms, of tick "slot_tick tick slot"] by (simp_all add: slot_of_def)

lemma slot_of_tick:
  assumes "int tick - 256 \<le> t" and "t < int tick"
  shows "slot_of t < 256" "slot_tick tick (slot_of t) = t"
proof -
  show s: "slot_of t < 256" by (simp add: slot_of_def nat_less_iff)
  show "slot_tick tick (slot_of t) = t"
    using slot_tick_unique [OF s, of tick t] assms by (simp add: slot_of_def)
qed

text \<open>The whole ring was dumped, and the tick counter.\<close>

definition ring_dumped :: "memory \<Rightarrow> bool" where
  "ring_dumped m \<longleftrightarrow> (\<forall>i < 512. dict_get m (0x9000 + i) \<noteq> None) \<and>
     dict_get m 0x8108 \<noteq> None \<and> dict_get m 0x8109 \<noteq> None"

definition word_of :: "memory \<Rightarrow> nat \<Rightarrow> nat" where
  "word_of m a = the (dict_get m a) OR push_bit 8 (the (dict_get m (a + 1)))"

definition ring :: "memory \<Rightarrow> nat \<Rightarrow> nat" where
  "ring m slot = word_of m (0x9000 + slot * 2)"

lemma mem_word_Inr:
  "dict_get m a \<noteq> None \<Longrightarrow> dict_get m (a + 1) \<noteq> None \<Longrightarrow> mem_word m a = Inr (word_of m a)"
  by (auto simp: mem_word_def mem_at_def word_of_def)

lemma ring_dumped_at:
  assumes "ring_dumped m" and "slot < 256"
  shows "dict_get m (0x9000 + slot * 2) \<noteq> None" "mem_word m (0x9000 + slot * 2) = Inr (ring m slot)"
proof -
  have i: "dict_get m (0x9000 + i) \<noteq> None" if "i < 512" for i
    using assms(1) that by (simp add: ring_dumped_def)
  show 1: "dict_get m (0x9000 + slot * 2) \<noteq> None" using i [of "slot * 2"] assms(2) by simp
  have "dict_get m (0x9000 + slot * 2 + 1) \<noteq> None" using i [of "slot * 2 + 1"] assms(2) by simp
  with 1 show "mem_word m (0x9000 + slot * 2) = Inr (ring m slot)"
    unfolding ring_def by (rule mem_word_Inr)
qed

definition ring_diffs :: "memory \<Rightarrow> memory \<Rightarrow> nat \<Rightarrow> (int \<times> nat \<times> nat \<times> nat) list" where
  "ring_diffs a b tick =
     map (\<lambda>slot. (slot_tick tick slot, slot, ring a slot, ring b slot))
       (filter (\<lambda>slot. ring a slot \<noteq> ring b slot) [0..<256])"

lemma ring_compared:
  assumes "ring_dumped a" and "ring_dumped b"
  shows "\<exists>rs. map_val (compare_slot a b tick) [0..<256] = Inr rs \<and> mismatches rs = ring_diffs a b tick"
proof -
  let ?f = "\<lambda>slot. if ring a slot \<noteq> ring b slot
    then SlotDiffers (slot_tick tick slot) slot (ring a slot) (ring b slot) else SlotSame"
  have "compare_slot a b tick slot = Inr (?f slot)" if "slot \<in> set [0..<256]" for slot
    using that ring_dumped_at [OF assms(1), of slot] ring_dumped_at [OF assms(2), of slot]
    by (simp add: compare_slot_def Let_def)
  then have "map_val (compare_slot a b tick) [0..<256] = Inr (map ?f [0..<256])"
    by (rule map_val_Inr)
  moreover have "mismatches (map ?f xs) =
      map (\<lambda>slot. (slot_tick tick slot, slot, ring a slot, ring b slot))
        (filter (\<lambda>slot. ring a slot \<noteq> ring b slot) xs)" for xs
    by (induction xs) (simp_all add: mismatches_def)
  ultimately show ?thesis by (auto simp: ring_diffs_def)
qed

text \<open>The cells that must agree at the park point: the object table without its animation
  counters, and the game's scratch cells.\<close>

definition settled_cell :: "nat \<Rightarrow> bool" where
  "settled_cell x \<longleftrightarrow> \<not> anim_field x \<and> (0x015D \<le> x \<and> x < 0x01F0 \<or> 0x0315 \<le> x \<and> x < 0x35E)"

lemma settled_Nil:
  "settled a b = [] \<longleftrightarrow>
     (\<forall>x v w. settled_cell x \<longrightarrow> dict_get a x = Some v \<longrightarrow> dict_get b x = Some w \<longrightarrow> v = w)"
proof -
  have "x \<in> set (common_keys a b) \<longleftrightarrow> dict_get a x \<noteq> None \<and> dict_get b x \<noteq> None" for x
    using dict_get_keys [of a x] dict_get_keys [of b x] by (simp add: common_keys_def conj_commute)
  then show ?thesis
    by (auto simp: settled_def filter_empty_conv settled_cell_def) (metis option.inject not_None_eq)+
qed

text \<open>C31. The verdict means what it says. For two runs parked at the same tick with the whole
  ring dumped, PASS is printed exactly when the settled cells agree and all 256 checksums
  do; and when the checksums are blamed, the reported tick is the earliest one, of the 256
  before the park point, whose checksums differ.\<close>

theorem trace_verdict_right:
  assumes a: "ring_dumped a" and b: "ring_dumped b" and tick: "word_of a 0x8108 = word_of b 0x8108"
  shows "\<exists>v. trace_diff a b = Inr v \<and>
    (v = DeterminismPass \<longleftrightarrow>
       (\<forall>x p q. settled_cell x \<longrightarrow> dict_get a x = Some p \<longrightarrow> dict_get b x = Some q \<longrightarrow> p = q) \<and>
       (\<forall>slot < 256. ring a slot = ring b slot)) \<and>
    (\<forall>ms t. v = DeterminismFail ms t \<longrightarrow>
       (let diverged = (\<lambda>u. int (word_of a 0x8108) - 256 \<le> u \<and> u < int (word_of a 0x8108) \<and>
              ring a (slot_of u) \<noteq> ring b (slot_of u))
        in diverged t \<and> (\<forall>u. diverged u \<longrightarrow> t \<le> u)))"
proof -
  let ?t = "word_of a 0x8108"
  let ?d = "ring_diffs a b ?t"
  obtain rs where rs: "map_val (compare_slot a b ?t) [0..<256] = Inr rs" "mismatches rs = ?d"
    using ring_compared [OF a b] by blast
  define m where "m = Min (set (map fst ?d))"
  have v: "trace_diff a b = Inr (if settled a b \<noteq> [] then SettledFail (settled a b)
      else if ?d \<noteq> [] then DeterminismFail ?d m else DeterminismPass)"
    using a b tick rs mem_word_Inr [of a "0x8108"] mem_word_Inr [of b "0x8108"]
    by (auto simp: trace_diff_def ring_dumped_def m_def)
  have d: "?d = [] \<longleftrightarrow> (\<forall>slot < 256. ring a slot = ring b slot)"
    by (auto simp: ring_diffs_def filter_empty_conv)
  have ticks: "set (map fst ?d) = {slot_tick ?t slot | slot. slot < 256 \<and> ring a slot \<noteq> ring b slot}"
    by (auto simp: ring_diffs_def)
  have "m \<in> set (map fst ?d)" if "?d \<noteq> []"
    unfolding m_def using that by (intro Min_in) simp_all
  then have m_in: "\<exists>slot < 256. m = slot_tick ?t slot \<and> ring a slot \<noteq> ring b slot" if "?d \<noteq> []"
    using that unfolding ticks by auto
  have m_le: "m \<le> slot_tick ?t slot" if "slot < 256" "ring a slot \<noteq> ring b slot" for slot
    unfolding m_def by (rule Min_le) (simp, use that ticks in blast)
  let ?div = "\<lambda>u. int ?t - 256 \<le> u \<and> u < int ?t \<and> ring a (slot_of u) \<noteq> ring b (slot_of u)"
  have "?div m \<and> (\<forall>u. ?div u \<longrightarrow> m \<le> u)" if ne: "?d \<noteq> []"
  proof (intro conjI allI impI)
    obtain slot where slot: "slot < 256" "m = slot_tick ?t slot" "ring a slot \<noteq> ring b slot"
      using m_in [OF ne] by blast
    then show "int ?t - 256 \<le> m" "m < int ?t" "ring a (slot_of m) \<noteq> ring b (slot_of m)"
      using slot_tick_slot [of slot ?t] by simp_all
    fix u assume u: "?div u"
    then show "m \<le> u" using slot_of_tick [of ?t u] m_le [of "slot_of u"] by simp
  qed
  then show ?thesis
    unfolding v settled_Nil [symmetric] d [symmetric] Let_def by auto
qed

text \<open>With no ring in the logs the comparison passes: it never fails on missing slots, however
  many, and still says that all 256 ticks were compared.\<close>

theorem trace_pass_vacuous:
  "crc_trace_main (concat (map show_line [Dump 0x8108 [([32], 7, False), ([32], 0, False)] [32] []]))
     (concat (map show_line [Dump 0x8108 [([32], 7, False), ([32], 0, False)] [32] []])) = Inr DeterminismPass"
proof -
  let ?ls = "[Dump 0x8108 [([32], 7, False), ([32], 0, False)] [32] []]"
  let ?m = "[(0x8108, 7), (0x8109, 0)] :: memory"
  have ok: "\<forall>l \<in> set ?ls. line_ok l" by (simp add: item_ok_def is_space_def)
  have mem: "parse (concat (map show_line ?ls)) = ?m"
    unfolding parse_shown [OF ok] by (simp add: store_words_def)
  have at: "dict_get ?m a = (if a = 0x8108 then Some 7 else if a = 0x8109 then Some 0 else None)" for a
    by (simp add: dict_get_def)
  have "map_val (compare_slot ?m ?m 7) [0..<256] = Inr (map (\<lambda>_. SlotMissing) [0..<256])"
    by (rule map_val_Inr) (auto simp: compare_slot_def Let_def at)
  moreover have "mismatches (map (\<lambda>_. SlotMissing) xs) = []" for xs :: "nat list"
    by (induction xs) (simp_all add: mismatches_def)
  ultimately show ?thesis
    unfolding crc_trace_main_def mem
    by (simp add: trace_diff_def mem_word_def mem_at_def at settled_def)
qed


theorem trace_verdict_right_witness:
  "\<exists>a b v. ring a 255 = 0x101 \<and> ring b 255 = 0x201 \<and> trace_diff a b = Inr v \<and>
    (v = DeterminismPass \<longleftrightarrow>
       (\<forall>x p q. settled_cell x \<longrightarrow> dict_get a x = Some p \<longrightarrow> dict_get b x = Some q \<longrightarrow> p = q) \<and>
       (\<forall>slot < 256. ring a slot = ring b slot)) \<and>
    (\<forall>ms t. v = DeterminismFail ms t \<longrightarrow>
       (let diverged = (\<lambda>u. int (word_of a 0x8108) - 256 \<le> u \<and> u < int (word_of a 0x8108) \<and>
              ring a (slot_of u) \<noteq> ring b (slot_of u))
        in diverged t \<and> (\<forall>u. diverged u \<longrightarrow> t \<le> u)))"
proof -
  let ?m = "\<lambda>w. store_words 0x8108 [5, 0] (store_words 0x9000 (replicate 511 1 @ [w]) [])"
  have at: "dict_get (?m w) (0x9000 + i) = Some (if i = 511 then w else 1)" if "i < 512" for w i
    using that by (simp add: store_words_get nth_append)
  have tick: "dict_get (?m w) 0x8108 = Some 5" "dict_get (?m w) 0x8109 = Some 0" for w
    by (simp_all add: store_words_get)
  have dumped: "ring_dumped (?m w)" for w
    unfolding ring_dumped_def using at tick by simp
  have word: "word_of (?m w) 0x8108 = 5" for w by (simp add: word_of_def store_words_get)
  have "ring (?m 1) 255 = 0x101" "ring (?m 2) 255 = 0x201"
    using at [of 510] at [of 511] by (simp_all add: ring_def word_of_def)
  then show ?thesis
    using trace_verdict_right [OF dumped dumped, of 1 2] word by (intro exI [of _ "?m 1"] exI [of _ "?m 2"]) simp
qed

section \<open>check_dest_phase.py\<close>

text \<open>C33. The check is not satisfied by a run that went nowhere. A log whose dump lines leave the
  memory \<open>m\<close> is accepted exactly when it dumped the phase and that is not GAME OVER, the
  inventory was dumped in full and differs from its boot value or a fleet is at sea, the
  last register line is not at one of the self-loops, and something is in the object
  table.\<close>

theorem dest_check_accepts:
  assumes "\<forall>l \<in> set ls. line_ok l" and "m = fold store_line ls []" and "text = concat (map show_line ls)"
  shows "dest_check text = [] \<longleftrightarrow>
     (\<exists>phase. dict_get m 0x164 = Some phase \<and> phase \<noteq> 6) \<and>
     ((\<exists>i < 9. dict_get m (0x1B5 + i) \<noteq> Some (BOOT_INVENTORY ! i)) \<and> (\<forall>i < 9. dict_get m (0x1B5 + i) \<noteq> None) \<or>
      (\<exists>i < 8. \<exists>v. dict_get m (0x17D + i) = Some v \<and> bit v 2)) \<and>
     (pcs text \<noteq> [] \<longrightarrow> last (pcs text) \<notin> set PARK_PCS) \<and>
     (\<exists>x v. 0x31D \<le> x \<and> x < 0x35D \<and> dict_get m x = Some v \<and> v \<noteq> 0)"
proof -
  have mem: "parse text = m" using parse_shown [OF assms(1)] assms(2,3) by simp
  have len: "length BOOT_INVENTORY = 9" by (simp add: BOOT_INVENTORY_def)
  have none: "None \<notin> set (map f [0..<9]) \<longleftrightarrow> (\<forall>i < (9 :: nat). f i \<noteq> None)" for f :: "nat \<Rightarrow> nat option"
    by force
  have boot: "map f [0..<9] \<noteq> map Some BOOT_INVENTORY \<longleftrightarrow> (\<exists>i < 9. f i \<noteq> Some (BOOT_INVENTORY ! i))" for f
    by (simp add: list_eq_iff_nth_eq len)
  have inv: "inventory_changed m \<longleftrightarrow>
      (\<exists>i < 9. dict_get m (0x1B5 + i) \<noteq> Some (BOOT_INVENTORY ! i)) \<and> (\<forall>i < 9. dict_get m (0x1B5 + i) \<noteq> None)"
    unfolding inventory_changed_def Let_def none boot by blast
  have bit: "(v AND 4 \<noteq> 0) = bit v 2" for v :: nat
    using and_exp_eq_0_iff_not_bit [of v 2] by simp
  have fleet: "fleet_launched m \<longleftrightarrow> (\<exists>i < 8. \<exists>v. dict_get m (0x17D + i) = Some v \<and> bit v 2)"
    unfolding fleet_launched_def list_ex_iff bit
    by (force split: option.splits)
  have obj: "list_ex (\<lambda>a. get_or m a 0 \<noteq> 0) [0x31D..<0x35D] \<longleftrightarrow>
      (\<exists>x v. 0x31D \<le> x \<and> x < 0x35D \<and> dict_get m x = Some v \<and> v \<noteq> 0)"
    unfolding list_ex_iff set_upt Bex_def atLeastLessThan_iff
    by (auto simp: get_or_def split: option.splits)
  have "m = [] \<Longrightarrow> dict_get m 0x164 = None" by (simp add: dict_get_def)
  then show ?thesis
    unfolding dest_check_def Let_def mem inv [symmetric] fleet [symmetric] obj [symmetric] TERMINAL_PHASE_def
    by (auto split: option.split)
qed


theorem dest_check_accepts_witness:
  "dest_check (concat (map show_line [Dump 0x164 [([32], 2, False)] [32] [], Dump 0x17D [([32], 4, False)] [32] [],
      Dump 0x31D [([32], 1, False)] [32] []])) = [] \<and>
   dest_check (concat (map show_line [Dump 0x164 [([32], 6, False)] [32] []])) \<noteq> []"
proof -
  let ?ls = "[Dump 0x164 [([32], 2, False)] [32] [], Dump 0x17D [([32], 4, False)] [32] [],
      Dump 0x31D [([32], 1, False)] [32] []]"
  let ?m = "[(0x164, 2), (0x17D, 4), (0x31D, 1)] :: memory"
  have ok: "\<forall>l \<in> set ?ls. line_ok l" "\<forall>l \<in> set [Dump 0x164 [([32], 6, False)] [32] []]. line_ok l"
    by (simp_all add: item_ok_def is_space_def)
  have m: "?m = fold store_line ?ls []" by (simp add: store_words_def)
  have pcs: "pcs (concat (map show_line ?ls)) = []"
    by (simp add: pcs_def finditer_def scan.simps PC_RE_def show_word_def hex4_def hex_digit_def ways_hex_word
        spaces_def reps.simps is_hex_def is_space_def)
  have "\<exists>i < 8. \<exists>v. dict_get ?m (0x17D + i) = Some v \<and> bit v 2"
  proof (intro exI conjI)
    show "dict_get ?m (0x17D + 0) = Some 4" by (simp add: dict_get_def)
    show "bit (4 :: nat) 2" by code_simp
  qed simp
  moreover have "\<exists>x v. 0x31D \<le> x \<and> x < 0x35D \<and> dict_get ?m x = Some v \<and> v \<noteq> 0"
    by (rule exI [of _ "0x31D"]) (simp add: dict_get_def)
  moreover have "\<exists>phase. dict_get ?m 0x164 = Some phase \<and> phase \<noteq> 6" by (simp add: dict_get_def)
  ultimately have "dest_check (concat (map show_line ?ls)) = []"
    using dest_check_accepts [OF ok(1) m refl] pcs by blast
  moreover have "dict_get (fold store_line [Dump 0x164 [([32], 6, False)] [32] []] []) 0x164 = Some 6"
    by (simp add: store_words_def dict_get_def)
  ultimately show ?thesis
    using dest_check_accepts [OF ok(2) refl refl] by auto
qed

end
