(* ===== verification/DifferProps.thy ===== *)
theory DifferProps
  imports Differ TraceProps "HOL-Library.Multiset"
begin

text \<open>
  Properties of the differential test: two frames are recorded alike only if they agree up
  to the masked seed, a stream is recorded frame by frame however it arrives, the log filter
  hides the seed and nothing makes the comparison pass but equality, with one exception.
\<close>

section \<open>Rendering\<close>

lemma low_hex_inj: "a < 16 \<Longrightarrow> b < 16 \<Longrightarrow> low_hex_digit a = low_hex_digit b \<longleftrightarrow> a = b"
  by (auto simp: low_hex_digit_def split: if_splits)

lemma byte_eq_nibbles:
  "(x :: byte) = y \<longleftrightarrow> unat x div 16 = unat y div 16 \<and> unat x mod 16 = unat y mod 16"
  by (metis mult_div_mod_eq word_unat_eq_iff)

lemma nibbles_small: "unat (x :: byte) div 16 < 16" "unat (x :: byte) mod 16 < 16"
  using unat_byte_less [of x] by (simp_all add: less_mult_imp_div_less)

lemma hex_of_inj: "hex_of xs = hex_of ys \<longleftrightarrow> xs = ys"
proof (induction xs arbitrary: ys)
  case Nil
  then show ?case by (cases ys) (simp_all add: hex_of_def)
next
  case (Cons x xs)
  show ?case
  proof (cases ys)
    case (Cons y ys')
    have "hex_of (x # xs) = hex_of (y # ys') \<longleftrightarrow> x = y \<and> hex_of xs = hex_of ys'"
      using nibbles_small [of x] nibbles_small [of y]
      by (simp add: hex_of_def low_hex_inj byte_eq_nibbles [of x y])
    with Cons.IH Cons show ?thesis by simp
  qed (simp add: hex_of_def)
qed

lemma hex_of_no_space: "32 \<notin> set (hex_of bs)"
proof -
  have "low_hex_digit v \<noteq> 32" for v by (simp add: low_hex_digit_def)
  then show ?thesis by (auto simp: hex_of_def)
qed

lemma map_of_unique:
  assumes "distinct (map snd d)" and "map_of d a = Some x" and "map_of d b = Some x"
  shows "a = b"
proof -
  have "inj_on snd (set d)" using assms(1) by (simp add: distinct_map)
  then show ?thesis using inj_onD [of snd "set d" "(a, x)" "(b, x)"] assms(2,3) by (simp add: map_of_SomeD)
qed

lemma TNAME_facts:
  "distinct (map snd TNAME)" "dict_get TNAME t = Some n \<Longrightarrow> n \<noteq> [] \<and> hd n \<noteq> 36 \<and> 32 \<notin> set n"
  "dict_get TNAME T_START = Some (str_of ''START'')"
proof -
  show "distinct (map snd TNAME)" by (simp add: TNAME_def str_of_def)
  show "dict_get TNAME T_START = Some (str_of ''START'')" by (simp add: TNAME_def dict_get_def T_defs)
  assume "dict_get TNAME t = Some n"
  then have "(t, n) \<in> set TNAME" by (simp add: dict_get_def map_of_SomeD)
  then show "n \<noteq> [] \<and> hd n \<noteq> 36 \<and> 32 \<notin> set n"
    by (auto simp: TNAME_def str_of_def)
qed

lemma type_name_no_space: "32 \<notin> set (type_name t)"
proof -
  have "hex_digit v \<noteq> 32" for v by (simp add: hex_digit_def)
  then show ?thesis using TNAME_facts(2) [of t] by (auto simp: type_name_def hex2_def split: option.split)
qed

lemma hex2_inj: "hex2 a = hex2 b \<longleftrightarrow> a = b"
proof -
  have "x < 16 \<Longrightarrow> y < 16 \<Longrightarrow> hex_digit x = hex_digit y \<longleftrightarrow> x = y" for x y
    by (auto simp: hex_digit_def split: if_splits)
  then show ?thesis
    using nibbles_small [of a] nibbles_small [of b] by (simp add: hex2_def byte_eq_nibbles [of a b])
qed

lemma type_name_inj: "type_name a = type_name b \<longleftrightarrow> a = b"
proof
  assume eq: "type_name a = type_name b"
  show "a = b"
  proof (cases "dict_get TNAME a"; cases "dict_get TNAME b")
    fix m n assume "dict_get TNAME a = Some m" "dict_get TNAME b = Some n"
    with eq show ?thesis
      using map_of_unique [OF TNAME_facts(1), of a m b] by (simp add: type_name_def dict_get_def)
  qed (use eq TNAME_facts(2) [of a] TNAME_facts(2) [of b] in \<open>auto simp: type_name_def hex2_inj\<close>)
qed simp

text \<open>Text up to the first occurrence of a separator, the space for one.\<close>

lemma split_first:
  "z \<notin> set a \<Longrightarrow> z \<notin> set b \<Longrightarrow> a @ z # x = b @ z # y \<longleftrightarrow> a = b \<and> x = y"
proof (induction a arbitrary: b)
  case Nil
  then show ?case by (cases b) auto
next
  case (Cons c a)
  then show ?case by (cases b) auto
qed

definition masked :: "nat \<Rightarrow> byte list \<Rightarrow> byte list" where
  "masked proto body =
     (case body of [] \<Rightarrow> []
      | t # p \<Rightarrow> t # (if t = T_START \<and> length p \<ge> 4 then mask_seed proto p else p))"

lemma length_mask_seed: "4 \<le> length p \<Longrightarrow> length (mask_seed proto p) = length p"
  by (simp add: mask_seed_def seed_at_def)

definition rendered :: "nat \<Rightarrow> byte \<Rightarrow> byte list \<Rightarrow> pystr" where
  "rendered proto t p =
     type_name t @ 32 # hex_of (tl (masked proto (t # p))) @
     (if t = T_START \<and> length p \<ge> 4 then 32 # str_of ''(seed masked)'' else [])"

lemma render_rendered: "render proto (t # p) = Inr (rendered proto t p)"
  using TNAME_facts(3)
  by (auto simp: render_def rendered_def masked_def type_name_def str_of_def)

lemma render_masked:
  assumes "a \<noteq> []" and "b \<noteq> []"
  shows "render proto a = render proto b \<longleftrightarrow> masked proto a = masked proto b"
proof -
  obtain t p u q where ab: "a = t # p" "b = u # q" using assms by (metis neq_Nil_conv)
  let ?x = "tl (masked proto (t # p))" and ?y = "tl (masked proto (u # q))"
  let ?s = "\<lambda>t p. t = T_START \<and> 4 \<le> length (p :: byte list)"
  let ?m = "\<lambda>t p. if ?s t p then 32 # str_of ''(seed masked)'' else []"
  have len: "length ?x = length p" "length ?y = length q"
    by (simp_all add: masked_def length_mask_seed)
  then have same_len: "?x = ?y \<Longrightarrow> length p = length q" by metis
  have hd: "masked proto a = t # ?x" "masked proto b = u # ?y" by (simp_all add: ab masked_def)
  have hex: "hex_of ?x @ ?m t p = hex_of ?y @ ?m t q \<longleftrightarrow> ?x = ?y \<and> ?s t p = ?s t q"
    using split_first [OF hex_of_no_space [of ?x] hex_of_no_space [of ?y]]
      hex_of_no_space [of ?x] hex_of_no_space [of ?y]
    by (auto simp: hex_of_inj) (metis in_set_conv_decomp)+
  have "render proto a = render proto b \<longleftrightarrow> rendered proto t p = rendered proto u q"
    by (simp add: ab render_rendered)
  also have "\<dots> \<longleftrightarrow> t = u \<and> hex_of ?x @ ?m t p = hex_of ?y @ ?m t q"
    unfolding rendered_def split_first [OF type_name_no_space type_name_no_space] type_name_inj
    by (cases "t = u") simp_all
  also have "\<dots> \<longleftrightarrow> masked proto a = masked proto b"
    unfolding hex hd list.inject using same_len by auto
  finally show ?thesis .
qed

lemma mask_seed_nth:
  "4 \<le> length p \<Longrightarrow> j < length p \<Longrightarrow>
   mask_seed proto p ! j = (if j = seed_at proto \<or> j = Suc (seed_at proto) then 0xAA else p ! j)"
  by (auto simp: mask_seed_def seed_at_def nth_append nth_Cons' min_def intro!: arg_cong [where f = "(!) p"])

text \<open>Masked frames agree when the frames do, position by position, or a seed is there.\<close>

lemma masked_eq_iff:
  assumes "a \<noteq> []" and "b \<noteq> []"
  shows "masked proto a = masked proto b \<longleftrightarrow> length a = length b \<and>
    (\<forall>i < length a. a ! i = b ! i \<or>
       a ! 0 = T_START \<and> b ! 0 = T_START \<and> 5 \<le> length a \<and>
       (i = Suc (seed_at proto) \<or> i = Suc (Suc (seed_at proto))))"
    (is "_ \<longleftrightarrow> _ \<and> (\<forall>i < _. ?ok i)")
proof -
  obtain t p u q where ab: "a = t # p" "b = u # q" using assms by (metis neq_Nil_conv)
  let ?s = "t = T_START \<and> 4 \<le> length p"
  show ?thesis
  proof (cases "length p = length q \<and> t = u")
    case True
    then have l: "length q = length p" and u: "u = t" by simp_all
    have m: "masked proto a = masked proto b \<longleftrightarrow>
        (if ?s then mask_seed proto p = mask_seed proto q else p = q)"
      by (simp add: ab masked_def l u)
    have all: "(\<forall>i < length a. ?ok i) \<longleftrightarrow>
        (\<forall>j < length p. p ! j = q ! j \<or> ?s \<and> (j = seed_at proto \<or> j = Suc (seed_at proto)))"
      by (simp add: ab u All_less_Suc2)
    have seed: "mask_seed proto p = mask_seed proto q \<longleftrightarrow>
        (\<forall>j < length p. p ! j = q ! j \<or> j = seed_at proto \<or> j = Suc (seed_at proto))" if "4 \<le> length p"
      using that by (simp add: list_eq_iff_nth_eq [of "mask_seed proto p"] length_mask_seed l mask_seed_nth) blast
    show ?thesis
    proof (cases ?s)
      case True
      then show ?thesis unfolding m all using seed by (simp add: ab l)
    next
      case False
      then show ?thesis unfolding m all if_not_P [OF False] by (auto simp: ab l list_eq_iff_nth_eq [of p])
    qed
  next
    case False
    have "\<not> (length a = length b \<and> (\<forall>i < length a. ?ok i))"
      using False by (auto simp: ab)
    moreover have "length (masked proto a) = length a" "length (masked proto b) = length b"
      by (simp_all add: ab masked_def length_mask_seed)
    then have "masked proto a \<noteq> masked proto b"
      using False by (auto simp: ab masked_def)
    ultimately show ?thesis by blast
  qed
qed

text \<open>C38. Rendering loses nothing but the seed: two received frames are recorded by the same
  text exactly when they have the same length and agree at every position, except the two
  bytes of a START that carry the seed: positions 2 and 3 in protocol 1 (type, seat, seed)
  and positions 3 and 4 in protocol 2 (type, seat, number of seats, seed).\<close>

theorem render_faithful:
  assumes "a \<noteq> []" and "b \<noteq> []"
  shows "render proto a = render proto b \<longleftrightarrow> length a = length b \<and>
    (\<forall>i < length a. a ! i = b ! i \<or>
       a ! 0 = T_START \<and> b ! 0 = T_START \<and> 5 \<le> length a \<and>
       (if proto = 1 then i = 2 \<or> i = 3 else i = 3 \<or> i = 4))"
  unfolding render_masked [OF assms] masked_eq_iff [OF assms]
  by (simp add: seed_at_def eval_nat_numeral)

theorem render_faithful_witness:
  "render 2 [5, 0, 2, 17, 34, 3] = render 2 [5, 0, 2, 51, 68, 3] \<and>
   render 2 [5, 0, 2, 17, 34, 3] \<noteq> render 2 [5, 0, 1, 17, 34, 3] \<and>
   render 1 [5, 0, 17, 34, 3] \<noteq> render 1 [5, 0, 17, 34, 2]"
  using render_faithful [of "[5, 0, 2, 17, 34, 3]" "[5, 0, 2, 51, 68, 3]" 2]
    render_faithful [of "[5, 0, 2, 17, 34, 3]" "[5, 0, 1, 17, 34, 3]" 2]
    render_faithful [of "[5, 0, 17, 34, 3]" "[5, 0, 17, 34, 2]" 1]
  by (simp add: All_less_Suc Ex_less_Suc T_defs)

section \<open>Recording\<close>

lemma sd_bodies_Cons:
  assumes "length p \<le> 254"
  shows "sd_bodies (enframe t p @ rest) = ((t # p) # fst (sd_bodies rest), snd (sd_bodies rest))"
proof -
  have l: "unat (word_of_nat (Suc (length p)) :: byte) = Suc (length p)"
    by (rule byte_of_nat) (use assms in simp)
  show ?thesis
    by (subst sd_bodies.simps) (simp add: enframe_def l Let_def split_beta del: of_nat_Suc)
qed

lemma sd_bodies_frames:
  "list_all (\<lambda>f. length (snd f) \<le> 254) fs \<Longrightarrow> sd_bodies (frames_out fs) = (map (\<lambda>(t, p). t # p) fs, [])"
proof (induction fs)
  case Nil
  show ?case by (subst sd_bodies.simps) (simp add: frames_out_def)
next
  case (Cons f fs)
  then show ?case
    using sd_bodies_Cons [of "snd f" "fst f" "frames_out fs"] by (simp add: frames_out_def split_beta)
qed

text \<open>The bytes that arrive for a client.\<close>

definition data_for :: "nat \<Rightarrow> (nat \<times> byte list) list \<Rightarrow> byte list" where
  "data_for i evs = concat (map snd (filter (\<lambda>e. fst e = i) evs))"

lemma sd_arrivals_client:
  "i < length cs \<Longrightarrow> \<not> sc_closed (cs ! i) \<Longrightarrow> \<forall>e \<in> set evs. fst e = i \<longrightarrow> snd e \<noteq> [] \<Longrightarrow>
   length (fold sd_arrival evs cs) = length cs \<and>
   fold sd_arrival evs cs ! i = (cs ! i)\<lparr>sc_buf := sc_buf (cs ! i) @ data_for i evs\<rparr>"
proof (induction evs arbitrary: cs)
  case Nil
  then show ?case by (simp add: data_for_def)
next
  case (Cons e evs)
  let ?cs = "sd_arrival e cs"
  have len: "length ?cs = length cs" by (simp add: sd_arrival_def split: prod.split)
  have i: "?cs ! i = (cs ! i)\<lparr>sc_buf := sc_buf (cs ! i) @ (if fst e = i then snd e else [])\<rparr>"
    using Cons.prems by (auto simp: sd_arrival_def split: prod.split)
  have "length (fold sd_arrival evs ?cs) = length ?cs \<and>
      fold sd_arrival evs ?cs ! i = (?cs ! i)\<lparr>sc_buf := sc_buf (?cs ! i) @ data_for i evs\<rparr>"
    by (rule Cons.IH) (use Cons.prems in \<open>simp_all add: len i\<close>)
  then show ?case by (simp add: i len data_for_def)
qed

lemma map_val_nth:
  "map_val f xs = Inr ys \<Longrightarrow> length ys = length xs \<and> (\<forall>i < length xs. f (xs ! i) = Inr (ys ! i))"
proof (induction xs arbitrary: ys)
  case (Cons x xs)
  then obtain y zs where "f x = Inr y" "map_val f xs = Inr zs" "ys = y # zs"
    by (auto split: sum.splits)
  with Cons.IH [of zs] show ?case by (auto simp: nth_Cons split: nat.split)
qed simp

lemma length_arrivals: "length (fold sd_arrival evs cs) = length cs"
  by (induction evs arbitrary: cs) (simp_all add: sd_arrival_def split: prod.split)

lemma sd_arrivals_closed:
  "i < length cs \<Longrightarrow> sc_closed (cs ! i) \<Longrightarrow>
   length (fold sd_arrival evs cs) = length cs \<and> fold sd_arrival evs cs ! i = cs ! i"
proof (induction evs arbitrary: cs)
  case (Cons e evs)
  have "length (sd_arrival e cs) = length cs" "sd_arrival e cs ! i = cs ! i"
    using Cons.prems by (auto simp: sd_arrival_def nth_list_update split: prod.split)
  with Cons.IH [of "sd_arrival e cs"] Cons.prems show ?case by simp
qed simp

lemma map_val_render:
  "map_val (render proto) (map (\<lambda>(t, p). t # p) fs) = Inr (map (\<lambda>(t, p). projr (render proto (t # p))) fs)"
  by (induction fs) (simp_all add: render_rendered split_beta)

text \<open>The lines of a client that received whole frames.\<close>

definition frame_lines :: "nat \<Rightarrow> pystr \<Rightarrow> pystr \<Rightarrow> (byte \<times> byte list) list \<Rightarrow> pystr list" where
  "frame_lines proto tag label fs =
     map (\<lambda>(t, p). tag @ str_of '' | '' @ label @ str_of '' <- '' @ projr (render proto (t # p))) fs"

lemma sd_record_frames:
  assumes "sc_buf c = frames_out fs" and "\<not> sc_eof c" and "list_all (\<lambda>f. length (snd f) \<le> 254) fs"
  shows "sd_record proto tag c = Inr (frame_lines proto tag (sc_label c) fs, c\<lparr>sc_buf := []\<rparr>)"
proof -
  have "c\<lparr>sc_buf := [], sc_eof := False\<rparr> = c\<lparr>sc_buf := []\<rparr>" using assms(2) by (cases c) simp
  then show ?thesis
    using assms sd_bodies_frames [OF assms(3)] map_val_render [of proto fs]
    by (simp add: sd_record_def Let_def frame_lines_def arrow_def comp_def case_prod_unfold)
qed

lemma map_val_all:
  assumes "\<And>i. i < length xs \<Longrightarrow> f (xs ! i) = Inr (g i)"
  shows "map_val f xs = Inr (map g [0..<length xs])"
  using assms
proof (induction xs arbitrary: g)
  case (Cons x xs)
  from Cons.prems [of 0] have "f x = Inr (g 0)" by simp
  moreover have "map_val f xs = Inr (map (\<lambda>i. g (Suc i)) [0..<length xs])"
    using Cons.prems by (intro Cons.IH) (metis Suc_less_eq length_Cons nth_Cons_Suc)
  ultimately show ?case by (simp add: map_upt_Suc del: upt_Suc)
qed simp

text \<open>C39. A stream is recorded frame by frame, however it arrives: when no client has bytes or an
  end of stream left over, and what a step delivers to each open client adds up to whole
  frames, in whatever chunks and interleaved with the others, without an end of stream, the
  step appends to the transcript for each client in turn one line per frame, in order, that
  renders it, and nothing else; the clients are as before and the step is counted.\<close>

theorem sync_records_frames:
  assumes cs: "\<forall>i < length (sd_clients x). sc_buf (sd_clients x ! i) = [] \<and> \<not> sc_eof (sd_clients x ! i) \<and>
      list_all (\<lambda>f. length (snd f) \<le> 254) (fs i) \<and>
      (if sc_closed (sd_clients x ! i) then fs i = [] else data_for i evs = frames_out (fs i))"
    and evs: "\<forall>e \<in> set evs. snd e \<noteq> []"
  shows "sd_sync proto step evs x = Inr
    (x\<lparr>sd_transcript := sd_transcript x @ concat (map (\<lambda>i.
          frame_lines proto (dec2 (Suc (sd_step x)) @ 32 # step) (sc_label (sd_clients x ! i)) (fs i))
            [0..<length (sd_clients x)]),
       sd_step := Suc (sd_step x)\<rparr>)"
proof -
  let ?tag = "dec2 (Suc (sd_step x)) @ 32 # step"
  let ?xs = "sd_clients x" and ?cs = "fold sd_arrival evs (sd_clients x)"
  let ?ls = "\<lambda>i. frame_lines proto ?tag (sc_label (?xs ! i)) (fs i)"
  have len: "length ?cs = length ?xs"
    by (rule length_arrivals)
  have "sd_record proto ?tag (?cs ! i) = Inr (?ls i, ?xs ! i)" if i: "i < length ?xs" for i
  proof -
    have c: "sc_buf (?xs ! i) = []" "\<not> sc_eof (?xs ! i)" "list_all (\<lambda>f. length (snd f) \<le> 254) (fs i)"
      using cs i by simp_all
    have "?cs ! i = (?xs ! i)\<lparr>sc_buf := frames_out (fs i)\<rparr>"
    proof (cases "sc_closed (?xs ! i)")
      case True
      moreover have "fs i = []" using cs i True by auto
      ultimately show ?thesis using sd_arrivals_closed [OF i True, of evs] c(1) by (simp add: frames_out_def)
    next
      case False
      moreover have "data_for i evs = frames_out (fs i)" using cs i False by auto
      ultimately show ?thesis using sd_arrivals_client [OF i False, of evs] evs c(1) by simp
    qed
    then show ?thesis
      using sd_record_frames [of "?cs ! i" "fs i" proto ?tag] c by simp
  qed
  then have "map_val (sd_record proto ?tag) ?cs = Inr (map (\<lambda>i. (?ls i, ?xs ! i)) [0..<length ?cs])"
    by (intro map_val_all) (simp add: len)
  then show ?thesis
    by (simp add: sd_sync_def Let_def len comp_def map_nth)
qed

theorem sync_records_frames_witness:
  "sd_sync 2 (str_of ''ping'') [(0, [1]), (1, [2, 13]), (0, [13]), (1, [7])]
      \<lparr>sd_clients = [\<lparr>sc_label = [65], sc_buf = [], sc_closed = False, sc_eof = False, sc_sent = []\<rparr>,
         \<lparr>sc_label = [66], sc_buf = [], sc_closed = False, sc_eof = False, sc_sent = []\<rparr>],
       sd_transcript = [], sd_step = 0\<rparr> = Inr
    \<lparr>sd_clients = [\<lparr>sc_label = [65], sc_buf = [], sc_closed = False, sc_eof = False, sc_sent = []\<rparr>,
         \<lparr>sc_label = [66], sc_buf = [], sc_closed = False, sc_eof = False, sc_sent = []\<rparr>],
       sd_transcript = [str_of ''01 ping | A <- PONG '', str_of ''01 ping | B <- PONG 07''], sd_step = 1\<rparr>"
proof -
  let ?c = "\<lambda>l. \<lparr>sc_label = l, sc_buf = [], sc_closed = False, sc_eof = False, sc_sent = []\<rparr>"
  let ?x = "\<lparr>sd_clients = [?c [65], ?c [66]], sd_transcript = [], sd_step = 0\<rparr>"
  let ?evs = "[(0, [1]), (1, [2, 13]), (0, [13]), (1, [7 :: byte])]"
  let ?fs = "\<lambda>i. if i = (0 :: nat) then [(T_PONG, [])] else [(T_PONG, [7 :: byte])]"
  have "\<forall>i < length (sd_clients ?x). sc_buf (sd_clients ?x ! i) = [] \<and> \<not> sc_eof (sd_clients ?x ! i) \<and>
      list_all (\<lambda>f. length (snd f) \<le> 254) (?fs i) \<and>
      (if sc_closed (sd_clients ?x ! i) then ?fs i = [] else data_for i ?evs = frames_out (?fs i))"
    by (simp add: All_less_Suc data_for_def frames_out_def enframe_def T_defs)
  from sync_records_frames [OF this, of 2 "str_of ''ping''"] show ?thesis
    by (simp add: frame_lines_def dec2_small render_def type_name_def TNAME_def hex_of_def low_hex_digit_def
        T_defs dict_get_def str_of_def)
qed

section \<open>The verdict\<close>

lemma sort_eq_mset: "sort (xs :: pystr list) = sort ys \<longleftrightarrow> mset xs = mset ys"
  by (metis mset_sort properties_for_sort sorted_sort)

lemma compare_runs_iff:
  "compare_runs name strict proto py c \<longleftrightarrow>
     (if name = ''limits'' then mset py = mset c else py = c) \<or>
     name = ''framing'' \<and> proto = 2 \<and> \<not> strict"
  by (auto simp: compare_runs_def sort_eq_mset)

text \<open>What a pass of the default run means: the transcripts of five scenarios are equal. The
  sixth, the reassembler test, passes whatever the two servers did, unless \<^verbatim>\<open>--strict\<close>
  is given.\<close>

theorem default_run_pass:
  assumes "sa_proto a = 2" and "sa_seats a = 2" and "sa_scenario a = []" and "\<not> sa_list a"
    and "sa_python_server a \<noteq> Some False"
  shows "sd_main a True runs = Compared True \<longleftrightarrow>
    (\<forall>n \<in> {''roster'', ''rooms'', ''start'', ''relay'', ''drops''}. fst (runs n) = snd (runs n)) \<and>
    (sa_strict a \<longrightarrow> fst (runs ''framing'') = snd (runs ''framing''))"
proof -
  have "find (\<lambda>n. n \<notin> set SCENARIOS_V2) DEFAULT_ORDER_V2 = None"
    by (simp add: SCENARIOS_V2_def DEFAULT_ORDER_V2_def)
  then show ?thesis
    using assms by (auto simp: sd_main_def Let_def compare_runs_iff DEFAULT_ORDER_V2_def)
qed

theorem default_run_pass_witness:
  "sd_main \<lparr>sa_seats = 2, sa_proto = 2, sa_python_server = None, sa_scenario = [], sa_strict = False,
     sa_list = False\<rparr> True (\<lambda>n. if n = ''framing'' then ([[65]], []) else ([], [])) = Compared True"
  using default_run_pass [of "\<lparr>sa_seats = 2, sa_proto = 2, sa_python_server = None, sa_scenario = [],
     sa_strict = False, sa_list = False\<rparr>" "\<lambda>n. if n = ''framing'' then ([[65]], []) else ([], [])"]
  by simp

section \<open>The log filter\<close>

lemma ways_chars:
  "cs \<noteq> [] \<Longrightarrow> ways (cat (map chr cs)) (p, x, g) =
     (if take (length cs) x = cs then [(rev cs @ p, drop (length cs) x, g)] else [])"
proof (induction cs arbitrary: p x)
  case (Cons c cs)
  have one: "ways (chr c) (p, x, g) = (if take 1 x = [c] then [(c # p, drop 1 x, g)] else [])"
    by (cases x) (auto simp: chr_def)
  show ?case
  proof (cases cs)
    case Nil
    then show ?thesis using one by simp
  next
    case (Cons d ds)
    then have "ways (cat (map chr (c # cs))) (p, x, g) = concat (map (ways (cat (map chr cs))) (ways (chr c) (p, x, g)))"
      by simp
    also have "\<dots> = (if take (length (c # cs)) x = c # cs then [(rev (c # cs) @ p, drop (length (c # cs)) x, g)] else [])"
      using one Cons.IH Cons by (cases x) auto
    finally show ?thesis .
  qed
qed simp

definition seed_text :: "nat list \<Rightarrow> nat list" where
  "seed_text d = str_of ''(seed $'' @ d @ [41]"

definition seed_here :: "nat list \<Rightarrow> bool" where
  "seed_here x \<longleftrightarrow> (\<exists>d. length d = 4 \<and> (\<forall>c \<in> set d. is_hex c) \<and> take 12 x = seed_text d)"

lemma ways_SEED_RE:
  "ways SEED_RE (p, x, []) = (if seed_here x then [(rev (take 12 x) @ p, drop 12 x, [])] else [])"
proof -
  let ?s = "str_of ''(seed $''"
  have l: "length ?s = 7" "?s \<noteq> []" by (simp_all add: str_of_def)
  have last: "ways (chr 41) (q, y, []) = (if take 1 y = [41] then [(41 # q, drop 1 y, [])] else [])" for q y
    by (cases y) (auto simp: chr_def)
  have re: "ways SEED_RE (p, x, []) = (if take 7 x = ?s \<and> 4 \<le> length (drop 7 x) \<and>
      (\<forall>c \<in> set (take 4 (drop 7 x)). is_hex c) \<and> take 1 (drop 11 x) = [41]
      then [(41 # rev (take 4 (drop 7 x)) @ rev ?s @ p, drop 12 x, [])] else [])"
    using ways_hex_word [of "rev ?s @ p" "drop 7 x" "[]"] last
    by (simp add: SEED_RE_def lit_def ways_chars [OF l(2)] l(1) hex_word_def)
  have split: "take 12 x = take 7 x @ take 4 (drop 7 x) @ take 1 (drop 11 x)"
    using take_add [of 7 5 x] take_add [of 4 1 "drop 7 x"] by (simp add: add.commute)
  have "seed_here x \<longleftrightarrow> take 7 x = ?s \<and> 4 \<le> length (drop 7 x) \<and>
      (\<forall>c \<in> set (take 4 (drop 7 x)). is_hex c) \<and> take 1 (drop 11 x) = [41]"
  proof
    assume "seed_here x"
    then obtain d where d: "length d = 4" "\<forall>c \<in> set d. is_hex c" "take 12 x = ?s @ d @ [41]"
      by (auto simp: seed_here_def seed_text_def)
    then have "length (take 12 x) = 12" using l by simp
    then have len: "12 \<le> length x" by simp
    have "take 7 x = ?s \<and> take 4 (drop 7 x) @ take 1 (drop 11 x) = d @ [41]"
      using d(3) l(1) len unfolding split by (subst (asm) append_eq_append_conv) simp_all
    then have "take 7 x = ?s" "take 4 (drop 7 x) = d" "take 1 (drop 11 x) = [41]"
      using d(1) len by (simp_all add: append_eq_append_conv)
    then show "take 7 x = ?s \<and> 4 \<le> length (drop 7 x) \<and>
        (\<forall>c \<in> set (take 4 (drop 7 x)). is_hex c) \<and> take 1 (drop 11 x) = [41]"
      using d(2) len by simp
  next
    assume "take 7 x = ?s \<and> 4 \<le> length (drop 7 x) \<and>
        (\<forall>c \<in> set (take 4 (drop 7 x)). is_hex c) \<and> take 1 (drop 11 x) = [41]"
    then show "seed_here x"
      unfolding seed_here_def seed_text_def split by (intro exI [of _ "take 4 (drop 7 x)"]) simp
  qed
  then show ?thesis unfolding re split by auto
qed

lemma length_seed_text: "length d = 4 \<Longrightarrow> length (seed_text d) = 12"
  by (simp add: seed_text_def str_of_def)

lemma seed_here_length: "seed_here x \<Longrightarrow> 12 \<le> length x"
  using length_seed_text by (auto simp: seed_here_def) (metis length_take min.cobounded1)

lemma replaced_seed:
  "replaced w (scan SEED_RE p x) =
     (if seed_here x then w @ replaced w (scan SEED_RE (rev (take 12 x) @ p) (drop 12 x))
      else (case x of [] \<Rightarrow> [] | c # cs \<Rightarrow> c # replaced w (scan SEED_RE (c # p) cs)))"
proof (cases "seed_here x")
  case True
  then have "length (drop 12 x) < length x" using seed_here_length by fastforce
  with True show ?thesis by (subst scan.simps) (simp add: ways_SEED_RE)
next
  case False
  then show ?thesis by (subst scan.simps) (simp add: ways_SEED_RE split: list.split)
qed

lemma replaced_seed_skip:
  "\<not> seed_here (c # x) \<Longrightarrow> replaced w (scan SEED_RE p (c # x)) = c # replaced w (scan SEED_RE (c # p) x)"
  using replaced_seed [of w p "c # x"] by simp

text \<open>The scan for seeds does not look back.\<close>

lemma replaced_seed_pre: "replaced w (scan SEED_RE p x) = replaced w (scan SEED_RE q x)"
proof (induction "length x" arbitrary: p q x rule: less_induct)
  case less
  show ?case
  proof (cases "seed_here x")
    case True
    then have "length (drop 12 x) < length x" using seed_here_length by fastforce
    from less [OF this, of "rev (take 12 x) @ p" "rev (take 12 x) @ q"] True show ?thesis
      by (simp add: replaced_seed [of w p x] replaced_seed [of w q x])
  next
    case False
    then show ?thesis
      using less [of "tl x" "hd x # p" "hd x # q"] replaced_seed [of w p x] replaced_seed [of w q x]
      by (cases x) simp_all
  qed
qed

lemma paren_starts_seed:
  assumes "seed_here (u @ 40 # v)" and "u \<noteq> []"
  shows "12 \<le> length u"
proof (rule ccontr)
  assume "\<not> 12 \<le> length u"
  then have n: "length u < 12" "0 < length u" using assms(2) by simp_all
  obtain d where d: "length d = 4" "\<forall>c \<in> set d. is_hex c" "take 12 (u @ 40 # v) = seed_text d"
    using assms(1) by (auto simp: seed_here_def)
  have "seed_text d ! length u = 40"
    using n by (simp add: d(3) [symmetric] nth_append)
  moreover have "40 \<notin> set (tl (seed_text d))"
    using d(2) by (auto simp: seed_text_def str_of_def is_hex_def)
  moreover have "seed_text d ! length u = tl (seed_text d) ! (length u - 1)"
    using n length_seed_text [OF d(1)] by (simp add: nth_tl)
  moreover have "length u - 1 < length (tl (seed_text d))"
    using n length_seed_text [OF d(1)] by simp
  ultimately show False using nth_mem by metis
qed

lemma replaced_seed_eq:
  assumes d: "length d = 4" "\<forall>c \<in> set d. is_hex c" and e: "length e = 4" "\<forall>c \<in> set e. is_hex c"
  shows "replaced w (scan SEED_RE p (u @ seed_text d @ v)) = replaced w (scan SEED_RE q (u @ seed_text e @ v))"
proof (induction "length u" arbitrary: u p q rule: less_induct)
  case less
  have st: "seed_text f = 40 # tl (seed_text f)" for f by (simp add: seed_text_def str_of_def)
  show ?case
  proof (cases u)
    case Nil
    have "seed_here (seed_text f @ v) \<and> take 12 (seed_text f @ v) = seed_text f \<and> drop 12 (seed_text f @ v) = v"
      if "length f = 4" "\<forall>c \<in> set f. is_hex c" for f
      using that by (auto simp: seed_here_def length_seed_text)
    from this [OF d] this [OF e] show ?thesis
      using replaced_seed_pre [of w "rev (seed_text d) @ p" v "rev (seed_text e) @ q"]
      by (simp add: Nil replaced_seed [of w p "seed_text d @ v"] replaced_seed [of w q "seed_text e @ v"])
  next
    case (Cons c cs)
    have here: "seed_here (u @ seed_text f @ v) \<longleftrightarrow> 12 \<le> length u \<and> seed_here u" for f
    proof
      assume h: "seed_here (u @ seed_text f @ v)"
      have "seed_text f @ v = 40 # tl (seed_text f) @ v" using st [of f] by (metis append_Cons)
      then have "seed_here (u @ 40 # tl (seed_text f) @ v)" using h by metis
      then have "12 \<le> length u" by (rule paren_starts_seed) (simp add: Cons)
      with h show "12 \<le> length u \<and> seed_here u" by (simp add: seed_here_def)
    qed (simp add: seed_here_def)
    show ?thesis
    proof (cases "12 \<le> length u \<and> seed_here u")
      case True
      then have "12 \<le> length u" by simp
      then have "length (drop 12 u) < length u" by simp
      from less [OF this, of "rev (take 12 u) @ p" "rev (take 12 u) @ q"] True show ?thesis
        by (simp add: here replaced_seed [of w p "u @ seed_text d @ v"] replaced_seed [of w q "u @ seed_text e @ v"])
    next
      case False
      from less [of cs] Cons have "replaced w (scan SEED_RE (c # p) (cs @ seed_text d @ v)) =
          replaced w (scan SEED_RE (c # q) (cs @ seed_text e @ v))" by simp
      moreover have "\<not> seed_here (c # cs @ seed_text f @ v)" for f
        using here [of f] False unfolding Cons append_Cons by blast
      ultimately show ?thesis by (simp add: Cons replaced_seed_skip)
    qed
  qed
qed

text \<open>C40. The log filter hides the seed, and with it the one thing that is random: two log lines
  that differ in the seed they print become the same line, wherever in the line it is and
  whatever surrounds it.\<close>

theorem normalize_hides_seed:
  assumes "a < 65536" and "b < 65536"
  shows "normalize_line (pre @ str_of ''(seed $'' @ hex4 a @ [41] @ post) =
    normalize_line (pre @ str_of ''(seed $'' @ hex4 b @ [41] @ post)"
proof -
  have "rx_sub SEED_RE w (pre @ seed_text (hex4 a) @ post) = rx_sub SEED_RE w (pre @ seed_text (hex4 b) @ post)" for w
    unfolding rx_sub_def by (rule replaced_seed_eq) (use hex4_hex in auto)
  then show ?thesis by (simp add: normalize_line_def seed_text_def)
qed

theorem normalize_hides_seed_witness:
  "normalize_line (str_of ''log INFO match '' @ str_of ''(seed $'' @ hex4 0x12AB @ [41] @ []) =
    normalize_line (str_of ''log INFO match '' @ str_of ''(seed $'' @ hex4 7 @ [41] @ [])"
  by (rule normalize_hides_seed) simp_all

end
