(* ===== verification/BenchProps.thy ===== *)
theory BenchProps
  imports Scripts Soak RunProps DifferProps
begin

text \<open>
  What holds of every program on the test bench, whatever it sends: the relay under it stays
  in its invariant, all connections come from one address, and what a client reads is made
  of whole frames when the sockets never take part of what they are given.
\<close>

section \<open>Programs that keep a property of the bench\<close>

definition upholds :: "(bench \<Rightarrow> bool) \<Rightarrow> prog \<Rightarrow> bool" where
  "upholds P f \<longleftrightarrow> (\<forall>b. P b \<longrightarrow> P (fst (f b)))"

lemma upholdsI: "(\<And>b. P b \<Longrightarrow> P (fst (f b))) \<Longrightarrow> upholds P f"
  by (simp add: upholds_def)

lemma upholdsD: "upholds P f \<Longrightarrow> P b \<Longrightarrow> P (fst (f b))"
  by (simp add: upholds_def)

lemma upholds_skip [simp]: "upholds P skip"
  by (simp add: upholds_def skip_def)

lemma upholds_raise [simp]: "upholds P (raise e)"
  by (simp add: upholds_def raise_def)

lemma upholds_seq: "upholds P f \<Longrightarrow> upholds P g \<Longrightarrow> upholds P (seq f g)"
proof (rule upholdsI)
  fix b assume a: "upholds P f" "upholds P g" "P b"
  obtain b' e where "f b = (b', e)" by fastforce
  with upholdsD [OF a(1,3)] upholdsD [OF a(2), of b'] show "P (fst (seq f g b))"
    by (cases e) (simp_all add: seq_def)
qed

lemma upholds_bind: "(\<And>a. r = Inr a \<Longrightarrow> upholds P (f a)) \<Longrightarrow> upholds P (bind_val r f)"
  by (cases r) simp_all

lemma upholds_for_each: "(\<And>x. x \<in> set xs \<Longrightarrow> upholds P (f x)) \<Longrightarrow> upholds P (for_each f xs)"
  by (induction xs) (simp_all add: upholds_seq)

lemma upholds_block: "(\<And>p. p \<in> set ps \<Longrightarrow> upholds P p) \<Longrightarrow> upholds P (block ps)"
  by (simp add: block_def upholds_for_each)

lemma all_read_fields: "bn_loop (all_read b) = bn_loop b" "bn_sock (all_read b) = bn_sock b"
proof -
  have "bn_loop (fold (\<lambda>i. upd_cli i (f i)) ks b) = bn_loop b \<and>
      bn_sock (fold (\<lambda>i. upd_cli i (f i)) ks b) = bn_sock b" for f ks b
    by (induction ks arbitrary: b) (simp_all add: upd_cli_def)
  then show "bn_loop (all_read b) = bn_loop b" "bn_sock (all_read b) = bn_sock b"
    by (simp_all add: all_read_def)
qed

text \<open>The interface: a property the network keeps, and that is about the network alone.\<close>

locale bench_law =
  fixes P :: "bench \<Rightarrow> bool"
  assumes network: "bn_loop b' = bn_loop b \<Longrightarrow> bn_sock b' = bn_sock b \<Longrightarrow> P b \<Longrightarrow> P b'"
    and accepted: "P b \<Longrightarrow> P (fst (feed (Accepted (LOCALHOST, p) (bn_now b) (bn_sock b)) b))"
    and read: "P b \<Longrightarrow> P (fst (feed (Ready c False r) b))"
    and waited: "P b \<Longrightarrow> P (fst (wait_until t b))"
begin

lemma update_keeps:
  "(\<And>b. bn_loop (f b) = bn_loop b) \<Longrightarrow> (\<And>b. bn_sock (f b) = bn_sock b) \<Longrightarrow> upholds P (update f)"
  by (rule upholdsI, rule network [rotated 2]) (simp_all add: update_def)

lemma dial_keeps: "upholds P (dial name)"
proof (rule upholdsI)
  fix b assume b: "P b"
  let ?e = "Accepted (LOCALHOST, bn_port b) (bn_now b) (bn_sock b)"
  let ?f = "\<lambda>b'. b'\<lparr>bn_port := Suc (bn_port b'), bn_clis := bn_clis b' @ [\<lparr>ck_name = name,
    ck_cid = (if sv_next_cl (bn_server b') = sv_next_cl (bn_server b) then None
      else Some (sv_next_cl (bn_server b))), ck_buf = [], ck_read = 0\<rparr>]\<rparr>"
  obtain b1 e where f: "feed ?e b = (b1, e)" by fastforce
  have "P b1" using accepted [OF b, of "bn_port b"] f by simp
  then have "P (?f b1)" by (rule network [rotated 2]) simp_all
  with \<open>P b1\<close> f show "P (fst (dial name b))"
    by (cases e) (simp_all add: dial_def Let_def seq_def update_def)
qed

lemma push_keeps: "upholds P (push i data)"
  by (rule upholdsI) (auto simp: push_def read split: option.split)

lemma hang_up_keeps: "upholds P (hang_up i)"
  by (rule upholdsI) (auto simp: hang_up_def read split: option.split)

lemma probe_keeps: "upholds P probe"
proof (rule upholdsI)
  fix b assume b: "P b"
  let ?e = "Accepted (LOCALHOST, bn_port b) (bn_now b) (bn_sock b)"
  obtain b1 e where f: "feed ?e b = (b1, e)" by fastforce
  have "P b1" using accepted [OF b, of "bn_port b"] f by simp
  then have 1: "P (b1\<lparr>bn_port := Suc (bn_port b1)\<rparr>)" by (rule network [rotated 2]) simp_all
  show "P (fst (probe b))"
    using \<open>P b1\<close> 1 read [OF 1, of "sv_next_cl (bn_server b)" "Some (RecvData [])"] f
    by (cases e) (simp_all add: probe_def Let_def seq_def update_def)
qed

lemma offer_keeps: "upholds P (offer late i data)"
  by (rule upholdsI) (simp add: offer_def upholdsD [OF push_keeps])

lemma soak_frame_keeps: "upholds P (soak_frame late i t p)"
  unfolding soak_frame_def by (intro upholds_bind offer_keeps)

lemma soak_hello_keeps: "upholds P (soak_hello late name)"
proof (rule upholdsI)
  fix b assume b: "P b"
  have "upholds P (seq (dial name) (bind_val (utf8_encode name) (\<lambda>nm. soak_frame late n T_HELLO (2 # nm))))" for n
    by (rule upholds_seq [OF dial_keeps upholds_bind [OF soak_frame_keeps]])
  from upholdsD [OF this b] show "P (fst (soak_hello late name b))"
    by (simp add: soak_hello_def)
qed

lemma soak_setup_keeps: "upholds P (soak_setup late idle)"
  unfolding soak_setup_def
  by (rule upholds_block) (auto intro: probe_keeps soak_hello_keeps soak_frame_keeps upholds_bind upholds_for_each)

lemma soak_beat_keeps: "upholds P (soak_beat late tick)"
  unfolding soak_beat_def Let_def by (rule upholds_block) (auto intro: soak_frame_keeps)

lemma soak_tick_keeps:
  assumes "P (fst w)"
  shows "P (fst (fst (soak_tick late period now w)))"
proof -
  obtain b k where w: "w = (b, k)" by fastforce
  have "P (fst (soak_beat late n b))" for n using upholdsD [OF soak_beat_keeps] assms w by simp
  then show ?thesis using assms by (simp add: w soak_tick_def Let_def case_prod_unfold)
qed

lemma soak_loop_keeps: "P (fst w) \<Longrightarrow> P (fst (soak_loop late t0 secs period every turns w))"
proof (induction turns arbitrary: w)
  case (Cons t turns)
  obtain start now rss hwm where t: "t = (start, now, rss, hwm)" by (metis prod_cases4)
  obtain b k stop where b: "soak_tick late period now (fst (wait_until now (fst w)), snd w) = ((b, k), stop)"
    by (metis prod.collapse)
  have "P b" using soak_tick_keeps [of "(fst (wait_until now (fst w)), snd w)" late period now]
    waited [OF Cons.prems] b by simp
  moreover from this have "P (all_read b)"
    by (rule network [rotated 2]) (simp_all add: all_read_fields)
  ultimately show ?case
    using Cons.prems Cons.IH [of "(all_read b, soak_sample every now rss hwm k)"] b
    by (simp add: t split: bool.split)
qed simp

lemma soak_main_keeps: "P b \<Longrightarrow> P (fst (soak_main a late t0 turns b))"
proof -
  assume b: "P b"
  obtain b' e where "soak_setup late (so_idle a) b = (b', e)" by fastforce
  moreover from this have "P b'" using upholdsD [OF soak_setup_keeps b, of late "so_idle a"] by simp
  ultimately show ?thesis
    using soak_loop_keeps [of "(b', k)" for k] by (simp add: soak_main_def case_prod_unfold split: option.split)
qed

end

section \<open>The relay under the bench\<close>

definition homely :: "bench \<Rightarrow> bool" where
  "homely b \<longleftrightarrow> linv (bn_loop b) \<and>
     (\<forall>k < sv_next_cl (bn_server b). fst (cl_addr (sv_cl (bn_server b) k)) = LOCALHOST)"

definition tidy_bench :: "bench \<Rightarrow> bool" where
  "tidy_bench b \<longleftrightarrow> linv (bn_loop b) \<and> list_all takes_all (bn_sock b) \<and>
     (\<forall>k < sv_next_cl (bn_server b). tidy (sv_cl (bn_server b) k))"

lemma feed_fields:
  "bn_loop (fst (feed e b)) = fst (turn ([e], bn_now b) (bn_loop b))"
  "bn_sock (fst (feed e b)) = bn_sock b" "bn_clis (fst (feed e b)) = bn_clis b"
  "linv (bn_loop b) \<Longrightarrow> e \<noteq> AcceptFails \<Longrightarrow> snd (feed e b) = None"
  using turn_inv(2) [of "bn_loop b" "[e]" "bn_now b"]
  by (auto simp: feed_def split: prod.split option.split)

lemma wait_fields:
  "bn_loop (fst (wait_until t b)) = fst (turn ([], t) (bn_loop b))"
  "bn_sock (fst (wait_until t b)) = bn_sock b" "bn_clis (fst (wait_until t b)) = bn_clis b"
  by (auto simp: wait_until_def split: prod.split option.split)

text \<open>A turn without an accept: the same clients, tidy as before.\<close>

lemma turn_one:
  "turn ([e], now) l =
     (case on_event e (lp_relay l) of
        (r, None) \<Rightarrow> timers now (l\<lparr>lp_relay := r\<rparr>) | (r, Some z) \<Rightarrow> (l\<lparr>lp_relay := r\<rparr>, Some z))"
  by (auto simp: turn_def seq_def on_relay_def skip_def split: prod.split option.split)

lemma turn_none: "turn ([], now) l = timers now l"
  by (simp add: turn_def seq_def on_relay_def skip_def)

lemma turn_streams_no_accept:
  assumes l: "linv l" and "\<And>a n sc. e \<noteq> Accepted a n sc"
  shows "streams (rl_server (lp_relay l)) (rl_server (lp_relay (fst (turn ([e], now) l))))"
proof -
  obtain r z where r: "on_event e (lp_relay l) = (r, z)" by fastforce
  have "streams (rl_server (lp_relay l)) (rl_server r)"
    using on_event_streams [of "lp_relay l" e] assms r by (simp add: linv_def)
  with r timers_streams [of "l\<lparr>lp_relay := r\<rparr>" now] show ?thesis
    by (auto simp: turn_one intro: streams_trans split: option.split)
qed

lemma turn_accepts:
  assumes l: "linv l"
  shows "grows (accept a n sc (rl_server (lp_relay l)))
      (rl_server (lp_relay (fst (turn ([Accepted a n sc], now) l))))"
    and "sv_next_cl (rl_server (lp_relay (fst (turn ([Accepted a n sc], now) l)))) =
      sv_next_cl (accept a n sc (rl_server (lp_relay l)))"
proof -
  obtain r where r: "on_event (Accepted a n sc) (lp_relay l) = (r, None)"
      "rl_server r = accept a n sc (rl_server (lp_relay l))"
    by (cases "on_event (Accepted a n sc) (lp_relay l)") (auto split: if_splits)
  then show "grows (accept a n sc (rl_server (lp_relay l)))
      (rl_server (lp_relay (fst (turn ([Accepted a n sc], now) l))))"
    and "sv_next_cl (rl_server (lp_relay (fst (turn ([Accepted a n sc], now) l)))) =
      sv_next_cl (accept a n sc (rl_server (lp_relay l)))"
    using timers_streams [of "l\<lparr>lp_relay := r\<rparr>" now] by (simp_all add: turn_one streams_def)
qed

text \<open>Every client of the server keeps a property of its address and its tidiness.\<close>

lemma all_clients_accept:
  assumes inv: "winv {} s" and all: "\<forall>k < sv_next_cl s. Q (sv_cl s k)" and new: "Q (client_init a n sc)"
  shows "\<forall>k < sv_next_cl (accept a n sc s). Q (sv_cl (accept a n sc s) k)"
  by (cases a n sc s rule: accept_cases) (use all new in \<open>auto simp: reject_def less_Suc_eq\<close>)

lemma homely_law: "bench_law homely"
proof
  fix b b' :: bench assume "bn_loop b' = bn_loop b" "homely b"
  then show "homely b'" by (simp add: homely_def)
next
  fix b p assume b: "homely b"
  let ?e = "Accepted (LOCALHOST, p) (bn_now b) (bn_sock b)"
  let ?s = "accept (LOCALHOST, p) (bn_now b) (bn_sock b) (bn_server b)"
  have inv: "winv {} (bn_server b)" "linv (bn_loop b)" using b by (simp_all add: homely_def linv_def)
  have "\<forall>k < sv_next_cl ?s. fst (cl_addr (sv_cl ?s k)) = LOCALHOST"
    by (rule all_clients_accept [where Q = "\<lambda>c. fst (cl_addr c) = LOCALHOST", OF inv(1)])
      (use b in \<open>simp_all add: homely_def client_init_def\<close>)
  then show "homely (fst (feed ?e b))"
    using turn_accepts [OF inv(2)] turn_inv(1) [OF inv(2)]
    by (auto simp: homely_def feed_fields grows_def)
next
  fix b c r assume b: "homely b"
  then have l: "linv (bn_loop b)" by (simp add: homely_def)
  from b show "homely (fst (feed (Ready c False r) b))"
    using turn_streams_no_accept [OF l, of "Ready c False r"] turn_inv(1) [OF l]
    by (auto simp: homely_def feed_fields streams_def grows_def)
next
  fix b t assume b: "homely b"
  then have l: "linv (bn_loop b)" by (simp add: homely_def)
  from b show "homely (fst (wait_until t b))"
    using timers_streams [of "bn_loop b" t] turn_inv(1) [OF l, of "[]" t]
    by (auto simp: homely_def wait_fields turn_none streams_def grows_def)
qed

lemma tidy_law: "bench_law tidy_bench"
proof
  fix b b' :: bench assume "bn_loop b' = bn_loop b" "bn_sock b' = bn_sock b" "tidy_bench b"
  then show "tidy_bench b'" by (simp add: tidy_bench_def)
next
  fix b p assume b: "tidy_bench b"
  let ?e = "Accepted (LOCALHOST, p) (bn_now b) (bn_sock b)"
  let ?s = "accept (LOCALHOST, p) (bn_now b) (bn_sock b) (bn_server b)"
  have inv: "winv {} (bn_server b)" "linv (bn_loop b)" using b by (simp_all add: tidy_bench_def linv_def)
  have "\<forall>k < sv_next_cl ?s. tidy (sv_cl ?s k)"
    by (rule all_clients_accept [OF inv(1)])
      (use b in \<open>simp_all add: tidy_bench_def client_init_def tidy_def\<close>)
  then show "tidy_bench (fst (feed ?e b))"
    using b turn_accepts [OF inv(2)] turn_inv(1) [OF inv(2)]
    by (auto simp: tidy_bench_def feed_fields grows_def)
next
  fix b c r assume b: "tidy_bench b"
  then have l: "linv (bn_loop b)" by (simp add: tidy_bench_def)
  from b show "tidy_bench (fst (feed (Ready c False r) b))"
    using turn_streams_no_accept [OF l, of "Ready c False r"] turn_inv(1) [OF l]
    by (auto simp: tidy_bench_def feed_fields streams_def grows_def)
next
  fix b t assume b: "tidy_bench b"
  then have l: "linv (bn_loop b)" by (simp add: tidy_bench_def)
  from b show "tidy_bench (fst (wait_until t b))"
    using timers_streams [of "bn_loop b" t] turn_inv(1) [OF l, of "[]" t]
    by (auto simp: tidy_bench_def wait_fields turn_none streams_def grows_def)
qed

interpretation home: bench_law homely by (rule homely_law)
interpretation neat: bench_law tidy_bench by (rule tidy_law)

lemma homely_holds_eight:
  assumes "homely b"
  shows "length (sv_clients (bn_server b)) \<le> 8"
proof -
  let ?s = "bn_server b"
  have inv: "winv {} ?s" using assms by (simp add: homely_def linv_def)
  have "fst (cl_addr (sv_cl ?s c)) = LOCALHOST" if "c \<in> set (sv_clients ?s)" for c
  proof -
    have "\<not> dead ?s c" using that inv by (simp add: winv_def clients_ok_def)
    moreover have "dead ?s c" if "sv_next_cl ?s \<le> c"
    proof -
      have "sv_cl ?s c = no_client" using that inv by (simp add: winv_def clients_ok_def)
      then show ?thesis by (simp add: no_client_def)
    qed
    ultimately have "c < sv_next_cl ?s" using not_less by blast
    then show ?thesis using assms by (simp add: homely_def)
  qed
  then have "per_ip ?s LOCALHOST = length (sv_clients ?s)" by (simp add: per_ip_def)
  moreover have "per_ip ?s LOCALHOST \<le> MAX_CONNECTIONS_PER_IP"
    using inv by (simp add: winv_def clients_ok_def)
  ultimately show ?thesis by (simp add: MAX_CONNECTIONS_PER_IP_def)
qed

lemma homely_start:
  assumes "0 \<le> ar_delay a" and "ar_delay a < 256"
  shows "homely (bench_init (main_server a rng) sock)"
  using main_linv [OF assms, of rng 0]
  by (simp add: homely_def bench_init_def) (simp add: loop_init_def relay_init_def main_server_def server_init_def)

end
