(* ===== verification/ScriptReads.thy ===== *)
theory ScriptReads
  imports BenchProps
begin

text \<open>
  The scripts of the differential test never see part of a frame on sockets that take what
  is sent: every line of a transcript is a frame, rendered, or an end of stream.
\<close>

section \<open>Frames on the wire\<close>

lemma enframe_inject:
  assumes "length p \<le> 254" and "length q \<le> 254"
  shows "enframe t p @ x = enframe u q @ y \<longleftrightarrow> t = u \<and> p = q \<and> x = y"
proof
  assume eq: "enframe t p @ x = enframe u q @ y"
  have "unat (word_of_nat (Suc (length p)) :: byte) = Suc (length p)"
      "unat (word_of_nat (Suc (length q)) :: byte) = Suc (length q)"
    by (rule byte_of_nat, use assms in simp)+
  moreover from eq have "(word_of_nat (Suc (length p)) :: byte) = word_of_nat (Suc (length q))"
    by (simp add: enframe_def)
  ultimately have "length p = length q" by (metis Suc_inject)
  with eq show "t = u \<and> p = q \<and> x = y" by (simp add: enframe_def)
qed simp

lemma whole_frames_cut:
  assumes "whole_frames a" and "whole_frames (a @ b)"
  shows "whole_frames b"
proof -
  have "list_all well_typed fs \<Longrightarrow> whole_frames (frames_out fs @ b) \<Longrightarrow> whole_frames b" for fs
  proof (induction fs)
    case (Cons f fs)
    obtain t p where f: "f = (t, p)" by fastforce
    obtain gs where gs: "list_all well_typed gs" "frames_out (f # fs) @ b = frames_out gs"
      using Cons.prems(2) by (auto simp: whole_frames_def)
    then obtain u q gs' where g: "gs = (u, q) # gs'"
      by (cases gs) (auto simp: f frames_out_def enframe_def)
    have "frames_out fs @ b = frames_out gs'"
      using gs Cons.prems(1) well_typed_length [of "(t, p)"] well_typed_length [of "(u, q)"]
        enframe_inject [of p q t "frames_out fs @ b" u "frames_out gs'"]
      by (simp add: f g frames_out_def)
    then have "whole_frames (frames_out fs @ b)" using gs(1) g unfolding whole_frames_def by auto
    with Cons show ?case by simp
  qed (simp add: frames_out_def)
  with assms show ?thesis by (auto simp: whole_frames_def)
qed

lemma whole_frames_bodies: "whole_frames bs \<Longrightarrow> snd (sd_bodies bs) = []"
  by (auto simp: whole_frames_def sd_bodies_frames well_typed_lengths)

section \<open>What a sync drains\<close>

definition arrive :: "byte list \<Rightarrow> sd_client \<Rightarrow> sd_client" where
  "arrive data c =
     (if sc_closed c then c
      else if data = [] then c\<lparr>sc_eof := True, sc_closed := True\<rparr>
      else c\<lparr>sc_buf := sc_buf c @ data\<rparr>)"

lemma arrivals_at:
  "j < length cs \<Longrightarrow> fold sd_arrival evs cs ! j =
     fold arrive (map snd (filter (\<lambda>e. fst e = j) evs)) (cs ! j)"
proof (induction evs arbitrary: cs)
  case (Cons e evs)
  obtain i data where e: "e = (i, data)" by fastforce
  have "length (sd_arrival e cs) = length cs" by (simp add: e sd_arrival_def)
  moreover have "sd_arrival e cs ! j = (if i = j then arrive data (cs ! j) else cs ! j)"
    using Cons.prems by (auto simp: e sd_arrival_def arrive_def)
  ultimately show ?case using Cons.IH [of "sd_arrival e cs"] Cons.prems by (simp add: e)
qed simp

definition piece :: "bench \<Rightarrow> nat \<Rightarrow> (nat \<times> byte list) list" where
  "piece b i = (if fresh_data b i \<noteq> [] then [(i, fresh_data b i)] else []) @
     (if alive b i = None then [(i, [])] else [])"

lemma arrivals_filter:
  assumes "j < length (bn_clis b)"
  shows "filter (\<lambda>e. fst e = j) (arrivals b) = piece b j"
proof -
  have "filter (\<lambda>e. fst e = j) (piece b i) = (if i = j then piece b i else [])" for i
    by (simp add: piece_def)
  moreover have "concat (map (\<lambda>i. if i = j then piece b i else []) [0..<n]) = (if j < n then piece b j else [])" for n
    by (induction n) (auto simp: less_Suc_eq)
  moreover have "arrivals b = concat (map (piece b) [0..<length (bn_clis b)])"
    by (simp only: arrivals_def piece_def [abs_def])
  ultimately show ?thesis using assms by (simp add: filter_concat comp_def)
qed

lemma drained:
  assumes "j < length cs" and "j < length (bn_clis b)" and "sc_buf (cs ! j) = []"
  shows "sc_buf (fold sd_arrival (arrivals b) cs ! j) \<in> {[], fresh_data b j}"
  using assms(3) arrivals_at [OF assms(1), of "arrivals b"] arrivals_filter [OF assms(2)]
  by (simp add: piece_def arrive_def)

lemma all_read_length: "length (bn_clis (all_read b)) = length (bn_clis b)"
proof -
  have "length (bn_clis (fold (\<lambda>i. upd_cli i (f i)) ks b)) = length (bn_clis b)" for f ks b
    by (induction ks arbitrary: b) (simp_all add: upd_cli_def)
  then show ?thesis by (simp add: all_read_def)
qed

lemma all_read_nth:
  assumes "i < length (bn_clis b)"
  shows "bn_clis (all_read b) ! i = (bn_clis b ! i)\<lparr>ck_read := length (on_wire b i)\<rparr>"
proof -
  let ?f = "\<lambda>k. bn_clis (fold (\<lambda>i. upd_cli i (\<lambda>c. c\<lparr>ck_read := length (on_wire b i)\<rparr>)) [0..<k] b)"
  have "length (?f k) = length (bn_clis b) \<and> (i < length (bn_clis b) \<longrightarrow>
      ?f k ! i = (if i < k then (bn_clis b ! i)\<lparr>ck_read := length (on_wire b i)\<rparr> else bn_clis b ! i))" for k
    by (induction k) (auto simp: upd_cli_def nth_list_update less_Suc_eq)
  with assms show ?thesis by (simp add: all_read_def)
qed

section \<open>The state of a script between its steps\<close>

definition ck_ok :: "server \<Rightarrow> cli \<Rightarrow> bool" where
  "ck_ok s k \<longleftrightarrow>
     (case ck_cid k of None \<Rightarrow> True
      | Some c \<Rightarrow> c < sv_next_cl s \<and> ck_read k \<le> length (cl_wire (sv_cl s c)) \<and>
          whole_frames (take (ck_read k) (cl_wire (sv_cl s c))))"

definition synced :: "sd_state \<Rightarrow> bool" where
  "synced w \<longleftrightarrow> tidy_bench (fst w) \<and> length (bn_clis (fst w)) = length (sd_clients (snd w)) \<and>
     (\<forall>i < length (bn_clis (fst w)).
        sc_buf (sd_clients (snd w) ! i) = [] \<and> ck_ok (bn_server (fst w)) (bn_clis (fst w) ! i))"

lemma grows_ck_ok:
  assumes "grows s t" and "ck_ok s k"
  shows "ck_ok t k"
proof (cases "ck_cid k")
  case (Some c)
  then have c: "c < sv_next_cl s" using assms(2) by (simp add: ck_ok_def)
  then obtain ws where "cl_wire (sv_cl t c) = cl_wire (sv_cl s c) @ ws" "sv_next_cl s \<le> sv_next_cl t"
    using assms(1) by (auto simp: grows_def)
  with Some assms(2) show ?thesis by (simp add: ck_ok_def)
qed (simp add: ck_ok_def)

lemma feed_grows: "linv (bn_loop b) \<Longrightarrow> grows (bn_server b) (bn_server (fst (feed e b)))"
  using turn_streams [of "bn_loop b" "[e]" "bn_now b"] by (simp add: feed_fields lstreams_def)

text \<open>Sending and closing leave the clients as they are, and dialling adds one.\<close>

lemma sent_or_closed:
  assumes "tidy_bench b" and "f \<in> {push i data, hang_up i}"
  shows "tidy_bench (fst (f b)) \<and> bn_clis (fst (f b)) = bn_clis b \<and>
    grows (bn_server b) (bn_server (fst (f b)))"
proof -
  have "linv (bn_loop b)" using assms(1) by (simp add: tidy_bench_def)
  moreover have "tidy_bench (fst (f b))"
    using assms upholdsD [OF neat.push_keeps] upholdsD [OF neat.hang_up_keeps] by auto
  moreover have "grows (bn_server b) (bn_server b)" by (simp add: streams_grows)
  ultimately show ?thesis
    using assms(2) by (auto simp: push_def hang_up_def feed_fields(3) feed_grows split: option.split)
qed

lemma dialled:
  assumes b: "tidy_bench b" and d: "dial name b = (b', None)"
  shows "tidy_bench b' \<and> grows (bn_server b) (bn_server b') \<and>
    (\<exists>k. bn_clis b' = bn_clis b @ [k] \<and> ck_ok (bn_server b') k)"
proof -
  let ?e = "Accepted (LOCALHOST, bn_port b) (bn_now b) (bn_sock b)"
  obtain b1 where f: "feed ?e b = (b1, None)"
    using d by (cases "feed ?e b"; cases "snd (feed ?e b)") (auto simp: dial_def Let_def seq_def)
  have l: "linv (bn_loop b)" using b by (simp add: tidy_bench_def)
  have g: "grows (bn_server b) (bn_server b1)" using feed_grows [OF l, of ?e] f by simp
  then have "sv_next_cl (bn_server b) \<le> sv_next_cl (bn_server b1)" by (simp add: grows_def)
  then show ?thesis
    using d f g feed_fields(3) [of ?e b] upholdsD [OF neat.dial_keeps b, of name]
    by (auto simp: dial_def Let_def seq_def update_def ck_ok_def)
qed

text \<open>The lines a transcript may have.\<close>

definition recorded :: "nat \<Rightarrow> pystr \<Rightarrow> bool" where
  "recorded proto line \<longleftrightarrow>
     (\<exists>head r. line = head @ arrow @ r \<and> (r = str_of ''EOF'' \<or> (\<exists>body. render proto body = Inr r)))"

lemma recordedI:
  "r = str_of ''EOF'' \<or> (\<exists>body. render proto body = Inr r) \<Longrightarrow> recorded proto (tag @ bar @ label @ arrow @ r)"
  unfolding recorded_def by (intro exI [of _ "tag @ bar @ label"] exI [of _ r]) simp

lemma sd_record_lines:
  assumes "whole_frames (sc_buf c)" and "sd_record proto tag c = Inr (ls, c')"
  shows "list_all (recorded proto) ls \<and> sc_buf c' = []"
proof -
  obtain bodies where b: "sd_bodies (sc_buf c) = (bodies, [])"
    using whole_frames_bodies [OF assms(1)] by (metis prod.collapse)
  then obtain rs where rs: "map_val (render proto) bodies = Inr rs"
    using assms(2) by (auto simp: sd_record_def Let_def split: sum.splits)
  have "\<exists>body. render proto body = Inr r" if "r \<in> set rs" for r
    using map_val_nth [OF rs] that by (metis in_set_conv_nth)
  with assms(2) b rs show ?thesis
    by (auto simp: sd_record_def Let_def list_all_iff recordedI)
qed

lemma sync_lines:
  assumes w: "synced (b, x)" and s: "sd_sync proto tag (arrivals b) x = Inr x'"
  shows "synced (all_read b, x') \<and>
    (\<exists>ls. sd_transcript x' = sd_transcript x @ ls \<and> list_all (recorded proto) ls)"
proof -
  let ?cs = "fold sd_arrival (arrivals b) (sd_clients x)" and ?n = "length (bn_clis b)"
  let ?tag = "dec2 (Suc (sd_step x)) @ 32 # tag"
  have b: "tidy_bench b" "length (sd_clients x) = ?n" using w by (simp_all add: synced_def)
  have cs: "length ?cs = ?n"
    using b(2) by (simp add: length_arrivals)
  have tidy: "tidy (sv_cl (bn_server b) c)" if "c < sv_next_cl (bn_server b)" for c
    using b(1) that by (simp add: tidy_bench_def)
  have wire: "whole_frames (on_wire b i)" "whole_frames (fresh_data b i)" if "i < ?n" for i
  proof -
    show whole: "whole_frames (on_wire b i)"
      using w that tidy by (auto simp: on_wire_def synced_def ck_ok_def tidy_def split: option.split)
    show "whole_frames (fresh_data b i)"
    proof (cases "ck_cid (bn_clis b ! i)")
      case None
      then show ?thesis by (simp add: fresh_data_def on_wire_def)
    next
      case (Some c)
      then have "whole_frames (take (ck_read (bn_clis b ! i)) (on_wire b i))"
        using w that by (auto simp: on_wire_def synced_def ck_ok_def)
      from whole_frames_cut [OF this] whole show ?thesis by (simp add: fresh_data_def)
    qed
  qed
  obtain rs where rs: "map_val (sd_record proto ?tag) ?cs = Inr rs"
      "x' = \<lparr>sd_clients = map snd rs, sd_transcript = sd_transcript x @ concat (map fst rs), sd_step = Suc (sd_step x)\<rparr>"
    using s by (auto simp: sd_sync_def Let_def split: sum.splits)
  have len: "length rs = ?n" using map_val_nth [OF rs(1)] cs by simp
  have each: "list_all (recorded proto) (fst (rs ! i)) \<and> sc_buf (snd (rs ! i)) = []" if i: "i < ?n" for i
  proof -
    have "sc_buf (?cs ! i) \<in> {[], fresh_data b i}"
      by (rule drained) (use i b(2) w in \<open>simp_all add: synced_def\<close>)
    then have "whole_frames (sc_buf (?cs ! i))" using wire(2) [OF i] by auto
    moreover have "sd_record proto ?tag (?cs ! i) = Inr (fst (rs ! i), snd (rs ! i))"
      using map_val_nth [OF rs(1)] cs i by simp
    ultimately show ?thesis by (rule sd_record_lines)
  qed
  have "length (bn_clis (all_read b)) = ?n" by (rule all_read_length)
  moreover have "ck_ok (bn_server b) (bn_clis (all_read b) ! i)" if i: "i < ?n" for i
    using w i tidy
    by (auto simp: all_read_nth ck_ok_def synced_def on_wire_def tidy_def split: option.split)
  moreover have "tidy_bench (all_read b)"
    using b(1) by (simp add: tidy_bench_def all_read_fields)
  moreover have "list_all (recorded proto) (fst r)" if "r \<in> set rs" for r
    using that each len by (auto simp: in_set_conv_nth)
  then have "list_all (recorded proto) (concat (map fst rs))" by (auto simp: list_all_iff)
  ultimately show ?thesis
    using each len rs(2) by (simp add: synced_def all_read_fields)
qed

lemma exec_lines:
  assumes w: "synced w" and e: "sd_exec proto s w = (w', None)"
  shows "synced w' \<and>
    (\<exists>ls. sd_transcript (snd w') = sd_transcript (snd w) @ ls \<and> list_all (recorded proto) ls)"
proof -
  obtain b x b' x' where wx: "w = (b, x)" "w' = (b', x')" by (metis surj_pair)
  have b: "tidy_bench b" using w wx by (simp add: synced_def)
  have kept: "synced (b1, y)" if "tidy_bench b1" "bn_clis b1 = bn_clis b" "grows (bn_server b) (bn_server b1)"
      "length (sd_clients y) = length (sd_clients x)"
      "\<And>j. sc_buf (sd_clients y ! j) = sc_buf (sd_clients x ! j)" for b1 y
    using that w by (auto simp: wx synced_def intro: grows_ck_ok)
  have buf: "sc_buf ((sd_clients x)[i := (sd_clients x ! i)\<lparr>sc_sent := z\<rparr>] ! j) = sc_buf (sd_clients x ! j)"
      "sc_buf ((sd_clients x)[i := (sd_clients x ! i)\<lparr>sc_closed := q\<rparr>] ! j) = sc_buf (sd_clients x ! j)" for i j z q
    by (cases "j = i"; cases "i < length (sd_clients x)"; simp add: list_update_beyond)+
  show ?thesis
  proof (cases s)
    case (Connect label)
    then obtain d: "dial (str_of label) b = (b', None)" and x': "x' = sd_connect (str_of label) x"
      using e by (auto simp: wx both_def split: prod.splits option.splits)
    with dialled [OF b d] w show ?thesis
      by (auto simp: wx synced_def sd_connect_def nth_append less_Suc_eq intro: grows_ck_ok)
  next
    case (Send i r)
    then obtain data where r: "r = Inr data" using e by (cases r) auto
    show ?thesis
    proof (cases "sc_closed (sd_clients x ! i)")
      case True
      with Send r e w show ?thesis by (simp add: wx)
    next
      case False
      then obtain "push i data b = (b', None)" and x': "x' = sd_send i data x"
        using Send r e by (auto simp: wx both_def split: prod.splits option.splits)
      with sent_or_closed [OF b, of "push i data" i data] have "synced (b', x')"
        by (intro kept) (simp_all add: sd_send_def Let_def buf)
      with x' show ?thesis by (simp add: wx sd_send_def Let_def)
    qed
  next
    case (CloseIt i)
    show ?thesis
    proof (cases "sc_closed (sd_clients x ! i)")
      case True
      with CloseIt e w show ?thesis by (simp add: wx)
    next
      case False
      then obtain "hang_up i b = (b', None)" and x': "x' = sd_close i x"
        using CloseIt e by (auto simp: wx both_def split: prod.splits option.splits)
      with sent_or_closed [OF b, of "hang_up i" i] have "synced (b', x')"
        by (intro kept) (simp_all add: sd_close_def buf)
      with x' show ?thesis by (simp add: wx sd_close_def)
    qed
  next
    case (Sync tag)
    then show ?thesis
      using e w sync_lines [of b x proto "str_of tag" x'] by (auto simp: wx split: sum.splits)
  qed
qed

lemma script_lines:
  "synced w \<Longrightarrow> for_each (sd_exec proto) ss w = (w', None) \<Longrightarrow>
   \<exists>ls. sd_transcript (snd w') = sd_transcript (snd w) @ ls \<and> list_all (recorded proto) ls"
proof (induction ss arbitrary: w)
  case Nil
  then show ?case by (simp add: skip_def)
next
  case (Cons s ss)
  obtain w1 where w1: "sd_exec proto s w = (w1, None)" "for_each (sd_exec proto) ss w1 = (w', None)"
    using Cons.prems(2) by (cases "sd_exec proto s w"; cases "snd (sd_exec proto s w)") (auto simp: seq_def)
  with exec_lines [OF Cons.prems(1) w1(1)] Cons.IH [of w1] show ?case by force
qed

section \<open>No line is a partial frame\<close>

lemma render_chars:
  assumes "render proto body = Inr r"
  shows "60 \<notin> set r" and "\<exists>n x. r = n @ 32 # x \<and> 32 \<notin> set n \<and> n \<noteq> str_of ''PARTIAL''"
proof -
  obtain t p where body: "body = t # p" using assms by (cases body) (simp_all add: render_def)
  have hex: "60 \<notin> set (hex_of bs)" for bs
  proof -
    have "low_hex_digit v \<noteq> 60" for v by (simp add: low_hex_digit_def)
    then show ?thesis by (auto simp: hex_of_def)
  qed
  have names: "(t, n) \<in> set TNAME \<Longrightarrow> 60 \<notin> set n \<and> n \<noteq> str_of ''PARTIAL''" for n
    by (auto simp: TNAME_def str_of_def)
  have "hex_digit v \<noteq> 60" for v by (simp add: hex_digit_def)
  then have "60 \<notin> set (type_name t) \<and> type_name t \<noteq> str_of ''PARTIAL''"
    using names [OF map_of_SomeD] by (auto simp: type_name_def dict_get_def hex2_def str_of_def split: option.split)
  moreover have r: "r = rendered proto t p" using assms body by (simp add: render_rendered)
  ultimately show "60 \<notin> set r" "\<exists>n x. r = n @ 32 # x \<and> 32 \<notin> set n \<and> n \<noteq> str_of ''PARTIAL''"
    using hex type_name_no_space [of t] by (auto simp: rendered_def str_of_def)
qed

lemma split_last:
  assumes "z \<notin> set a" and "z \<notin> set b" and "x @ z # a = y @ z # b"
  shows "a = b"
proof -
  have "rev a @ z # rev x = rev b @ z # rev y" using arg_cong [OF assms(3), of rev] by simp
  with split_first [of z "rev a" "rev b"] assms(1,2) show ?thesis by simp
qed

lemma recorded_not_partial:
  assumes "recorded proto line"
  shows "line \<noteq> head @ arrow @ str_of ''PARTIAL '' @ hex_of rest"
proof
  assume line: "line = head @ arrow @ str_of ''PARTIAL '' @ hex_of rest"
  obtain h r where r: "line = h @ arrow @ r" "r = str_of ''EOF'' \<or> (\<exists>body. render proto body = Inr r)"
    using assms by (auto simp: recorded_def)
  have "low_hex_digit v \<noteq> 60" for v by (simp add: low_hex_digit_def)
  then have b: "60 \<notin> set (45 # 32 # str_of ''PARTIAL '' @ hex_of rest)"
    by (auto simp: hex_of_def str_of_def)
  have a: "60 \<notin> set (45 # 32 # r)" using r(2) render_chars(1) by (auto simp: str_of_def)
  have "(h @ [32]) @ 60 # 45 # 32 # r = (head @ [32]) @ 60 # 45 # 32 # str_of ''PARTIAL '' @ hex_of rest"
    using r(1) line by (simp add: arrow_def str_of_def)
  with a b have "45 # 32 # r = 45 # 32 # str_of ''PARTIAL '' @ hex_of rest"
    by (rule split_last)
  then have eq: "r = str_of ''PARTIAL'' @ 32 # hex_of rest" by (simp add: str_of_def)
  then have "\<exists>body. render proto body = Inr r" using r(2) by (auto simp: str_of_def)
  then obtain n x where "r = n @ 32 # x" "32 \<notin> set n" "n \<noteq> str_of ''PARTIAL''" using render_chars(2) by blast
  with eq split_first [of 32 n "str_of ''PARTIAL''"] show False by (simp add: str_of_def)
qed

lemma synced_start:
  assumes "0 \<le> ar_delay a" and "ar_delay a < 256" and "list_all takes_all sock"
  shows "synced (sd_start (main_server a rng) sock)"
  using main_linv [OF assms(1,2), of rng 0] assms(3)
  by (simp add: synced_def sd_start_def tidy_bench_def bench_init_def)
    (simp add: loop_init_def relay_init_def main_server_def server_init_def)

lemma run_lines:
  assumes "0 \<le> ar_delay a" and "ar_delay a < 256" and "list_all takes_all sock"
    and "sd_run proto script (main_server a rng) sock = Inr ls"
  shows "list_all (recorded proto) ls"
proof -
  let ?w = "sd_start (main_server a rng) sock"
  obtain w' where w': "for_each (sd_exec proto) (script @ [Sync ''final'']) ?w = (w', None)"
      "ls = sd_transcript (snd w')"
    using assms(4) by (auto simp: sd_run_def split: prod.splits option.splits)
  have "sd_transcript (snd ?w) = []" by (simp add: sd_start_def)
  with script_lines [OF synced_start [OF assms(1-3)] w'(1)] w'(2) show ?thesis by auto
qed

end
