(* ===== verification/ScriptProps.thy ===== *)
theory ScriptProps
  imports ScriptReads Running
begin

text \<open>
  What the relay answers to the scripts of the differential test: the transcripts of three
  of them, computed, and what no transcript can have.
\<close>

section \<open>Transcripts\<close>

text \<open>On sockets with room, for every seed. In the roster script version 1 is refused, a client
  that renames itself goes to the end of the listing and the holder of a stolen name is
  dropped; in the start script GO is obeyed only from the host of a formed room that has not
  started; in the framing script every frame of a stream that arrives in pieces is served and
  an impossible length closes the stream.\<close>

declare dec2_small [simp]

lemma lazy_scripts [cong]:
  "w = w' \<Longrightarrow> sd_exec proto step w = sd_exec proto step w'"
  by simp

lemmas script_simps [simp] =
  hello_data_def join_data_def sd_hello_def tell_all_def fresh_data_def arrivals_def all_read_def
  both_def sd_start_def sd_run_def crc_data_def in_pieces_def together_def
  sd_frame_def sd_pad_def sd_connect_def sd_send_def sd_close_def sd_arrival_def sd_bodies.simps
  sd_record_def sd_sync_def arrow_def render_def type_name_def TNAME_def hex_of_def hex2_def
  low_hex_digit_def hex_digit_def mask_seed_def seed_at_def

abbreviation lines :: "string list \<Rightarrow> pystr list" where "lines \<equiv> map str_of"

definition roster_lines :: "pystr list" where
  "roster_lines = lines
    [''01 hello ALICE | ALICE <- LOBBY 00'',
     ''02 hello BOB | BOB <- LOBBY 01414c49434500000001'',
     ''03 hello CAROL | CAROL <- LOBBY 02414c49434500000001424f42000000000001'',
     ''04 hello DAVE | DAVE <- LOBBY 03414c49434500000001424f420000000000014341524f4c00000001'',
     ''05 v1 hello refused | OLDGUY <- EOF'',
     ''06 LIST from each | ALICE <- LOBBY 03424f420000000000014341524f4c00000001444156450000000001'',
     ''06 LIST from each | BOB <- LOBBY 03414c494345000000014341524f4c00000001444156450000000001'',
     ''06 LIST from each | CAROL <- LOBBY 03414c49434500000001424f42000000000001444156450000000001'',
     ''06 LIST from each | DAVE <- LOBBY 03414c49434500000001424f420000000000014341524f4c00000001'',
     ''07 CAROL renames to CAROL2 | CAROL <- LOBBY 03414c49434500000001424f42000000000001444156450000000001'',
     ''08 hello EVE | EVE <- LOBBY 04414c49434500000001424f420000000000014441564500000000014341524f4c32000001'',
     ''09 EVE steals the name BOB | BOB <- EOF'',
     ''09 EVE steals the name BOB | EVE <- LOBBY 03414c494345000000014441564500000000014341524f4c32000001'',
     ''10 LIST after the churn | ALICE <- LOBBY 034441564500000000014341524f4c32000001424f42000000000001'',
     ''10 LIST after the churn | DAVE <- LOBBY 03414c494345000000014341524f4c32000001424f42000000000001'',
     ''10 LIST after the churn | EVE <- LOBBY 03414c494345000000014441564500000000014341524f4c32000001'',
     ''12 LIST after a drop | DAVE <- LOBBY 024341524f4c32000001424f42000000000001'',
     ''12 LIST after a drop | EVE <- LOBBY 024441564500000000014341524f4c32000001'']"

lemma roster_transcript:
  "sd_run 2 s1_roster_order (main_server default_args rng) roomy = Inr roster_lines"
  by (simp add: s1_roster_order_def roomy_def roster_lines_def)

definition start_lines :: "pystr list" where
  "start_lines = lines
    [''01 hello ALICE | ALICE <- LOBBY 00'',
     ''02 hello BOB | BOB <- LOBBY 01414c49434500000001'',
     ''04 BOB joins ALICE | ALICE <- ROOM 02414c494345000000424f42000000000000000000000000000000000000000000'',
     ''04 BOB joins ALICE | BOB <- ROOM 02414c494345000000424f42000000000000000000000000000000000000000000'',
     ''06 host GO -> START | ALICE <- START 0002aaaa03414c494345000000424f42000000000000000000000000000000000000000000 (seed masked)'',
     ''06 host GO -> START | BOB <- START 0102aaaa03414c494345000000424f42000000000000000000000000000000000000000000 (seed masked)'',
     ''08 hello CAROL | CAROL <- LOBBY 02414c49434500000082424f42000000000082'',
     ''09 join a started room -> LOBBY | CAROL <- LOBBY 02414c49434500000082424f42000000000082'',
     ''10 PING -> PONG | ALICE <- PONG '']"

lemma start_transcript:
  "sd_run 2 s3_go_start (main_server default_args rng) roomy = Inr start_lines"
  by (simp add: s3_go_start_def roomy_def start_lines_def)

definition framing_lines :: "pystr list" where
  "framing_lines = lines
    [''01 hello ALICE | ALICE <- LOBBY 00'',
     ''02 PING dribbled one byte at a time | ALICE <- PONG '',
     ''03 two frames in one write | ALICE <- PONG '',
     ''03 two frames in one write | ALICE <- PONG '',
     ''04 three LISTs split mid-frame | ALICE <- LOBBY 00'',
     ''04 three LISTs split mid-frame | ALICE <- LOBBY 00'',
     ''04 three LISTs split mid-frame | ALICE <- LOBBY 00'',
     ''05 JOIN in three fragments | ALICE <- LOBBY 00'',
     ''06 length byte 0 -> bad frame length | BADLEN <- EOF'',
     ''07 length byte 201 -> bad frame length | BADLEN2 <- EOF'',
     ''08 hello DAVE | DAVE <- LOBBY 01414c49434500000001'',
     ''09 unknown type $7F | DAVE <- EOF'']"

lemma framing_transcript:
  "sd_run 2 (s6_framing 2) (main_server default_args rng) roomy = Inr framing_lines"
  by (simp add: s6_framing_def roomy_def framing_lines_def)

section \<open>Every script\<close>

text \<open>C13. No transcript of the relay has a partial frame: whatever a script sends and however it
  cuts its writes, when the sockets take what they are given each sync ends on the boundary
  of a frame, for every client, dropped ones included.\<close>

theorem scripts_never_partial:
  assumes "0 \<le> ar_delay a" and "ar_delay a < 256" and "list_all takes_all sock"
    and "sd_run proto script (main_server a rng) sock = Inr ls"
  shows "head @ arrow @ str_of ''PARTIAL '' @ hex_of rest \<notin> set ls"
proof
  assume "head @ arrow @ str_of ''PARTIAL '' @ hex_of rest \<in> set ls"
  with run_lines [OF assms] have "recorded proto (head @ arrow @ str_of ''PARTIAL '' @ hex_of rest)"
    unfolding list_all_iff by blast
  from recorded_not_partial [OF this] show False by blast
qed

lemma hello_transcript:
  "sd_run 2 (sd_hello 2 0 ''ALICE'') (main_server default_args rng) roomy =
   Inr (lines [''01 hello ALICE | ALICE <- LOBBY 00''])"
  by (simp add: roomy_def)

lemma roomy_takes_all: "list_all takes_all roomy"
  unfolding roomy_def takes_all_def list_all_iff MAX_TX_BACKLOG_def by force

theorem scripts_never_partial_witness:
  "str_of ''01 hello ALICE | ALICE'' @ arrow @ str_of ''PARTIAL '' @ hex_of [4, 3] \<notin>
     set (lines [''01 hello ALICE | ALICE <- LOBBY 00''])"
  by (rule scripts_never_partial [OF demo_args roomy_takes_all hello_transcript])

end
