(* ===== verification/SoakProps.thy ===== *)
theory SoakProps
  imports BenchProps
begin

text \<open>
  The soak does not put the load it names on the relay: all its clients share an address,
  of which the relay serves eight.
\<close>

text \<open>C37. However many idle clients the soak asks for, and however long it runs, the relay
  holds at most eight connections: with the default of 32 it measures the memory of a relay
  with the match and six idle clients.\<close>

theorem soak_holds_eight:
  "length (sv_clients (bn_server (fst
     (soak_main a late t0 turns (bench_init (main_server default_args rng) sock))))) \<le> 8"
  by (rule homely_holds_eight, rule home.soak_main_keeps, rule homely_start) (simp_all add: demo_args)

end
