(* ===== verification/Reach.thy ===== *)
theory Reach
  imports RunProps
begin

text \<open>
  The relay's event loop as a state machine: the states its turns lead to. Runs lead to
  exactly these, the invariant holds in all of them, and who is dropped stays so.
\<close>

section \<open>The steps of the loop\<close>

text \<open>One turn that ends without an exception, whatever \<^verbatim>\<open>select\<close> and the clock deliver
  short of a failing \<^verbatim>\<open>accept\<close>.\<close>

inductive turns :: "loop \<Rightarrow> loop \<Rightarrow> bool" where
  turn: "turn (es, now) x = (y, None) \<Longrightarrow> AcceptFails \<notin> set es \<Longrightarrow> turns x y"

inductive reaches :: "loop \<Rightarrow> loop \<Rightarrow> bool" for x where
  here: "reaches x x"
| later_on: "reaches x y \<Longrightarrow> turns y z \<Longrightarrow> reaches x z"

inductive_cases turnsE: "turns x y"

lemma turns_inv:
  assumes "turns x y" and "linv x"
  shows "linv y"
proof -
  obtain es now where "turn (es, now) x = (y, None)" using assms(1) by (rule turnsE)
  with turn_inv(1) [OF assms(2), of es now] show ?thesis by simp
qed

lemma reaches_inv: "reaches x y \<Longrightarrow> linv x \<Longrightarrow> linv y"
  by (induction rule: reaches.induct) (auto intro: turns_inv)

text \<open>In a state of the invariant a turn never raises, so it is a step.\<close>

lemma turn_turns:
  assumes "linv x" and "AcceptFails \<notin> set es"
  shows "turns x (fst (turn (es, now) x))"
proof (rule turns.turn)
  show "turn (es, now) x = (fst (turn (es, now) x), None)"
    using turn_inv(2) [OF assms] by (simp add: prod_eq_iff)
qed (rule assms(2))

section \<open>Runs\<close>

definition accepts :: "(event list \<times> real) list \<Rightarrow> bool" where
  "accepts ts \<longleftrightarrow> list_all (\<lambda>t. AcceptFails \<notin> set (fst t)) ts"

lemma run_snoc: "run ts x = (y, None) \<Longrightarrow> run (ts @ [t]) x = turn t y"
proof (induction ts arbitrary: x)
  case (Cons u ts)
  then obtain z where "turn u x = (z, None)" "run ts z = (y, None)"
    by (cases "turn u x"; cases "snd (turn u x)") (auto simp: run_def seq_def)
  with Cons.IH [of z] show ?case by (simp add: run_def seq_def)
qed (simp add: run_def seq_def skip_def split: prod.split option.split)

lemma reaches_first: "reaches y z \<Longrightarrow> turns x y \<Longrightarrow> reaches x z"
  by (induction rule: reaches.induct) (auto intro: reaches.intros)

theorem reaches_iff_run:
  "reaches x y \<longleftrightarrow> (\<exists>ts. accepts ts \<and> run ts x = (y, None))"
proof
  show "reaches x y \<Longrightarrow> \<exists>ts. accepts ts \<and> run ts x = (y, None)"
  proof (induction rule: reaches.induct)
    case here
    show ?case by (intro exI [of _ "[]"]) (simp add: accepts_def run_def skip_def)
  next
    case (later_on y z)
    obtain ts where ts: "accepts ts" "run ts x = (y, None)" using later_on.IH by blast
    obtain es now where "turn (es, now) y = (z, None)" "AcceptFails \<notin> set es"
      using later_on.hyps(2) by (rule turnsE)
    then show ?case
      using ts run_snoc [OF ts(2), of "(es, now)"]
      by (intro exI [of _ "ts @ [(es, now)]"]) (simp add: accepts_def)
  qed
next
  assume "\<exists>ts. accepts ts \<and> run ts x = (y, None)"
  then obtain ts where ts: "accepts ts" "run ts x = (y, None)" by blast
  then show "reaches x y"
  proof (induction ts arbitrary: x)
    case Nil
    then show ?case by (simp add: run_def skip_def reaches.here)
  next
    case (Cons t ts)
    then obtain z where z: "turn t x = (z, None)" "run ts z = (y, None)"
      by (cases "turn t x"; cases "snd (turn t x)") (auto simp: run_def seq_def)
    have "turns x z"
      using z(1) Cons.prems(1) by (cases t) (auto simp: accepts_def intro: turns.turn)
    with Cons.IH [of z] Cons.prems(1) z(2) show ?case
      by (auto simp: accepts_def intro: reaches_first)
  qed
qed

section \<open>Dropping is final\<close>

lemma turns_streams: "turns x y \<Longrightarrow> linv x \<Longrightarrow> lstreams x y"
  by (erule turnsE) (metis fst_conv turn_streams)

lemma reaches_streams: "reaches x y \<Longrightarrow> linv x \<Longrightarrow> lstreams x y"
proof (induction rule: reaches.induct)
  case here
  show ?case by (simp add: lstreams_def streams_grows)
next
  case (later_on y z)
  have "linv y" using reaches_inv later_on.hyps(1) later_on.prems by blast
  then show ?case
    using later_on turns_streams unfolding lstreams_def by (blast intro: grows_trans)
qed

text \<open>C36. A dropped client stays dropped: from a state of the invariant, whatever happens in
  later turns of the loop (turns without a failing \<^verbatim>\<open>accept\<close>, which ends the server), it is
  not among the clients, not watched by the selector, and nothing more is buffered for it or
  given to its socket. So a connection that is closed is never written to, although its
  number can still be in the name table (\<open>RelayProps.hello_registers_ghost\<close>).\<close>

theorem dropped_stays_dropped:
  assumes "linv x" and "reaches x y" and s: "s = rl_server (lp_relay x)" and t: "t = rl_server (lp_relay y)"
    and "c < sv_next_cl s" and "dead s c"
  shows "dead t c \<and> c \<notin> set (sv_clients t) \<and> sv_sel t c = None \<and>
    cl_wire (sv_cl t c) = cl_wire (sv_cl s c) \<and> cl_tx (sv_cl t c) = cl_tx (sv_cl s c)"
proof -
  have "grows s t" using reaches_streams [OF assms(2,1)] s t by (simp add: lstreams_def)
  then have t': "dead t c" "cl_wire (sv_cl t c) = cl_wire (sv_cl s c)" "cl_tx (sv_cl t c) = cl_tx (sv_cl s c)"
    using assms(5,6) by (simp_all add: grows_def)
  have "winv {} t" using reaches_inv [OF assms(2,1)] t by (simp add: linv_def)
  then have "c \<notin> set (sv_clients t)" "sv_sel t c = None"
    using t'(1) by (simp_all add: winv_def clients_ok_def tx_ok_def)
  with t' show ?thesis by blast
qed

text \<open>In the match of \<open>AA\<close> and \<open>BB\<close>, \<open>BB\<close> has left; then it is reported readable and
  writable once more, and \<open>AA\<close> asks for the lobby.\<close>

theorem dropped_stays_dropped_witness:
  "\<exists>s x y. drop_client 1 Bye demo_match = (s, None) \<and> x = loop_init s 0 \<and>
     y = fst (turn ([Ready 1 True (Some (RecvData [1, 12])), Ready 0 False (Some (RecvData [1, 2]))], 5) x) \<and>
     reaches x y \<and> dead s 1 \<and>
     (let t = rl_server (lp_relay y)
      in dead t 1 \<and> 1 \<notin> set (sv_clients t) \<and> sv_sel t 1 = None \<and>
         cl_wire (sv_cl t 1) = cl_wire (sv_cl s 1) \<and> cl_tx (sv_cl t 1) = cl_tx (sv_cl s 1))"
proof -
  obtain s where s: "drop_client 1 Bye demo_match = (s, None)" "winv {} s" "later demo_match s"
    using keeps_fst [OF drop_client_keeps demo_invs(3)] by blast
  have dead: "dead s 1" using drop_client_kills [OF demo_invs(3), of 1 Bye] s(1) by simp
  have nx: "1 < sv_next_cl s" using s(3) by (simp add: later_def demo_defs)
  let ?x = "loop_init s 0"
  have x: "linv ?x" "s = rl_server (lp_relay ?x)"
    using s(2) by (simp_all add: linv_def loop_init_def relay_init_def)
  let ?es = "[Ready 1 True (Some (RecvData [1, 12])), Ready 0 False (Some (RecvData [1, 2]))]"
  let ?y = "fst (turn (?es, 5) ?x)"
  have y: "reaches ?x ?y" by (rule reaches.later_on [OF reaches.here turn_turns [OF x(1)]]) simp
  from dropped_stays_dropped [OF x(1) y x(2) refl nx dead] s(1) y dead show ?thesis
    unfolding Let_def by blast
qed

end
