(* ===== verification/Echo.thy ===== *)
theory Echo
  imports Protocol
begin

text \<open>
  \<^verbatim>\<open>tools/latency_probe_server.py\<close>: the echo server of the transport spike, one connection
  at a time. A session is the list of what each receive returns, with the clock read after it
  and whether the echo could be sent.
\<close>

record echo =
  ec_sent :: "byte list"
  ec_rounds :: nat
  ec_gaps :: "real list"
  ec_last :: real

definition echo_start :: "real \<Rightarrow> echo" where
  "echo_start t0 = \<lparr>ec_sent = [], ec_rounds = 0, ec_gaps = [], ec_last = t0\<rparr>"

text \<open>The loop: an end of stream or an \<^verbatim>\<open>OSError\<close>, of either call, ends it.\<close>

fun echo_loop :: "(recv_res \<times> real \<times> bool) list \<Rightarrow> echo \<Rightarrow> echo" where
  "echo_loop [] e = e"
| "echo_loop ((RecvData data, now, sendable) # rest) e =
     (if data = [] then e
      else
        (let e = e\<lparr>ec_gaps := ec_gaps e @ [now - ec_last e], ec_last := now\<rparr>
         in if sendable
            then echo_loop rest (e\<lparr>ec_sent := ec_sent e @ data, ec_rounds := Suc (ec_rounds e)\<rparr>)
            else e))"
| "echo_loop ((_, now, sendable) # rest) e = e"

text \<open>The report of a closed connection: the receives, the seconds, the average gap.\<close>

definition echo_average :: "real list \<Rightarrow> real" where
  "echo_average gaps = sum_list (tl gaps) / real (max (length gaps - 1) 1)"

definition echo_session :: "real \<Rightarrow> (recv_res \<times> real \<times> bool) list \<Rightarrow> real \<Rightarrow> byte list \<times> (nat \<times> real \<times> real) option" where
  "echo_session t0 turns t1 =
     (let e = echo_loop turns (echo_start t0)
      in (ec_sent e, if ec_gaps e = [] then None
                     else Some (ec_rounds e, t1 - t0, echo_average (ec_gaps e))))"

section \<open>What a session shows\<close>

definition received_data :: "(byte list \<times> real) list \<Rightarrow> (recv_res \<times> real \<times> bool) list" where
  "received_data = map (\<lambda>(d, t). (RecvData d, t, True))"

lemma echo_loop_data:
  "\<forall>d \<in> set ds. fst d \<noteq> [] \<Longrightarrow>
   echo_loop (received_data ds) e =
     \<lparr>ec_sent = ec_sent e @ concat (map fst ds), ec_rounds = ec_rounds e + length ds,
      ec_gaps = ec_gaps e @ map2 (-) (map snd ds) (butlast (ec_last e # map snd ds)),
      ec_last = last (ec_last e # map snd ds)\<rparr>"
proof (induction ds arbitrary: e)
  case (Cons d ds)
  then show ?case
    by (cases d) (simp add: received_data_def Let_def)
qed (simp add: received_data_def)

lemma gaps_sum: "sum_list (map2 (-) ts (butlast (t # ts))) = last (t # ts) - (t :: real)"
  by (induction ts arbitrary: t) auto

text \<open>The probe echoes what it receives, in order, and the average it reports is the time
  from the first receive to the last over the number of gaps between them: the wait before
  the first byte does not count.\<close>

theorem echo_measures:
  assumes "\<forall>d \<in> set ((d, t) # ds). fst d \<noteq> []"
  shows "echo_session t0 (received_data ((d, t) # ds)) t1 =
    (concat (map fst ((d, t) # ds)),
     Some (Suc (length ds), t1 - t0, (last (t # map snd ds) - t) / real (max (length ds) 1)))"
  using echo_loop_data [OF assms, of "echo_start t0"] gaps_sum [of "map snd ds" t]
  by (simp add: echo_session_def echo_start_def echo_average_def)

theorem echo_measures_witness:
  "echo_session 0 (received_data [([1, 2], 5), ([3], 6), ([4], 9)]) 10 =
     ([1, 2, 3, 4], Some (3, 10, 2))"
  using echo_measures [of "[1, 2]" 5 "[([3], 6), ([4], 9)]" 0 10] by simp

end
