(* ===== verification/Spec2Isabelle.thy ===== *)
theory Spec2Isabelle
  imports RomProps GhostProps LobbyProps GateProps ScriptProps SoakProps Reach Echo
begin

text \<open>
  The relay server of the Sea Battle port and the Python tools around it.

  \<^bold>\<open>The program.\<close> Two Intellivision consoles play in lockstep over TCP. They meet in the
  relay, \<^verbatim>\<open>server/intv_relay_server.py\<close>: one thread, one \<^verbatim>\<open>select\<close> loop, non-blocking
  sockets. A client says HELLO with a name, sees the lobby, JOINs another client (which makes
  a room of two) and the host sends GO; from then on INPUT, CRC, STATE and RESYNC frames are
  passed on between the players, and the relay compares the CRCs they report. A second
  thread publishes the number of players to a lobby service. The tools prepare and check the
  ROM image (\<^verbatim>\<open>recon\<close>, \<^verbatim>\<open>patches\<close>, \<^verbatim>\<open>dump_rom\<close>, \<^verbatim>\<open>check_patch\<close>), read emulator
  logs (\<^verbatim>\<open>crc_trace_diff\<close>, \<^verbatim>\<open>cell_diff\<close>, \<^verbatim>\<open>mk_replay\<close>, \<^verbatim>\<open>check_dest_phase\<close>), play an
  opponent (\<^verbatim>\<open>ghost_peer\<close>), and test the relay (\<^verbatim>\<open>bbnet_client_sim\<close>,
  \<^verbatim>\<open>server_diff\<close>, \<^verbatim>\<open>soak\<close>, \<^verbatim>\<open>latency_probe_server\<close>).

  \<^bold>\<open>The relay.\<close>
  \<^item> \<^theory_text>\<open>Prelude\<close>: bytes, Python's ordered dictionaries (locales \<open>dict\<close> and
    \<open>ordered_dict\<close>, interpreted on association lists), and statements: functions from a state to the new state and the
    exception raised, with \<open>seq\<close>, \<open>for_each\<close> and \<open>bind_val\<close>.
  \<^item> \<^theory_text>\<open>Wire\<close>: frame types, limits, \<open>frame\<close>, \<open>pad_name\<close>, names; the specification
    \<open>deframe\<close> of what a byte stream means.
  \<^item> \<^theory_text>\<open>Lobby\<close>: \<^verbatim>\<open>LobbyPublisher\<close>; its two threads move by \<open>pub_step\<close> between
    the points where the lock is released, in any order; an HTTP request is an outcome given
    from outside.
  \<^item> \<^theory_text>\<open>Server\<close>: \<^verbatim>\<open>Room\<close>, \<^verbatim>\<open>Client\<close>, \<^verbatim>\<open>Server\<close> as records in a store addressed by
    numbers, since the code shares and mutates them; accepting, sending, flushing, dropping.
    \<^verbatim>\<open>drop\<close> and \<^verbatim>\<open>send\<close> call each other, so the send path takes the way of dropping as
    an argument and \<open>drop_fuel\<close> bounds the recursion; two levels are enough
    (\<open>ServiceProps.drop_completes\<close>: a client is marked dead before anyone is told).
  \<^item> \<^theory_text>\<open>Protocol\<close>: the handlers, the read loop \<^verbatim>\<open>service\<close>, \<^verbatim>\<open>accept\<close>, the timers and
    \<^verbatim>\<open>run\<close>. A run is the list of what \<^verbatim>\<open>select\<close> and the clock deliver, turn by turn.

  A socket is a script: what each \<^verbatim>\<open>send\<close> returns (\<open>SendN n\<close>, \<open>SendBlock\<close>, \<open>SendFail\<close>),
  and \<open>cl_wire\<close> is what the kernel has taken. Iterating over a member list that shrinks is
  \<open>for_members\<close>, which indexes the live list as Python does; the length at the start bounds
  it because lists only shrink in the bodies. Random numbers and times are arguments.
  Properties that say what a client is sent assume \<open>healthy s c n\<close>: its socket does not fail
  and its transmit buffer has room for \<open>n\<close> bytes; without it \<^verbatim>\<open>send\<close> drops the client. The
  model is wider than the code in that a \<^verbatim>\<open>recv\<close> may return more than 4096 bytes, and an
  \<^verbatim>\<open>OSError\<close> of the new socket's options counts as a failing \<^verbatim>\<open>accept\<close>.

  \<^bold>\<open>What is shown of the relay.\<close>
  \<^item> \<^theory_text>\<open>Invariant\<close>, \<^theory_text>\<open>Plumbing\<close>, \<^theory_text>\<open>Drop\<close>, \<^theory_text>\<open>Handlers\<close>, \<^theory_text>\<open>RunInv\<close>: the
    invariant \<open>winv\<close> and that every operation keeps it and raises only what it may.
    \<open>winv X\<close> lets the transmit buffers of the clients in \<open>X\<close> disagree with the selector,
    which is the state inside a send. The transmit path is proved for any way of dropping
    (locales \<open>dropper\<close>, \<open>full_dropper\<close>), interpreted on the bounded recursion and on
    \<open>drop_client\<close>.
  \<^item> \<^theory_text>\<open>Delivery\<close>: what one operation adds to what each client is sent.
  \<^item> \<^theory_text>\<open>Streams\<close>, \<^theory_text>\<open>ReadPath\<close>: downstream, every operation appends whole well-typed frames
    (locale \<open>streaming_dropper\<close>), on sockets that take all or nothing none is cut on the wire,
    and a turn without an accept adds no client; upstream, the read loop refines
    \<open>deframe\<close> and does not depend on how TCP cuts the bytes.
  \<^item> \<^theory_text>\<open>Scenario\<close> holds the concrete states of the witnesses. \<^theory_text>\<open>RelayProps\<close> (handlers),
    \<^theory_text>\<open>ServiceProps\<close> (read path, drop, timers, CRC rounds), \<^theory_text>\<open>LobbyProps\<close>
    (publisher) and \<^theory_text>\<open>RunProps\<close> (whole runs of the server \<^verbatim>\<open>main\<close> starts) hold the
    properties. \<^theory_text>\<open>Reach\<close> has the relay as a state machine, the inductive relations
    \<open>turns\<close> and \<open>reaches\<close>: runs lead to exactly the reachable states, and there a dropped
    client stays dropped.

  \<^bold>\<open>The tools.\<close>
  \<^item> \<^theory_text>\<open>Rom\<close>, \<^theory_text>\<open>RomProps\<close>: the image, scanners and patch tools of \<^verbatim>\<open>recon.py\<close>,
    \<^verbatim>\<open>patches.py\<close>, \<^verbatim>\<open>dump_rom.py\<close>, \<^verbatim>\<open>check_patch.py\<close>.
  \<^item> \<^theory_text>\<open>Regex\<close>: a backtracking matcher for the part of \<^verbatim>\<open>re\<close> the tools use (digit classes
    are ASCII). \<^theory_text>\<open>Trace\<close>, \<^theory_text>\<open>TraceProps\<close>: the four log tools.
  \<^item> \<^theory_text>\<open>SimClient\<close>: framing and decoders of the simulated console, proved against the
    encoders of the server. \<^theory_text>\<open>Ghost\<close>, \<^theory_text>\<open>GhostProps\<close>: the scripted opponent.
  \<^item> \<^theory_text>\<open>Differ\<close>, \<^theory_text>\<open>DifferProps\<close>: the recording, filters and comparison of
    \<^verbatim>\<open>server_diff.py\<close>. \<^theory_text>\<open>Echo\<close>: the latency probe.

  \<^bold>\<open>The tests, run against the relay.\<close>
  \<^item> \<^theory_text>\<open>Bench\<close> joins the model of the relay to clients: a test program dials, sends, reads
    and asserts. Relay and clients share a machine and an instant: what is sent has been
    served before the program goes on, so a script's pauses have no counterpart, and the
    relay's clock moves only when a program waits. A receive with nothing pending is
    Python's \<^verbatim>\<open>socket.timeout\<close>.
  \<^item> \<^theory_text>\<open>Gate\<close>, \<^theory_text>\<open>GateProps\<close>: the acceptance test \<^verbatim>\<open>bbnet_client_sim.py\<close>, for
    2 to 4 seats; the relay passes it. \<open>await_start\<close> runs as long as there are bytes pending,
    which is enough since every frame takes one.
  \<^item> \<^theory_text>\<open>Scripts\<close>, \<^theory_text>\<open>ScriptReads\<close>, \<^theory_text>\<open>ScriptProps\<close>: the scripts of \<^verbatim>\<open>server_diff.py\<close>,
    three of the transcripts they leave, and what holds of every script. The scripts run in
    the bench's fixed order, also where the order of two processes would be a matter of luck
    (the ninth connection of the limits scenario).
  \<^item> \<^theory_text>\<open>Soak\<close>, \<^theory_text>\<open>SoakProps\<close>: the load of \<^verbatim>\<open>soak.py\<close> and the parked clients of
    \<^verbatim>\<open>test/lobby_idlers.py\<close>.
  \<^item> \<^theory_text>\<open>BenchProps\<close>: locale \<open>bench_law\<close>, what every bench program keeps, interpreted on
    \<open>homely\<close> (all connections from one address) and \<open>tidy_bench\<close> (whole frames on the wire).
    \<^theory_text>\<open>Evaluate\<close> and \<^theory_text>\<open>Running\<close> are the rewrite rules that run a program on the bench:
    the definitions of the relay, and congruences that keep a branch unevaluated until its
    guard is known.

  Sequences like the read loops, the tokenizers and the table walk end by a measure: the
  bytes, characters or image left.

  \<^bold>\<open>Not modelled.\<close> Creating sockets, threads and processes, parsing arguments, setting up
  logging and printing are I/O; of a log line the event and its arguments are kept, of a
  report the values. Descriptive names that \<^verbatim>\<open>recon.py\<close> prints next to numbers are left
  out. The soak's readings of \<^verbatim>\<open>/proc\<close> are inputs. \<^verbatim>\<open>test_lobby_pub.py\<close> is a driver around
  an HTTP server. The C relay (\<^verbatim>\<open>server/c\<close>) is a port of the Python one, the assembly
  sources run on the console, and the shell scripts start emulators: none of them is Python,
  and where a tool compares with the C relay its result is a parameter.
\<close>

end
